(* ===== verification/Prelude.thy ===== *)
theory Prelude
  imports Main "HOL-Library.Word" "HOL-Library.Monad_Syntax" "HOL-Library.Sublist"
begin

text \<open>
  Shared vocabulary of the development: the C integer types at their width on the target
  (a 32-bit Cortex-A9, so \<open>unsigned long\<close> and \<open>uintptr_t\<close> are 32 bits), the collections
  of facts the component proofs use, and the lemmas on words and lists that several
  components share.

  Two conventions hold everywhere.
  \<^item> A function that touches memory through an index returns an \<open>option\<close>: \<open>None\<close> is an
    access outside its array, which C leaves undefined. That it never happens is a lemma.
  \<^item> A pointer the code compares with \<open>NULL\<close> is an \<open>option\<close>, \<open>None\<close> being \<open>NULL\<close>.
\<close>

unbundle bit_operations_syntax

type_synonym u8 = "8 word"
type_synonym u16 = "16 word"
type_synonym u32 = "32 word"
type_synonym u64 = "64 word"

named_theorems wf_intros \<open>well-formedness and invariant introduction\<close>
named_theorems abs_simps \<open>how operations act on the abstract view of a state\<close>

section \<open>Arrays: checked reads and writes\<close>

definition arr_get :: "'a list \<Rightarrow> nat \<Rightarrow> 'a option" where
  "arr_get xs i = (if i < length xs then Some (xs ! i) else None)"

definition arr_set :: "'a list \<Rightarrow> nat \<Rightarrow> 'a \<Rightarrow> 'a list option" where
  "arr_set xs i v = (if i < length xs then Some (xs[i := v]) else None)"

lemma arr_get_in [simp]: "i < length xs \<Longrightarrow> arr_get xs i = Some (xs ! i)"
  by (simp add: arr_get_def)

lemma arr_set_in [simp]: "i < length xs \<Longrightarrow> arr_set xs i v = Some (xs[i := v])"
  by (simp add: arr_set_def)

lemma arr_get_None_iff [simp]: "arr_get xs i = None \<longleftrightarrow> length xs \<le> i"
  by (auto simp: arr_get_def)

lemma arr_set_None_iff [simp]: "arr_set xs i v = None \<longleftrightarrow> length xs \<le> i"
  by (auto simp: arr_set_def)

section \<open>Words\<close>

lemma unat_u32_lt [simp]: "unat (w :: u32) < 4294967296"
  using unsigned_less [of w] by simp

lemma unat_u64_lt [simp]: "unat (w :: u64) < 18446744073709551616"
  using unsigned_less [of w] by simp

lemma unat_u16_lt [simp]: "unat (w :: u16) < 65536"
  using unsigned_less [of w] by simp

lemma unat_u32_add: "unat ((a :: u32) + b) = (unat a + unat b) mod 4294967296"
  by (simp add: unat_word_ariths)

lemma unat_u32_sub: "b \<le> a \<Longrightarrow> unat ((a :: u32) - b) = unat a - unat b"
  by (simp add: unat_sub)

lemma unat_of_nat_u32: "n < 4294967296 \<Longrightarrow> unat (of_nat n :: u32) = n"
  by (simp add: unat_of_nat)

lemma unat_Suc_u32: "unat (w :: u32) < n \<Longrightarrow> n < 4294967296 \<Longrightarrow> unat (w + 1) = Suc (unat w)"
  by (simp add: unat_u32_add)

lemma unat_inc_below: "(w :: u32) < n \<Longrightarrow> unat (w + 1) = Suc (unat w)"
proof -
  assume "w < n"
  then have "unat w < unat n" by (simp add: word_less_nat_alt)
  then have "Suc (unat w) < 4294967296" by (rule le_less_trans [OF Suc_leI unat_u32_lt])
  then show ?thesis by (simp add: unat_u32_add)
qed

lemma sint_u32_small: "unat (w :: u32) < 2147483648 \<Longrightarrow> sint w = int (unat w)"
proof -
  assume *: "unat w < 2147483648"
  have "int (unat w) < int 2147483648" using * by (simp only: of_nat_less_iff)
  then have "uint w < 2147483648" by simp
  then have "signed_take_bit 31 (uint w) = uint w"
    by (intro signed_take_bit_int_eq_self) (simp_all add: order_trans [of _ 0])
  then show ?thesis by (simp add: sint_uint)
qed

section \<open>Powers of two\<close>

text \<open>
  The code's test for a power of two is \<open>c \<noteq> 0\<close> and \<open>c AND (c - 1) = 0\<close>. The lemmas here
  say what it decides and that \<open>AND (c - 1)\<close> is then the remainder by \<open>c\<close>.
\<close>

definition is_pow2 :: "u32 \<Rightarrow> bool" where
  "is_pow2 c \<longleftrightarrow> c \<noteq> 0 \<and> c AND (c - 1) = 0"

lemma nat_pred_double_div: "0 < j \<Longrightarrow> (2 * j - Suc 0) div 2 = j - Suc 0" for j :: nat
  by (cases j) simp_all

lemma nat_and_pred_pow2: "0 < n \<Longrightarrow> n AND (n - 1) = 0 \<Longrightarrow> \<exists>k. n = 2 ^ k" for n :: nat
proof (induction n rule: less_induct)
  case (less n)
  show ?case
  proof (cases "even n")
    case True
    then obtain j where j: "n = 2 * j" by blast
    with less.prems have "0 < j" by simp
    have "n AND (n - 1) = 2 * (j AND (j - 1))"
      unfolding j using \<open>0 < j\<close> by (subst and_nat_rec) (simp add: nat_pred_double_div)
    with less.prems have "j AND (j - 1) = 0" by simp
    with less.IH [of j] \<open>0 < j\<close> j obtain k where "j = 2 ^ k" by auto
    with j have "n = 2 ^ Suc k" by simp
    then show ?thesis by blast
  next
    case False
    then obtain j where j: "n = Suc (2 * j)" by (auto elim: oddE)
    have "n AND (n - 1) = 2 * j"
      unfolding j by (subst and_nat_rec) simp
    with less.prems have "n = 2 ^ 0" using j by simp
    then show ?thesis by blast
  qed
qed

lemma u32_power_of_unat: "unat c = 2 ^ k \<Longrightarrow> c = 2 ^ k" for c :: u32
proof -
  assume "unat c = 2 ^ k"
  then have "of_nat (unat c) = (of_nat (2 ^ k) :: u32)" by (rule arg_cong)
  then show ?thesis by simp
qed

lemma is_pow2_iff: "is_pow2 c \<longleftrightarrow> (\<exists>k<32. unat c = 2 ^ k)"
proof
  assume *: "is_pow2 c"
  then have pos: "0 < unat c" by (simp add: is_pow2_def unat_gt_0)
  then have "unat (c - 1) = unat c - 1"
    by (metis is_pow2_def * unat_minus_one)
  moreover have "unat (c AND (c - 1)) = unat c AND unat (c - 1)"
    by (rule unsigned_and_eq)
  ultimately have "unat c AND (unat c - 1) = 0"
    using * by (simp add: is_pow2_def)
  with pos obtain k where k: "unat c = 2 ^ k"
    using nat_and_pred_pow2 by blast
  have "(2::nat) ^ k < 2 ^ 32" using unat_u32_lt [of c] k by simp
  then have "k < 32" by (simp only: power_strict_increasing_iff)
  with k show "\<exists>k<32. unat c = 2 ^ k" by blast
next
  assume "\<exists>k<32. unat c = 2 ^ k"
  then obtain k where k: "k < 32" "unat c = 2 ^ k" by blast
  then have c: "c = 2 ^ k" by (simp add: u32_power_of_unat)
  have "c \<noteq> 0" using k by auto
  moreover have "c AND (c - 1) = 0"
    unfolding c mask_eq_exp_minus_1 [symmetric] take_bit_eq_mask [symmetric]
    by (simp add: take_bit_eq_mod)
  ultimately show "is_pow2 c" by (simp add: is_pow2_def)
qed

lemma and_pred_pow2: "is_pow2 c \<Longrightarrow> unat (w AND (c - 1)) = unat w mod unat c"
proof -
  assume "is_pow2 c"
  then obtain k where k: "unat c = 2 ^ k" by (auto simp: is_pow2_iff)
  then have c: "c = 2 ^ k" by (simp add: u32_power_of_unat)
  have "w AND (c - 1) = take_bit k w"
    by (simp only: c take_bit_eq_mask mask_eq_exp_minus_1)
  then show ?thesis
    by (simp only: k unsigned_take_bit_eq) (simp add: take_bit_eq_mod)
qed

lemma pow2_dvd_2p32: "is_pow2 c \<Longrightarrow> unat c dvd 4294967296"
proof -
  assume "is_pow2 c"
  then obtain k where "k < 32" "unat c = 2 ^ k" by (auto simp: is_pow2_iff)
  moreover from this have "(2::nat) ^ k dvd 2 ^ 32" by (intro le_imp_power_dvd) simp
  ultimately show ?thesis by simp
qed

lemma pow2_pos: "is_pow2 c \<Longrightarrow> 0 < unat c"
  by (auto simp: is_pow2_def unat_gt_0)

lemma pow2_le_2p31: "is_pow2 c \<Longrightarrow> c \<le> 0x80000000"
proof -
  assume "is_pow2 c"
  then obtain k where "k < 32" "unat c = 2 ^ k" by (auto simp: is_pow2_iff)
  moreover from this have "(2::nat) ^ k \<le> 2 ^ 31" by (intro power_increasing) simp_all
  ultimately show ?thesis by (simp add: word_le_nat_alt)
qed

text \<open>
  A free-running 32-bit counter \<open>w\<close> advanced by \<open>i\<close> and masked is the array index
  \<open>(w + i) mod c\<close> of an unbounded counter: the wrap at \<open>2 ^ 32\<close> does not show, because
  \<open>c\<close> divides \<open>2 ^ 32\<close>.
\<close>

lemma masked_counter:
  "is_pow2 c \<Longrightarrow> unat ((w + i) AND (c - 1)) = (unat w + unat i) mod unat c"
  by (simp add: and_pred_pow2 unat_u32_add mod_mod_cancel pow2_dvd_2p32)

section \<open>Lists\<close>

lemma mod_inj_window_le:
  fixes t i j c :: nat
  assumes "(t + i) mod c = (t + j) mod c" and "i \<le> j" and "j < c"
  shows "i = j"
proof -
  have "c dvd (t + j) - (t + i)"
    using assms(1,2) mod_eq_dvd_iff_nat [of "t + i" "t + j" c] by simp
  then have "c dvd j - i" by simp
  moreover have "j - i < c" using assms(3) by (rule less_imp_diff_less)
  ultimately have "\<not> 0 < j - i"
    using nat_dvd_not_less [of "j - i" c] by blast
  then show ?thesis using assms(2) by simp
qed

lemma mod_inj_window:
  "(t + i) mod c = (t + j) mod c \<Longrightarrow> i < c \<Longrightarrow> j < c \<Longrightarrow> i = j" for t i j c :: nat
  using mod_inj_window_le [of t i c j] mod_inj_window_le [of t j c i] by (cases "i \<le> j") simp_all

lemma take_upt_min: "take m [0..<f] = [0..<min m f]"
  by (cases "m \<le> f") (simp_all add: min_def)

lemma tl_map_upt: "tl (map f [0..<Suc n]) = map (\<lambda>i. f (Suc i)) [0..<n]"
  by (simp add: upt_conv_Cons map_Suc_upt [symmetric] del: upt_Suc)

lemma nth_list_update_neq': "j \<noteq> i \<Longrightarrow> (xs[i := v]) ! j = xs ! j"
  by simp

lemma update_keeps: "f x = f (xs ! j) \<Longrightarrow> f (xs[j := x] ! i) = f (xs ! i)"
  by (cases "j = i"; cases "i < length xs") (auto simp: list_update_beyond)

lemma list_update_by_map:
  "(\<And>i. i < n \<Longrightarrow> f i \<noteq> k) \<Longrightarrow> map (\<lambda>i. (xs[k := v]) ! f i) [0..<n] = map (\<lambda>i. xs ! f i) [0..<n]"
  by (intro map_cong) (auto simp: nth_list_update_neq')

section \<open>Polling loops\<close>

text \<open>
  A loop that reads a register until a condition holds, over the successive answers of the
  hardware: the answers left after the one that ended it, or \<open>None\<close> if it is still polling
  when they run out.
\<close>

fun poll_until :: "('a \<Rightarrow> bool) \<Rightarrow> 'a list \<Rightarrow> 'a list option" where
  "poll_until P [] = None"
| "poll_until P (x # xs) = (if P x then Some xs else poll_until P xs)"

lemma poll_until_None: "poll_until P xs = None \<longleftrightarrow> (\<forall>x\<in>set xs. \<not> P x)"
  by (induction xs) auto

lemma poll_until_Some:
  "poll_until P xs = Some ys \<longleftrightarrow>
     (\<exists>pre x. xs = pre @ x # ys \<and> P x \<and> (\<forall>y\<in>set pre. \<not> P y))"
proof (induction xs)
  case Nil
  then show ?case by simp
next
  case (Cons a xs)
  show ?case
  proof (cases "P a")
    case True
    then show ?thesis by (auto simp: Cons_eq_append_conv)
  next
    case False
    then show ?thesis
      using Cons by (auto simp: Cons_eq_append_conv)
  qed
qed

section \<open>Counted loops\<close>

text \<open>A \<open>for\<close> loop over the given values of its variable; \<open>None\<close> as soon as one round is.\<close>

fun for_each :: "('a \<Rightarrow> 's \<Rightarrow> 's option) \<Rightarrow> 'a list \<Rightarrow> 's \<Rightarrow> 's option" where
  "for_each body [] s = Some s"
| "for_each body (x # xs) s = do { s \<leftarrow> body x s; for_each body xs s }"

lemma for_each_append:
  "for_each body (xs @ ys) s = do { s \<leftarrow> for_each body xs s; for_each body ys s }"
proof (induction xs arbitrary: s)
  case (Cons x xs)
  then show ?case by (cases "body x s") simp_all
qed simp

lemma for_each_total:
  "(\<And>x s. x \<in> set xs \<Longrightarrow> P s \<Longrightarrow> body x s = Some (f x s) \<and> P (f x s)) \<Longrightarrow> P s \<Longrightarrow>
     for_each body xs s = Some (fold f xs s) \<and> P (fold f xs s)"
proof (induction xs arbitrary: s)
  case (Cons x xs)
  have x: "body x s = Some (f x s) \<and> P (f x s)" using Cons.prems by simp
  have "for_each body xs (f x s) = Some (fold f xs (f x s)) \<and> P (fold f xs (f x s))"
    using Cons.prems(1) x by (intro Cons.IH) simp_all
  with x show ?case by simp
qed simp

section \<open>Reachable states\<close>

text \<open>
  What a state machine of the program has to provide for an invariant: it holds at the start and
  every step keeps it. What it gets is the invariant in every state it can reach.
\<close>

locale inductive_invariant =
  fixes start :: "'s \<Rightarrow> bool" and step :: "'s \<Rightarrow> 's \<Rightarrow> bool" and inv :: "'s \<Rightarrow> bool"
  assumes inv_start: "start s \<Longrightarrow> inv s"
    and inv_step: "inv s \<Longrightarrow> step s t \<Longrightarrow> inv t"
begin

lemma inv_reachable: "step\<^sup>*\<^sup>* s t \<Longrightarrow> start s \<Longrightarrow> inv t"
  by (induction rule: rtranclp_induct) (auto intro: inv_start inv_step)

end

end
