(* ===== verification/Sensor_Record.thy ===== *)
theory Sensor_Record
  imports Prelude
begin

text \<open>
  The data that travels from the producer to the consumer (\<open>datalog/sensor_record.h\<close>), the
  enumerations of sensors and buttons it is indexed by (\<open>drivers/xadc_drv.h\<close>,
  \<open>drivers/gpio_drv.h\<close>) and the application settings of \<open>config/app_config.h\<close> that the
  components use. The \<open>COUNT\<close> enumerator of an enumeration stands for every out-of-range
  value a caller may pass: the code compares with it by \<open>>=\<close>, and \<open>linorder\<close> on the
  enumeration is that comparison.
\<close>

section \<open>Sensors\<close>

datatype xadc_sensor_t =
    XADC_SENSOR_DIE_TEMP | XADC_SENSOR_VCCINT | XADC_SENSOR_VCCAUX | XADC_SENSOR_VCCBRAM
  | XADC_SENSOR_VCCPINT | XADC_SENSOR_VCCPAUX | XADC_SENSOR_VCCO_DDR | XADC_SENSOR_COUNT

fun xadc_sensor_index :: "xadc_sensor_t \<Rightarrow> nat" where
  "xadc_sensor_index XADC_SENSOR_DIE_TEMP = 0"
| "xadc_sensor_index XADC_SENSOR_VCCINT = 1"
| "xadc_sensor_index XADC_SENSOR_VCCAUX = 2"
| "xadc_sensor_index XADC_SENSOR_VCCBRAM = 3"
| "xadc_sensor_index XADC_SENSOR_VCCPINT = 4"
| "xadc_sensor_index XADC_SENSOR_VCCPAUX = 5"
| "xadc_sensor_index XADC_SENSOR_VCCO_DDR = 6"
| "xadc_sensor_index XADC_SENSOR_COUNT = 7"

lemma xadc_sensor_index_inj: "xadc_sensor_index a = xadc_sensor_index b \<Longrightarrow> a = b"
  by (cases a; cases b) simp_all

instantiation xadc_sensor_t :: linorder
begin

definition less_eq_xadc_sensor_t :: "xadc_sensor_t \<Rightarrow> xadc_sensor_t \<Rightarrow> bool" where
  "less_eq_xadc_sensor_t a b \<longleftrightarrow> xadc_sensor_index a \<le> xadc_sensor_index b"

definition less_xadc_sensor_t :: "xadc_sensor_t \<Rightarrow> xadc_sensor_t \<Rightarrow> bool" where
  "less_xadc_sensor_t a b \<longleftrightarrow> xadc_sensor_index a < xadc_sensor_index b"

instance
  by standard
    (auto simp: less_eq_xadc_sensor_t_def less_xadc_sensor_t_def intro: xadc_sensor_index_inj)

end

lemma xadc_sensor_below_count: "s < XADC_SENSOR_COUNT \<longleftrightarrow> s \<noteq> XADC_SENSOR_COUNT"
  by (cases s) (simp_all add: less_xadc_sensor_t_def)

text \<open>The loops over sensors count a \<open>uint32_t\<close> and cast it to the enumeration.\<close>

definition xadc_sensor_of :: "nat \<Rightarrow> xadc_sensor_t" where
  "xadc_sensor_of n =
     (if n = 0 then XADC_SENSOR_DIE_TEMP else if n = 1 then XADC_SENSOR_VCCINT
      else if n = 2 then XADC_SENSOR_VCCAUX else if n = 3 then XADC_SENSOR_VCCBRAM
      else if n = 4 then XADC_SENSOR_VCCPINT else if n = 5 then XADC_SENSOR_VCCPAUX
      else if n = 6 then XADC_SENSOR_VCCO_DDR else XADC_SENSOR_COUNT)"

definition xadc_sensor_count :: nat where
  "xadc_sensor_count = xadc_sensor_index XADC_SENSOR_COUNT"

lemma xadc_sensor_count_7 [simp]: "xadc_sensor_count = 7"
  by (simp add: xadc_sensor_count_def)

lemma xadc_sensor_of_index: "xadc_sensor_of (xadc_sensor_index s) = s"
  by (cases s) (simp_all add: xadc_sensor_of_def)

lemma xadc_sensor_index_of: "n \<le> 7 \<Longrightarrow> xadc_sensor_index (xadc_sensor_of n) = n"
  by (auto simp: xadc_sensor_of_def)

record xadc_sample_t =
  raw_code :: "u16 list"

section \<open>Buttons\<close>

datatype gpio_btn_id_t = GPIO_BTN4 | GPIO_BTN5 | GPIO_BTN_COUNT

fun gpio_btn_index :: "gpio_btn_id_t \<Rightarrow> nat" where
  "gpio_btn_index GPIO_BTN4 = 0"
| "gpio_btn_index GPIO_BTN5 = 1"
| "gpio_btn_index GPIO_BTN_COUNT = 2"

lemma gpio_btn_index_inj: "gpio_btn_index a = gpio_btn_index b \<Longrightarrow> a = b"
  by (cases a; cases b) simp_all

instantiation gpio_btn_id_t :: linorder
begin

definition less_eq_gpio_btn_id_t :: "gpio_btn_id_t \<Rightarrow> gpio_btn_id_t \<Rightarrow> bool" where
  "less_eq_gpio_btn_id_t a b \<longleftrightarrow> gpio_btn_index a \<le> gpio_btn_index b"

definition less_gpio_btn_id_t :: "gpio_btn_id_t \<Rightarrow> gpio_btn_id_t \<Rightarrow> bool" where
  "less_gpio_btn_id_t a b \<longleftrightarrow> gpio_btn_index a < gpio_btn_index b"

instance
  by standard
    (auto simp: less_eq_gpio_btn_id_t_def less_gpio_btn_id_t_def intro: gpio_btn_index_inj)

end

lemma gpio_btn_below_count: "b < GPIO_BTN_COUNT \<longleftrightarrow> b \<noteq> GPIO_BTN_COUNT"
  by (cases b) (simp_all add: less_gpio_btn_id_t_def)

section \<open>The record\<close>

record sensor_record_t =
  capture_us :: u64
  seq :: u32
  sensors :: xadc_sample_t
  buttons :: u8

definition SENSOR_BTN_BIT :: "gpio_btn_id_t \<Rightarrow> u32" where
  "SENSOR_BTN_BIT btn = push_bit (gpio_btn_index btn) 1"

text \<open>What startup code leaves in \<open>.bss\<close>.\<close>

definition zero_sample :: xadc_sample_t where
  "zero_sample = \<lparr>raw_code = replicate xadc_sensor_count 0\<rparr>"

definition zero_record :: sensor_record_t where
  "zero_record = \<lparr>capture_us = 0, seq = 0, sensors = zero_sample, buttons = 0\<rparr>"

section \<open>Application settings\<close>

definition APP_SAMPLE_RATE_HZ :: u32 where "APP_SAMPLE_RATE_HZ = 10"
definition APP_SAMPLE_TIMEOUT_MS :: u32 where
  "APP_SAMPLE_TIMEOUT_MS = (3 * 1000) div APP_SAMPLE_RATE_HZ"
definition APP_LOG_CAPACITY :: u32 where "APP_LOG_CAPACITY = 4096"
definition APP_LOG_WRITE_WAIT_MS :: u32 where "APP_LOG_WRITE_WAIT_MS = 20"
definition APP_LOG_READ_WAIT_MS :: u32 where "APP_LOG_READ_WAIT_MS = 100"
definition APP_LOG_READ_BATCH :: u32 where "APP_LOG_READ_BATCH = 16"
definition APP_LOG_DRAIN_BATCHES_MAX :: u32 where "APP_LOG_DRAIN_BATCHES_MAX = 4"
definition APP_CONSUMER_QUEUE_LEN :: u32 where "APP_CONSUMER_QUEUE_LEN = 16"
definition APP_CONSUMER_POLL_MS :: u32 where "APP_CONSUMER_POLL_MS = 250"
definition APP_HEARTBEAT_SAMPLES :: u32 where "APP_HEARTBEAT_SAMPLES = 5"
definition APP_SLOW_STREAM_DIVIDER :: u32 where "APP_SLOW_STREAM_DIVIDER = 10"
definition APP_STALL_WARN_MS :: u32 where "APP_STALL_WARN_MS = 1000"
definition APP_UI_SCAN_PERIOD_MS :: u32 where "APP_UI_SCAN_PERIOD_MS = 10"
definition APP_WDT_TIMEOUT_MS :: u32 where "APP_WDT_TIMEOUT_MS = 2000"
definition APP_WDT_CHECK_PERIOD_MS :: u32 where "APP_WDT_CHECK_PERIOD_MS = 250"
definition APP_WDT_LIMIT_PRODUCER_MS :: u32 where "APP_WDT_LIMIT_PRODUCER_MS = 500"
definition APP_WDT_LIMIT_UI_MS :: u32 where "APP_WDT_LIMIT_UI_MS = 500"
definition APP_WDT_LIMIT_CONSUMER_MS :: u32 where "APP_WDT_LIMIT_CONSUMER_MS = 2000"

text \<open>\<open>config/board_zybo.h\<close>: the DDR window and the MIO pins.\<close>

definition BOARD_DDR_BASE_ADDR :: u32 where "BOARD_DDR_BASE_ADDR = 0x00100000"
definition BOARD_DDR_HIGH_ADDR :: u32 where "BOARD_DDR_HIGH_ADDR = 0x3FFFFFFF"
definition BOARD_MIO_LED4 :: u32 where "BOARD_MIO_LED4 = 7"
definition BOARD_MIO_BTN4 :: u32 where "BOARD_MIO_BTN4 = 50"
definition BOARD_MIO_BTN5 :: u32 where "BOARD_MIO_BTN5 = 51"
definition BOARD_MIO_BTN_ACTIVE_HIGH :: u32 where "BOARD_MIO_BTN_ACTIVE_HIGH = 1"
definition BOARD_MIO_BTN_PULLUP :: u32 where "BOARD_MIO_BTN_PULLUP = 0"

lemmas app_config =
  APP_SAMPLE_RATE_HZ_def APP_SAMPLE_TIMEOUT_MS_def APP_LOG_CAPACITY_def APP_LOG_WRITE_WAIT_MS_def
  APP_LOG_READ_WAIT_MS_def APP_LOG_READ_BATCH_def APP_LOG_DRAIN_BATCHES_MAX_def
  APP_CONSUMER_QUEUE_LEN_def APP_CONSUMER_POLL_MS_def APP_HEARTBEAT_SAMPLES_def
  APP_SLOW_STREAM_DIVIDER_def APP_STALL_WARN_MS_def APP_UI_SCAN_PERIOD_MS_def
  APP_WDT_TIMEOUT_MS_def APP_WDT_CHECK_PERIOD_MS_def APP_WDT_LIMIT_PRODUCER_MS_def
  APP_WDT_LIMIT_UI_MS_def APP_WDT_LIMIT_CONSUMER_MS_def

end
