(* ===== verification/Fifo.thy ===== *)
theory Fifo
  imports Prelude
begin

text \<open>
  The contract between the sensor log and its ring buffer: a bounded FIFO that gives up its
  oldest entry when it is full (\<open>datalog/ring_buffer.h\<close>). \<open>ref_push\<close> and \<open>ref_pop\<close> are the
  reference on lists, the naive shift-array model the host test compares the ring buffer with.
  The locale \<open>overwriting_fifo\<close> states what an implementation promises, and its lemmas lift
  the promise from one operation to every sequence of operations: the outputs are those of the
  reference, nothing is invented, reordered or lost unless it is reported as dropped.
\<close>

section \<open>The reference on lists\<close>

definition ref_push :: "nat \<Rightarrow> 'a \<Rightarrow> 'a list \<Rightarrow> bool \<times> 'a list" where
  "ref_push cap x xs = (if length xs = cap then (True, tl xs @ [x]) else (False, xs @ [x]))"

definition ref_pop :: "u32 \<Rightarrow> 'a list \<Rightarrow> 'a list \<times> 'a list" where
  "ref_pop n xs = (take (unat n) xs, drop (unat n) xs)"

section \<open>Sequences of operations\<close>

datatype 'a fifo_op = Push 'a | Pop u32

datatype 'a fifo_out = Pushed bool | Popped "'a list"

fun fifo_run ::
  "('a \<Rightarrow> 's \<Rightarrow> bool \<times> 's) \<Rightarrow> (u32 \<Rightarrow> 's \<Rightarrow> 'a list \<times> 's) \<Rightarrow> 'a fifo_op list \<Rightarrow> 's
     \<Rightarrow> 'a fifo_out list \<times> 's" where
  "fifo_run psh pp [] s = ([], s)"
| "fifo_run psh pp (Push x # ops) s =
     (let (b, s) = psh x s; (outs, s) = fifo_run psh pp ops s in (Pushed b # outs, s))"
| "fifo_run psh pp (Pop n # ops) s =
     (let (xs, s) = pp n s; (outs, s) = fifo_run psh pp ops s in (Popped xs # outs, s))"

fun pushed_of :: "'a fifo_op list \<Rightarrow> 'a list" where
  "pushed_of [] = []"
| "pushed_of (Push x # ops) = x # pushed_of ops"
| "pushed_of (Pop n # ops) = pushed_of ops"

fun popped_of :: "'a fifo_out list \<Rightarrow> 'a list" where
  "popped_of [] = []"
| "popped_of (Pushed b # outs) = popped_of outs"
| "popped_of (Popped xs # outs) = xs @ popped_of outs"

fun drops_of :: "'a fifo_out list \<Rightarrow> nat" where
  "drops_of [] = 0"
| "drops_of (Pushed b # outs) = (if b then 1 else 0) + drops_of outs"
| "drops_of (Popped xs # outs) = drops_of outs"

text \<open>The fill levels the reference goes through, one per operation.\<close>

fun ref_fills :: "nat \<Rightarrow> 'a fifo_op list \<Rightarrow> 'a list \<Rightarrow> nat list" where
  "ref_fills c [] xs = []"
| "ref_fills c (Push x # ops) xs =
     (let ys = snd (ref_push c x xs) in length ys # ref_fills c ops ys)"
| "ref_fills c (Pop n # ops) xs =
     (let ys = snd (ref_pop n xs) in length ys # ref_fills c ops ys)"

section \<open>The contract\<close>

locale overwriting_fifo =
  fixes inv :: "'s \<Rightarrow> bool"
    and cap :: "'s \<Rightarrow> nat"
    and contents :: "'s \<Rightarrow> 'a list"
    and newest :: "'s \<Rightarrow> 'a option"
    and psh :: "'a \<Rightarrow> 's \<Rightarrow> bool \<times> 's"
    and pp :: "u32 \<Rightarrow> 's \<Rightarrow> 'a list \<times> 's"
  assumes cap_pos: "inv s \<Longrightarrow> 0 < cap s"
    and bounded: "inv s \<Longrightarrow> length (contents s) \<le> cap s"
    and push_inv: "inv s \<Longrightarrow> inv (snd (psh x s))"
    and push_cap: "inv s \<Longrightarrow> cap (snd (psh x s)) = cap s"
    and push_ref: "inv s \<Longrightarrow>
          (fst (psh x s), contents (snd (psh x s))) = ref_push (cap s) x (contents s)"
    and push_newest: "inv s \<Longrightarrow> newest (snd (psh x s)) = Some x"
    and pop_inv: "inv s \<Longrightarrow> inv (snd (pp n s))"
    and pop_cap: "inv s \<Longrightarrow> cap (snd (pp n s)) = cap s"
    and pop_ref: "inv s \<Longrightarrow> (fst (pp n s), contents (snd (pp n s))) = ref_pop n (contents s)"
    and pop_newest: "inv s \<Longrightarrow> newest (snd (pp n s)) = newest s"
begin

lemma run_inv: "inv s \<Longrightarrow> inv (snd (fifo_run psh pp ops s))"
proof (induction ops arbitrary: s)
  case Nil
  then show ?case by simp
next
  case (Cons opn ops)
  then show ?case
    by (cases opn) (simp_all add: split_def Let_def push_inv pop_inv)
qed

lemma run_ref:
  "inv s \<Longrightarrow> (fst (fifo_run psh pp ops s), contents (snd (fifo_run psh pp ops s)))
             = fifo_run (ref_push (cap s)) ref_pop ops (contents s)"
proof (induction ops arbitrary: s)
  case Nil
  then show ?case by simp
next
  case (Cons opn ops)
  show ?case
  proof (cases opn)
    case (Push x)
    note IH = Cons.IH [OF push_inv [OF Cons.prems, of x]]
    show ?thesis
      using IH push_ref [OF Cons.prems, of x, symmetric] Push
      by (auto simp: split_def Let_def push_cap [OF Cons.prems] prod_eq_iff)
  next
    case (Pop n)
    note IH = Cons.IH [OF pop_inv [OF Cons.prems, of n]]
    show ?thesis
      using IH pop_ref [OF Cons.prems, of n, symmetric] Pop
      by (auto simp: split_def Let_def pop_cap [OF Cons.prems] prod_eq_iff)
  qed
qed

lemma run_newest:
  "inv s \<Longrightarrow> newest (snd (fifo_run psh pp ops s))
     = (if pushed_of ops = [] then newest s else Some (last (pushed_of ops)))"
proof (induction ops arbitrary: s)
  case Nil
  then show ?case by simp
next
  case (Cons opn ops)
  then show ?case
    by (cases opn)
      (auto simp: split_def Let_def push_inv pop_inv push_newest pop_newest)
qed

end

section \<open>What the reference loses and keeps\<close>

lemma ref_run_count:
  "length xs \<le> c \<Longrightarrow> 0 < c \<Longrightarrow> fifo_run (ref_push c) ref_pop ops xs = (outs, ys) \<Longrightarrow>
     length ys \<le> c \<and>
     length xs + length (pushed_of ops) = length (popped_of outs) + drops_of outs + length ys"
proof (induction ops arbitrary: xs outs)
  case Nil
  then show ?case by auto
next
  case (Cons opn ops)
  show ?case
  proof (cases opn)
    case (Push x)
    let ?p = "ref_push c x xs"
    obtain outs' where run: "fifo_run (ref_push c) ref_pop ops (snd ?p) = (outs', ys)"
      and outs: "outs = Pushed (fst ?p) # outs'"
      using Cons.prems(3) Push by (auto simp: split_def Let_def prod_eq_iff)
    have len: "length (snd ?p) \<le> c"
      "Suc (length xs) = length (snd ?p) + (if fst ?p then 1 else 0)"
      using Cons.prems(1,2) by (auto simp: ref_push_def)
    from Cons.IH [OF len(1) Cons.prems(2) run] len(2) show ?thesis
      by (auto simp: Push outs)
  next
    case (Pop n)
    let ?p = "ref_pop n xs"
    obtain outs' where run: "fifo_run (ref_push c) ref_pop ops (snd ?p) = (outs', ys)"
      and outs: "outs = Popped (fst ?p) # outs'"
      using Cons.prems(3) Pop by (auto simp: split_def Let_def prod_eq_iff)
    have len: "length (snd ?p) \<le> c" "length xs = length (fst ?p) + length (snd ?p)"
      using Cons.prems(1) by (auto simp: ref_pop_def)
    from Cons.IH [OF len(1) Cons.prems(2) run] len(2) show ?thesis
      by (auto simp: Pop outs)
  qed
qed

lemma subseq_tl: "subseq (tl xs) xs"
  by (cases xs) auto

lemma ref_run_order:
  "fifo_run (ref_push c) ref_pop ops xs = (outs, ys) \<Longrightarrow>
     subseq (popped_of outs @ ys) (xs @ pushed_of ops)"
proof (induction ops arbitrary: xs outs)
  case Nil
  then show ?case by auto
next
  case (Cons opn ops)
  show ?case
  proof (cases opn)
    case (Push x)
    let ?p = "ref_push c x xs"
    obtain outs' where run: "fifo_run (ref_push c) ref_pop ops (snd ?p) = (outs', ys)"
      and outs: "outs = Pushed (fst ?p) # outs'"
      using Cons.prems Push by (auto simp: split_def Let_def prod_eq_iff)
    have "subseq (snd ?p @ pushed_of ops) (xs @ x # pushed_of ops)"
      by (auto simp: ref_push_def intro: list_emb_append_mono subseq_tl)
    with Cons.IH [OF run] show ?thesis
      by (auto simp: Push outs intro: subseq_order.order_trans)
  next
    case (Pop n)
    let ?p = "ref_pop n xs"
    obtain outs' where run: "fifo_run (ref_push c) ref_pop ops (snd ?p) = (outs', ys)"
      and outs: "outs = Popped (fst ?p) # outs'"
      using Cons.prems Pop by (auto simp: split_def Let_def prod_eq_iff)
    have "xs = fst ?p @ snd ?p" by (simp add: ref_pop_def)
    with Cons.IH [OF run] show ?thesis
      by (simp add: Pop outs) (metis append.assoc subseq_append')
  qed
qed

context overwriting_fifo
begin

lemma run_conserves:
  assumes "inv s" and "fifo_run psh pp ops s = (outs, s')"
  shows "length (contents s) + length (pushed_of ops)
           = length (popped_of outs) + drops_of outs + length (contents s')"
    and "subseq (popped_of outs @ contents s') (contents s @ pushed_of ops)"
proof -
  have run: "fifo_run (ref_push (cap s)) ref_pop ops (contents s) = (outs, contents s')"
    using run_ref [OF assms(1), of ops] assms(2) by simp
  show "length (contents s) + length (pushed_of ops)
          = length (popped_of outs) + drops_of outs + length (contents s')"
    using ref_run_count [OF bounded [OF assms(1)] cap_pos [OF assms(1)] run] by simp
  show "subseq (popped_of outs @ contents s') (contents s @ pushed_of ops)"
    using ref_run_order [OF run] .
qed

end

end
