(* ===== verification/Ring_Buffer.thy ===== *)
theory Ring_Buffer
  imports Sensor_Record Fifo
begin

text \<open>
  \<open>datalog/ring_buffer.c\<close>: the overwrite-oldest FIFO of sensor records.

  The state is the struct; \<open>storage\<close> is the array the pointer leads to. \<open>ring_wf\<close> is the
  invariant of an initialised buffer and \<open>ring_contents\<close> the list of records it holds, oldest
  first. Every operation preserves the invariant, never leaves its arrays, and does on
  \<open>ring_contents\<close> what the reference FIFO of theory \<open>Fifo\<close> does, wherever the free-running
  counters stand relative to their wrap at \<open>2 ^ 32\<close>.
\<close>

section \<open>The code\<close>

record ring_buffer_t =
  storage :: "sensor_record_t list option"
  capacity :: u32
  index_mask :: u32
  head :: u32
  tail :: u32
  overwritten :: u32
  fill_high_water :: u32
  has_newest :: bool

definition RING_CAPACITY_MAX :: u32 where
  "RING_CAPACITY_MAX = 0x80000000"

definition ring_buffer_init ::
  "ring_buffer_t option \<Rightarrow> sensor_record_t list option \<Rightarrow> u32 \<Rightarrow> bool \<times> ring_buffer_t option" where
  "ring_buffer_init rb st cap =
     (case rb of None \<Rightarrow> (False, rb)
      | Some r \<Rightarrow>
          if st = None then (False, rb)
          else if cap = 0 \<or> cap AND (cap - 1) \<noteq> 0 \<or> cap > RING_CAPACITY_MAX then (False, rb)
          else (True, Some (r\<lparr>storage := st, capacity := cap, index_mask := cap - 1,
                              head := 0, tail := 0, overwritten := 0,
                              fill_high_water := 0, has_newest := False\<rparr>)))"

definition ring_buffer_count :: "ring_buffer_t option \<Rightarrow> u32" where
  "ring_buffer_count rb = (case rb of Some r \<Rightarrow> head r - tail r | None \<Rightarrow> 0)"

definition ring_buffer_push ::
  "ring_buffer_t option \<Rightarrow> sensor_record_t option \<Rightarrow> (bool \<times> ring_buffer_t option) option" where
  "ring_buffer_push rb record =
     (case (rb, record) of
        (Some r, Some rec) \<Rightarrow>
          (case storage r of
             None \<Rightarrow> Some (False, rb)
           | Some st \<Rightarrow> do {
               let dropped_oldest = (ring_buffer_count rb = capacity r);
               let r = (if dropped_oldest
                        then r\<lparr>tail := tail r + 1, overwritten := overwritten r + 1\<rparr> else r);
               st \<leftarrow> arr_set st (unat (head r AND index_mask r)) rec;
               let r = r\<lparr>storage := Some st\<rparr>;
               let r = r\<lparr>head := head r + 1\<rparr>;
               let r = r\<lparr>has_newest := True\<rparr>;
               let fill = ring_buffer_count (Some r);
               let r = (if fill > fill_high_water r then r\<lparr>fill_high_water := fill\<rparr> else r);
               Some (dropped_oldest, Some r)
             })
      | _ \<Rightarrow> Some (False, rb))"

text \<open>The copy loop of \<open>ring_buffer_pop\<close>, from index \<open>idx\<close> on.\<close>

function pop_copy ::
  "sensor_record_t list \<Rightarrow> u32 \<Rightarrow> u32 \<Rightarrow> u32 \<Rightarrow> u32 \<Rightarrow> sensor_record_t list
     \<Rightarrow> sensor_record_t list option" where
  "pop_copy st tail0 imask n idx out =
     (if idx < n
      then do {
        rec \<leftarrow> arr_get st (unat ((tail0 + idx) AND imask));
        out \<leftarrow> arr_set out (unat idx) rec;
        pop_copy st tail0 imask n (idx + 1) out
      }
      else Some out)"
  by pat_completeness auto
termination
proof (relation "measure (\<lambda>(st, tail0, imask, n, idx, out). unat n - unat idx)", goal_cases)
  case 1
  show ?case by simp
next
  case (2 st tail0 imask n idx out rec out')
  then show ?case by (simp add: unat_inc_below word_less_nat_alt diff_less_mono2)
qed

declare pop_copy.simps [simp del]

definition ring_buffer_pop ::
  "ring_buffer_t option \<Rightarrow> sensor_record_t list option \<Rightarrow> u32
     \<Rightarrow> (u32 \<times> ring_buffer_t option \<times> sensor_record_t list option) option" where
  "ring_buffer_pop rb records_out max_records =
     (case (rb, records_out) of
        (Some r, Some out) \<Rightarrow>
          (case storage r of
             None \<Rightarrow> Some (0, rb, records_out)
           | Some st \<Rightarrow> do {
               let pop_count = ring_buffer_count rb;
               let pop_count = (if pop_count > max_records then max_records else pop_count);
               out \<leftarrow> pop_copy st (tail r) (index_mask r) pop_count 0 out;
               Some (pop_count, Some (r\<lparr>tail := tail r + pop_count\<rparr>), Some out)
             })
      | _ \<Rightarrow> Some (0, rb, records_out))"

definition ring_buffer_peek_newest ::
  "ring_buffer_t option \<Rightarrow> sensor_record_t option \<Rightarrow> (bool \<times> sensor_record_t option) option" where
  "ring_buffer_peek_newest rb record_out =
     (case (rb, record_out) of
        (Some r, Some _) \<Rightarrow>
          (case storage r of
             None \<Rightarrow> Some (False, record_out)
           | Some st \<Rightarrow>
               if \<not> has_newest r then Some (False, record_out)
               else do {
                 rec \<leftarrow> arr_get st (unat ((head r - 1) AND index_mask r));
                 Some (True, Some rec)
               })
      | _ \<Rightarrow> Some (False, record_out))"

section \<open>The invariant and the abstract view\<close>

definition ring_storage :: "ring_buffer_t \<Rightarrow> sensor_record_t list" where
  "ring_storage r = (case storage r of Some st \<Rightarrow> st | None \<Rightarrow> [])"

definition ring_fill :: "ring_buffer_t \<Rightarrow> nat" where
  "ring_fill r = unat (head r - tail r)"

definition ring_wf :: "ring_buffer_t \<Rightarrow> bool" where
  "ring_wf r \<longleftrightarrow>
     is_pow2 (capacity r) \<and> index_mask r = capacity r - 1 \<and>
     storage r \<noteq> None \<and> unat (capacity r) \<le> length (ring_storage r) \<and>
     ring_fill r \<le> unat (fill_high_water r) \<and> fill_high_water r \<le> capacity r \<and>
     (\<not> has_newest r \<longrightarrow> head r = 0 \<and> tail r = 0)"

definition ring_slot :: "ring_buffer_t \<Rightarrow> nat \<Rightarrow> nat" where
  "ring_slot r i = (unat (tail r) + i) mod unat (capacity r)"

definition ring_contents :: "ring_buffer_t \<Rightarrow> sensor_record_t list" where
  "ring_contents r = map (\<lambda>i. ring_storage r ! ring_slot r i) [0..<ring_fill r]"

definition ring_newest :: "ring_buffer_t \<Rightarrow> sensor_record_t option" where
  "ring_newest r =
     (if has_newest r
      then Some (ring_storage r ! (unat (head r - 1) mod unat (capacity r))) else None)"

lemma ring_wfD:
  assumes "ring_wf r"
  shows "is_pow2 (capacity r)" and "index_mask r = capacity r - 1"
    and "storage r = Some (ring_storage r)" and "unat (capacity r) \<le> length (ring_storage r)"
    and "ring_fill r \<le> unat (fill_high_water r)" and "fill_high_water r \<le> capacity r"
    and "0 < unat (capacity r)" and "ring_fill r \<le> unat (capacity r)"
    and "unat (capacity r) \<le> 2147483648"
proof -
  show "is_pow2 (capacity r)" and "index_mask r = capacity r - 1"
    and "storage r = Some (ring_storage r)" and "unat (capacity r) \<le> length (ring_storage r)"
    and hw: "ring_fill r \<le> unat (fill_high_water r)" and le: "fill_high_water r \<le> capacity r"
    using assms by (auto simp: ring_wf_def ring_storage_def)
  then show "0 < unat (capacity r)" using pow2_pos by blast
  show "ring_fill r \<le> unat (capacity r)"
    using hw le by (meson word_le_nat_alt le_trans)
  show "unat (capacity r) \<le> 2147483648"
    using pow2_le_2p31 [OF \<open>is_pow2 (capacity r)\<close>] by (simp add: word_le_nat_alt)
qed

lemma length_ring_contents [simp]: "length (ring_contents r) = ring_fill r"
  by (simp add: ring_contents_def)

lemma ring_slot_less: "ring_wf r \<Longrightarrow> ring_slot r i < unat (capacity r)"
  by (simp add: ring_slot_def ring_wfD)

lemma ring_slot_in: "ring_wf r \<Longrightarrow> ring_slot r i < length (ring_storage r)"
  using ring_slot_less [of r i] ring_wfD(4) [of r] by simp

lemma ring_index:
  "ring_wf r \<Longrightarrow> unat ((w + i) AND index_mask r) = (unat w + unat i) mod unat (capacity r)"
  using masked_counter [of "capacity r" w i] by (simp add: ring_wfD)

lemma ring_index0:
  "ring_wf r \<Longrightarrow> unat (w AND index_mask r) = unat w mod unat (capacity r)"
  using ring_index [of r w 0] by simp

lemma ring_full_iff: "head r - tail r = capacity r \<longleftrightarrow> ring_fill r = unat (capacity r)"
  by (simp add: ring_fill_def word_unat_eq_iff)

text \<open>The slot \<open>head\<close> points at is \<open>ring_slot\<close> at the fill level.\<close>

lemma head_slot:
  assumes "ring_wf r"
  shows "unat (head r) mod unat (capacity r) = ring_slot r (ring_fill r)"
proof -
  have "head r = tail r + (head r - tail r)" by simp
  then have "unat (head r) = (unat (tail r) + ring_fill r) mod 4294967296"
    by (metis unat_u32_add ring_fill_def)
  then show ?thesis
    by (simp add: ring_slot_def mod_mod_cancel pow2_dvd_2p32 ring_wfD(1) [OF assms])
qed

section \<open>Initialisation\<close>

lemma ring_buffer_init_ok:
  assumes "is_pow2 cap" and "unat cap \<le> length st"
  shows "\<exists>r'. ring_buffer_init (Some r) (Some st) cap = (True, Some r') \<and> ring_wf r' \<and>
           ring_contents r' = [] \<and> ring_newest r' = None \<and> capacity r' = cap"
proof -
  have "\<not> cap > RING_CAPACITY_MAX"
    using pow2_le_2p31 [OF assms(1)] by (simp add: RING_CAPACITY_MAX_def)
  then show ?thesis
    using assms
    by (simp add: ring_buffer_init_def is_pow2_def ring_wf_def ring_storage_def ring_fill_def
        ring_contents_def ring_newest_def)
qed

lemma ring_buffer_init_fails:
  "\<not> is_pow2 cap \<Longrightarrow> ring_buffer_init (Some r) (Some st) cap = (False, Some r)"
  by (auto simp: ring_buffer_init_def is_pow2_def)

section \<open>Push\<close>

text \<open>One push of an initialised buffer, with its memory access discharged.\<close>

definition push_next :: "sensor_record_t \<Rightarrow> ring_buffer_t \<Rightarrow> ring_buffer_t" where
  "push_next rec r =
     (let full = (ring_fill r = unat (capacity r)); t = (if full then tail r + 1 else tail r);
          fill = head r + 1 - t
      in r\<lparr>storage := Some ((ring_storage r)[ring_slot r (ring_fill r) := rec]),
           head := head r + 1, tail := t,
           overwritten := (if full then overwritten r + 1 else overwritten r),
           fill_high_water := max (fill_high_water r) fill, has_newest := True\<rparr>)"

lemma ring_buffer_push_eq:
  assumes "ring_wf r"
  shows "ring_buffer_push (Some r) (Some rec)
           = Some (ring_fill r = unat (capacity r), Some (push_next rec r))"
proof -
  show ?thesis
    using ring_slot_in [OF assms, of "ring_fill r"] ring_wfD(3) [OF assms] ring_index0 [OF assms, of "head r"] head_slot [OF assms]
    by (simp add: ring_buffer_push_def ring_full_iff push_next_def Let_def max_def
        ring_buffer_count_def not_less)
qed

lemma push_next_fill:
  assumes "ring_wf r"
  shows "ring_fill (push_next rec r)
           = (if ring_fill r = unat (capacity r) then ring_fill r else Suc (ring_fill r))"
proof -
  have *: "ring_fill r < 4294967295"
    using ring_wfD(8,9) [OF assms] by linarith
  have "head r + 1 - tail r = (head r - tail r) + 1" by simp
  with * have "unat (head r + 1 - tail r) = Suc (ring_fill r)"
    by (simp only: unat_u32_add) (simp add: ring_fill_def)
  then show ?thesis
    by (simp add: push_next_def Let_def ring_fill_def)
qed

lemma push_next_capacity [simp]: "capacity (push_next rec r) = capacity r"
  by (simp add: push_next_def Let_def)

lemma push_next_high_water:
  "unat (fill_high_water (push_next rec r))
     = max (unat (fill_high_water r)) (ring_fill (push_next rec r))"
  by (simp add: push_next_def Let_def ring_fill_def max_def word_le_nat_alt)

lemma push_next_wf [wf_intros]:
  assumes "ring_wf r"
  shows "ring_wf (push_next rec r)"
proof -
  have "ring_fill (push_next rec r) \<le> unat (capacity r)"
    using push_next_fill [OF assms] ring_wfD(8) [OF assms] by auto
  moreover have "unat (fill_high_water r) \<le> unat (capacity r)"
    using ring_wfD(6) [OF assms] by (simp add: word_le_nat_alt)
  ultimately have "fill_high_water (push_next rec r) \<le> capacity r"
    by (simp add: word_le_nat_alt push_next_high_water)
  moreover have "ring_fill (push_next rec r) \<le> unat (fill_high_water (push_next rec r))"
    by (simp add: push_next_high_water)
  ultimately show ?thesis
    using ring_wfD(1,2,4) [OF assms] unfolding ring_wf_def
    by (simp add: push_next_def Let_def ring_storage_def)
qed

lemma ring_slot_shift:
  assumes "ring_wf r"
  shows "ring_slot (r\<lparr>tail := tail r + n\<rparr>) i = ring_slot r (unat n + i)"
proof -
  have "unat (tail r + n) mod unat (capacity r) = (unat (tail r) + unat n) mod unat (capacity r)"
    by (simp add: unat_u32_add mod_mod_cancel pow2_dvd_2p32 ring_wfD(1) [OF assms])
  then have "(unat (tail r + n) + i) mod unat (capacity r)
      = (unat (tail r) + unat n + i) mod unat (capacity r)"
    by (rule mod_add_cong) (rule refl)
  then show ?thesis by (simp add: ring_slot_def add.assoc)
qed

lemma ring_slot_neq:
  assumes "i < j" and "j < i + unat (capacity r)"
  shows "ring_slot r i \<noteq> ring_slot r j"
proof
  assume "ring_slot r i = ring_slot r j"
  moreover have "j - i < unat (capacity r)" and "0 < unat (capacity r)" using assms by linarith+
  moreover have "unat (tail r) + i + (j - i) = unat (tail r) + j" using assms(1) by simp
  ultimately have "0 = j - i"
    using mod_inj_window [of "unat (tail r) + i" 0 "unat (capacity r)" "j - i"]
    by (simp add: ring_slot_def)
  with assms(1) show False by simp
qed

lemma push_next_contents [abs_simps]:
  assumes "ring_wf r"
  shows "ring_contents (push_next rec r)
           = (if ring_fill r = unat (capacity r) then tl (ring_contents r) else ring_contents r) @ [rec]"
proof -
  let ?f = "ring_fill r" and ?c = "unat (capacity r)" and ?st = "ring_storage r"
  let ?st' = "?st[ring_slot r ?f := rec]"
  have st': "ring_storage (push_next rec r) = ?st'"
    by (simp add: push_next_def Let_def ring_storage_def)
  have new: "?st' ! ring_slot r ?f = rec"
    using ring_slot_in [OF assms] by simp
  show ?thesis
  proof (cases "?f = ?c")
    case False
    then have "?f < ?c" using ring_wfD(8) [OF assms] by simp
    then have "\<And>i. i < ?f \<Longrightarrow> ring_slot r i \<noteq> ring_slot r ?f"
      by (intro ring_slot_neq) simp_all
    then have "map (\<lambda>i. ?st' ! ring_slot r i) [0..<?f] = ring_contents r"
      by (simp add: ring_contents_def list_update_by_map)
    moreover have "ring_slot (push_next rec r) = ring_slot r"
      using False by (simp add: push_next_def Let_def ring_slot_def fun_eq_iff)
    ultimately show ?thesis
      using False new push_next_fill [OF assms, of rec]
      by (simp add: ring_contents_def [of "push_next rec r"] st')
  next
    case True
    obtain n where n: "?c = Suc n" using ring_wfD(7) [OF assms] by (cases ?c) auto
    have slot: "ring_slot (push_next rec r) i = ring_slot r (Suc i)" for i
      using ring_slot_shift [OF assms, of 1 i] True
      by (simp add: push_next_def Let_def ring_slot_def)
    have "\<And>i. i < n \<Longrightarrow> ring_slot r (Suc i) \<noteq> ring_slot r ?f"
      using True n by (intro ring_slot_neq) simp_all
    then have "map (\<lambda>i. ?st' ! ring_slot r (Suc i)) [0..<n] = map (\<lambda>i. ?st ! ring_slot r (Suc i)) [0..<n]"
      by (rule list_update_by_map)
    moreover have "tl (ring_contents r) = map (\<lambda>i. ?st ! ring_slot r (Suc i)) [0..<n]"
      unfolding ring_contents_def True n by (rule tl_map_upt)
    ultimately show ?thesis
      using True new n push_next_fill [OF assms, of rec]
      by (simp add: ring_contents_def [of "push_next rec r"] st' slot)
  qed
qed

lemma push_next_newest [abs_simps]:
  assumes "ring_wf r"
  shows "ring_newest (push_next rec r) = Some rec"
proof -
  have "(ring_storage r)[ring_slot r (ring_fill r) := rec] ! ring_slot r (ring_fill r) = rec"
    using ring_slot_in [OF assms] by simp
  then show ?thesis
    by (simp add: ring_newest_def push_next_def Let_def ring_storage_def head_slot [OF assms])
qed

section \<open>Pop\<close>

text \<open>The copy loop, started at \<open>idx\<close>, fills the out array from \<open>idx\<close> on.\<close>

lemma pop_copy_eq:
  assumes "\<And>i. i < n \<Longrightarrow> unat ((t + i) AND m) < length st" and "unat n \<le> length out" and "idx \<le> n"
  shows "pop_copy st t m n idx out
           = Some (take (unat idx) out
                   @ map (\<lambda>i. st ! unat ((t + of_nat i) AND m)) [unat idx..<unat n]
                   @ drop (unat n) out)"
  using assms
proof (induction st t m n idx out rule: pop_copy.induct)
  case (1 st t m n idx out)
  show ?case
  proof (cases "idx < n")
    case True
    let ?v = "st ! unat ((t + idx) AND m)"
    have len: "unat idx < length out"
      using True "1.prems"(2) by (simp add: word_less_nat_alt)
    have in_st: "unat ((t + idx) AND m) < length st" using "1.prems"(1) True .
    have next_idx: "unat (idx + 1) = Suc (unat idx)" using True by (rule unat_inc_below)
    have le: "idx + 1 \<le> n"
      using True by (simp add: word_le_nat_alt next_idx word_less_nat_alt)
    have "pop_copy st t m n idx out = pop_copy st t m n (idx + 1) (out[unat idx := ?v])"
      using True len in_st by (subst pop_copy.simps) simp
    also have "\<dots> = Some (take (Suc (unat idx)) (out[unat idx := ?v])
        @ map (\<lambda>i. st ! unat ((t + of_nat i) AND m)) [Suc (unat idx)..<unat n]
        @ drop (unat n) (out[unat idx := ?v]))"
      using "1.IH" [OF True, of ?v "out[unat idx := ?v]"] in_st len le "1.prems"
      by (simp add: next_idx)
    also have "take (Suc (unat idx)) (out[unat idx := ?v]) = take (unat idx) out @ [?v]"
      using len by (simp add: take_Suc_conv_app_nth)
    also have "drop (unat n) (out[unat idx := ?v]) = drop (unat n) out"
      using True by (simp add: word_less_nat_alt)
    finally show ?thesis
      using True by (simp add: upt_conv_Cons word_less_nat_alt)
  next
    case False
    with "1.prems"(3) have "idx = n" by simp
    with False show ?thesis by (subst pop_copy.simps) simp
  qed
qed

definition pop_next :: "u32 \<Rightarrow> ring_buffer_t \<Rightarrow> ring_buffer_t" where
  "pop_next n r = r\<lparr>tail := tail r + min n (head r - tail r)\<rparr>"

lemma unat_pop_count: "unat (min n (head r - tail r)) = min (unat n) (ring_fill r)"
  by (simp add: min_def ring_fill_def word_le_nat_alt)

lemma ring_buffer_pop_eq:
  assumes "ring_wf r" and "min (unat n) (ring_fill r) \<le> length out"
  shows "ring_buffer_pop (Some r) (Some out) n
           = Some (min n (head r - tail r), Some (pop_next n r),
                   Some (take (unat n) (ring_contents r) @ drop (min (unat n) (ring_fill r)) out))"
proof -
  let ?k = "min n (head r - tail r)" and ?st = "ring_storage r"
  have k: "unat ?k = min (unat n) (ring_fill r)" by (rule unat_pop_count)
  have cnt: "(if ring_buffer_count (Some r) > n then n else ring_buffer_count (Some r)) = ?k"
    by (auto simp: ring_buffer_count_def min_def not_less)
  have idx: "unat ((tail r + i) AND index_mask r) = ring_slot r (unat i)" for i
    using ring_index [OF assms(1)] by (simp add: ring_slot_def)
  have copy: "pop_copy ?st (tail r) (index_mask r) ?k 0 out
      = Some (map (\<lambda>i. ?st ! ring_slot r (unat (of_nat i :: u32))) [0..<unat ?k]
              @ drop (unat ?k) out)"
    using pop_copy_eq [of ?k "tail r" "index_mask r" ?st out 0] assms(2)
    by (simp add: idx ring_slot_in [OF assms(1)] k)
  have "map (\<lambda>i. ?st ! ring_slot r (unat (of_nat i :: u32))) [0..<unat ?k]
      = map (\<lambda>i. ?st ! ring_slot r i) [0..<unat ?k]"
  proof (rule map_cong [OF refl])
    fix i assume "i \<in> set [0..<unat ?k]"
    then have "i < 4294967296" using unat_u32_lt [of ?k] by (simp add: less_trans)
    then show "?st ! ring_slot r (unat (of_nat i :: u32)) = ?st ! ring_slot r i"
      by (simp add: unat_of_nat_u32)
  qed
  also have "\<dots> = take (unat n) (ring_contents r)"
    by (simp add: k ring_contents_def take_map take_upt_min)
  finally show ?thesis
    using ring_wfD(3) [OF assms(1)] copy
    by (simp add: ring_buffer_pop_def Let_def cnt k pop_next_def)
qed

lemma pop_next_fill: "ring_fill (pop_next n r) = ring_fill r - unat n"
proof -
  have eq: "head r - (tail r + min n (head r - tail r)) = (head r - tail r) - min n (head r - tail r)"
    by simp
  have "ring_fill (pop_next n r) = unat (head r - (tail r + min n (head r - tail r)))"
    by (simp add: ring_fill_def pop_next_def)
  also have "\<dots> = unat ((head r - tail r) - min n (head r - tail r))"
    by (simp only: eq)
  also have "\<dots> = ring_fill r - min (unat n) (ring_fill r)"
    by (simp add: unat_u32_sub unat_pop_count) (simp add: ring_fill_def)
  finally show ?thesis by simp
qed

lemma pop_next_wf [wf_intros]:
  assumes "ring_wf r"
  shows "ring_wf (pop_next n r)"
proof -
  have "ring_fill (pop_next n r) \<le> unat (fill_high_water r)"
    using pop_next_fill [of n r] ring_wfD(5) [OF assms] by simp
  then show ?thesis
    using assms unfolding ring_wf_def by (simp add: pop_next_def ring_storage_def)
qed

lemma pop_next_capacity [simp]: "capacity (pop_next n r) = capacity r"
  by (simp add: pop_next_def)

lemma pop_next_contents [abs_simps]:
  assumes "ring_wf r"
  shows "ring_contents (pop_next n r) = drop (unat n) (ring_contents r)"
proof (cases "unat n \<le> ring_fill r")
  case True
  have slot: "ring_slot (pop_next n r) i = ring_slot r (unat n + i)" for i
    using ring_slot_shift [OF assms, of "min n (head r - tail r)" i] True
    by (simp add: pop_next_def unat_pop_count)
  have "ring_storage (pop_next n r) = ring_storage r"
    by (simp add: pop_next_def ring_storage_def)
  then show ?thesis
    by (simp add: ring_contents_def slot pop_next_fill drop_map) (simp add: list_eq_iff_nth_eq)
next
  case False
  then show ?thesis
    by (metis drop_all length_0_conv length_ring_contents nat_le_linear pop_next_fill
        diff_is_0_eq)
qed

lemma pop_next_newest [abs_simps]: "ring_newest (pop_next n r) = ring_newest r"
  by (simp add: ring_newest_def pop_next_def ring_storage_def)

section \<open>Peek\<close>

lemma ring_buffer_peek_newest_eq:
  assumes "ring_wf r"
  shows "ring_buffer_peek_newest (Some r) (Some out)
           = Some (case ring_newest r of Some rec \<Rightarrow> (True, Some rec) | None \<Rightarrow> (False, Some out))"
proof -
  have "unat (head r - 1) mod unat (capacity r) < length (ring_storage r)"
    using ring_wfD(4,7) [OF assms] mod_less_divisor [of "unat (capacity r)" "unat (head r - 1)"]
    by linarith
  then show ?thesis
    using ring_wfD(3) [OF assms] ring_index0 [OF assms, of "head r - 1"]
    by (simp add: ring_buffer_peek_newest_def ring_newest_def)
qed

section \<open>The ring buffer implements the FIFO\<close>

text \<open>
  The operations as a caller with valid pointers and a large enough out array sees them. An
  initialised buffer never leaves its arrays, so the last case of each is never taken.
\<close>

definition rb_push :: "sensor_record_t \<Rightarrow> ring_buffer_t \<Rightarrow> bool \<times> ring_buffer_t" where
  "rb_push rec r =
     (case ring_buffer_push (Some r) (Some rec) of
        Some (dropped, Some r') \<Rightarrow> (dropped, r') | _ \<Rightarrow> (False, r))"

definition rb_pop :: "u32 \<Rightarrow> ring_buffer_t \<Rightarrow> sensor_record_t list \<times> ring_buffer_t" where
  "rb_pop n r =
     (case ring_buffer_pop (Some r) (Some (replicate (unat n) zero_record)) n of
        Some (k, Some r', Some out) \<Rightarrow> (take (unat k) out, r') | _ \<Rightarrow> ([], r))"

lemma take_min_fill: "take (min n (ring_fill r)) (ring_contents r) = take n (ring_contents r)"
  by (simp add: min_def)

lemma rb_push_eq: "ring_wf r \<Longrightarrow> rb_push rec r = (ring_fill r = unat (capacity r), push_next rec r)"
  by (simp add: rb_push_def ring_buffer_push_eq)

lemma rb_pop_eq: "ring_wf r \<Longrightarrow> rb_pop n r = (take (unat n) (ring_contents r), pop_next n r)"
  by (simp add: rb_pop_def ring_buffer_pop_eq unat_pop_count take_min_fill)

interpretation rb: overwriting_fifo ring_wf "\<lambda>r. unat (capacity r)" ring_contents ring_newest
  rb_push rb_pop
  by unfold_locales
    (simp_all add: rb_push_eq rb_pop_eq ref_push_def ref_pop_def wf_intros abs_simps ring_wfD)

section \<open>Runs of the code\<close>

text \<open>
  A sequence of calls on one buffer, each pop into a fresh out array of the size it asks for.
  \<open>None\<close> would be an access outside an array.
\<close>

fun ring_run ::
  "sensor_record_t fifo_op list \<Rightarrow> ring_buffer_t
     \<Rightarrow> (sensor_record_t fifo_out list \<times> ring_buffer_t) option" where
  "ring_run [] r = Some ([], r)"
| "ring_run (Push rec # ops) r = do {
     (dropped, rb) \<leftarrow> ring_buffer_push (Some r) (Some rec);
     r \<leftarrow> rb;
     (outs, r) \<leftarrow> ring_run ops r;
     Some (Pushed dropped # outs, r)
   }"
| "ring_run (Pop n # ops) r = do {
     (k, rb, buf) \<leftarrow> ring_buffer_pop (Some r) (Some (replicate (unat n) zero_record)) n;
     r \<leftarrow> rb;
     xs \<leftarrow> buf;
     (outs, r) \<leftarrow> ring_run ops r;
     Some (Popped (take (unat k) xs) # outs, r)
   }"

lemma ring_run_eq: "ring_wf r \<Longrightarrow> ring_run ops r = Some (fifo_run rb_push rb_pop ops r)"
proof (induction ops arbitrary: r)
  case Nil
  then show ?case by simp
next
  case (Cons opn ops)
  show ?case
  proof (cases opn)
    case (Push rec)
    then show ?thesis
      using Cons.IH [OF push_next_wf [OF Cons.prems, of rec]]
      by (simp add: ring_buffer_push_eq rb_push_eq Cons.prems Let_def split_def)
  next
    case (Pop n)
    then show ?thesis
      using Cons.IH [OF pop_next_wf [OF Cons.prems, of n]]
      by (simp add: ring_buffer_pop_eq rb_pop_eq Cons.prems Let_def split_def unat_pop_count
          take_min_fill)
  qed
qed

text \<open>The counters of the struct count what the run did, modulo \<open>2 ^ 32\<close>.\<close>

lemma ring_run_counters:
  "ring_wf r \<Longrightarrow> fifo_run rb_push rb_pop ops r = (outs, r') \<Longrightarrow>
     head r' = head r + of_nat (length (pushed_of ops)) \<and>
     overwritten r' = overwritten r + of_nat (drops_of outs) \<and>
     tail r' = tail r + of_nat (drops_of outs) + of_nat (length (popped_of outs)) \<and>
     capacity r' = capacity r"
proof (induction ops arbitrary: r outs)
  case Nil
  then show ?case by simp
next
  case (Cons opn ops)
  show ?case
  proof (cases opn)
    case (Push rec)
    obtain outs' where run: "fifo_run rb_push rb_pop ops (push_next rec r) = (outs', r')"
      and outs: "outs = Pushed (ring_fill r = unat (capacity r)) # outs'"
      using Cons.prems Push by (auto simp: split_def Let_def prod_eq_iff rb_push_eq)
    show ?thesis
      using Cons.IH [OF push_next_wf [OF Cons.prems(1)] run]
      by (simp add: Push outs push_next_def Let_def)
  next
    case (Pop n)
    obtain outs' where run: "fifo_run rb_push rb_pop ops (pop_next n r) = (outs', r')"
      and outs: "outs = Popped (take (unat n) (ring_contents r)) # outs'"
      using Cons.prems Pop by (auto simp: split_def Let_def prod_eq_iff rb_pop_eq)
    have "min n (head r - tail r) = of_nat (min (unat n) (ring_fill r))"
      by (simp flip: unat_pop_count)
    then show ?thesis
      using Cons.IH [OF pop_next_wf [OF Cons.prems(1)] run]
      by (simp add: Pop outs pop_next_def min.commute)
  qed
qed

lemma ring_run_high_water:
  "ring_wf r \<Longrightarrow> fifo_run rb_push rb_pop ops r = (outs, r') \<Longrightarrow>
     unat (fill_high_water r')
       = fold max (ref_fills (unat (capacity r)) ops (ring_contents r)) (unat (fill_high_water r))"
proof (induction ops arbitrary: r outs)
  case Nil
  then show ?case by simp
next
  case (Cons opn ops)
  show ?case
  proof (cases opn)
    case (Push rec)
    obtain outs' where run: "fifo_run rb_push rb_pop ops (push_next rec r) = (outs', r')"
      using Cons.prems Push by (auto simp: split_def Let_def prod_eq_iff rb_push_eq)
    have "snd (ref_push (unat (capacity r)) rec (ring_contents r)) = ring_contents (push_next rec r)"
      using rb.push_ref [OF Cons.prems(1), of rec]
      by (simp add: rb_push_eq Cons.prems(1) prod_eq_iff)
    then show ?thesis
      using Cons.IH [OF push_next_wf [OF Cons.prems(1)] run]
      by (simp add: Push Let_def push_next_high_water max.commute)
  next
    case (Pop n)
    obtain outs' where run: "fifo_run rb_push rb_pop ops (pop_next n r) = (outs', r')"
      using Cons.prems Pop by (auto simp: split_def Let_def prod_eq_iff rb_pop_eq)
    have "ring_fill r - unat n \<le> unat (fill_high_water r)"
      using ring_wfD(5) [OF Cons.prems(1)] by simp
    then show ?thesis
      using Cons.IH [OF pop_next_wf [OF Cons.prems(1)] run] Cons.prems(1)
      by (simp add: Pop Let_def ref_pop_def pop_next_contents pop_next_fill max_absorb2)
        (simp add: pop_next_def)
  qed
qed

section \<open>Properties\<close>

text \<open>A record as the host test makes it, and an initialised buffer of capacity 2, for the witnesses.\<close>

definition make_record :: "u32 \<Rightarrow> sensor_record_t" where
  "make_record n = zero_record\<lparr>seq := n, capture_us := ucast n * 100000,
     sensors := \<lparr>raw_code = (raw_code zero_sample)[0 := ucast (n AND 0xFFF)]\<rparr>\<rparr>"

definition blank_ring :: ring_buffer_t where
  "blank_ring = \<lparr>storage = None, capacity = 0, index_mask = 0, head = 0, tail = 0,
     overwritten = 0, fill_high_water = 0, has_newest = False\<rparr>"

definition ring_at :: "u32 \<Rightarrow> ring_buffer_t" where
  "ring_at n = \<lparr>storage = Some (replicate 2 zero_record), capacity = 2, index_mask = 1, head = n,
     tail = n, overwritten = 0, fill_high_water = 0, has_newest = True\<rparr>"

definition ring_empty2 :: ring_buffer_t where
  "ring_empty2 = \<lparr>storage = Some (replicate 2 zero_record), capacity = 2, index_mask = 1, head = 0,
     tail = 0, overwritten = 0, fill_high_water = 0, has_newest = False\<rparr>"

lemma ring_init_2:
  "ring_buffer_init (Some blank_ring) (Some (replicate 2 zero_record)) 2 = (True, Some ring_empty2)"
  by (simp add: ring_buffer_init_def RING_CAPACITY_MAX_def ring_empty2_def)

lemma ring_run_total: "ring_wf r \<Longrightarrow> \<exists>outs r'. ring_run ops r = Some (outs, r')"
  by (simp add: ring_run_eq prod_eq_iff)

lemma ring_at_wf: "ring_wf (ring_at n)"
  by (simp add: ring_wf_def ring_at_def is_pow2_def ring_storage_def ring_fill_def)

lemma ring_init_cases:
  assumes "ring_buffer_init (Some r0) (Some st) cap = (True, Some r)" and "unat cap \<le> length st"
  shows "ring_wf r" and "ring_contents r = []" and "ring_newest r = None" and "capacity r = cap"
    and "head r = 0" and "tail r = 0" and "overwritten r = 0" and "fill_high_water r = 0"
proof -
  have p: "is_pow2 cap"
    using assms(1) ring_buffer_init_fails [of cap r0 st] by (cases "is_pow2 cap") auto
  show "ring_wf r" and "ring_contents r = []" and "ring_newest r = None" and "capacity r = cap"
    using ring_buffer_init_ok [OF p assms(2), of r0] assms(1) by auto
  show "head r = 0" and "tail r = 0" and "overwritten r = 0" and "fill_high_water r = 0"
    using assms(1) by (auto simp: ring_buffer_init_def split: if_splits)
qed

text \<open>
  Initialisation succeeds exactly for a capacity that is a power of two (the bit trick of
  the code decides that, and the extra bound \<open>RING_CAPACITY_MAX\<close> rejects nothing more),
  leaves the struct untouched when it fails, and otherwise establishes the invariant with an
  empty buffer, provided the storage holds as many records as the capacity says.
\<close>

theorem ring_init_correct:
  "(fst (ring_buffer_init (Some r) (Some st) cap) \<longleftrightarrow> (\<exists>k<32. unat cap = 2 ^ k)) \<and>
   (\<not> fst (ring_buffer_init (Some r) (Some st) cap) \<longrightarrow>
      ring_buffer_init (Some r) (Some st) cap = (False, Some r)) \<and>
   (fst (ring_buffer_init (Some r) (Some st) cap) \<and> unat cap \<le> length st \<longrightarrow>
      (\<exists>r'. ring_buffer_init (Some r) (Some st) cap = (True, Some r') \<and> ring_wf r' \<and>
            ring_contents r' = [] \<and> ring_newest r' = None))"
proof (cases "is_pow2 cap")
  case True
  have "fst (ring_buffer_init (Some r) (Some st) cap)"
    using True pow2_le_2p31 [OF True]
    by (simp add: ring_buffer_init_def is_pow2_def RING_CAPACITY_MAX_def)
  then show ?thesis
    using True ring_buffer_init_ok [OF True] by (auto simp: is_pow2_iff)
next
  case False
  then show ?thesis by (simp add: ring_buffer_init_fails is_pow2_iff)
qed

lemma ring_init_correct_witness:
  "fst (ring_buffer_init (Some blank_ring) (Some (replicate 8 zero_record)) 8) \<and>
   \<not> fst (ring_buffer_init (Some blank_ring) (Some (replicate 8 zero_record)) 6) \<and>
   (\<exists>r'. ring_buffer_init (Some blank_ring) (Some (replicate 8 zero_record)) 8 = (True, Some r') \<and>
         ring_wf r' \<and> ring_contents r' = [] \<and> ring_newest r' = None) \<and>
   ring_buffer_init (Some blank_ring) (Some (replicate 8 zero_record)) 6 = (False, Some blank_ring)"
proof -
  have ok: "fst (ring_buffer_init (Some blank_ring) (Some (replicate 8 zero_record)) 8)"
    and no: "\<not> fst (ring_buffer_init (Some blank_ring) (Some (replicate 8 zero_record)) 6)"
    by (simp_all add: ring_buffer_init_def RING_CAPACITY_MAX_def)
  then show ?thesis
    using ring_init_correct [of blank_ring "replicate 8 zero_record" 8]
      ring_init_correct [of blank_ring "replicate 8 zero_record" 6] by simp
qed

lemma ring_at_contents: "ring_contents (ring_at n) = []"
  by (simp add: ring_contents_def ring_fill_def ring_at_def)

text \<open>
  C15: Push on any initialised buffer, wherever its free-running counters stand, accesses only
  its own slots, appends the record, drops exactly the oldest one when the buffer is full and
  only then, reports and counts that drop, keeps the invariant, and moves the high-water mark to
  the new fill level if that is higher.
\<close>

theorem ring_push_refines:
  assumes "ring_wf r"
  shows "\<exists>r' dropped. ring_buffer_push (Some r) (Some rec) = Some (dropped, Some r') \<and> ring_wf r' \<and>
           (dropped, ring_contents r') = ref_push (unat (capacity r)) rec (ring_contents r) \<and>
           overwritten r' = overwritten r + (if dropped then 1 else 0) \<and> head r' = head r + 1 \<and>
           unat (fill_high_water r') = max (unat (fill_high_water r)) (length (ring_contents r')) \<and>
           capacity r' = capacity r \<and> ring_newest r' = Some rec"
proof -
  have "overwritten (push_next rec r)
      = overwritten r + (if ring_fill r = unat (capacity r) then 1 else 0)"
    and "head (push_next rec r) = head r + 1"
    by (simp_all add: push_next_def Let_def)
  then show ?thesis
    using assms
    by (simp add: ring_buffer_push_eq push_next_wf push_next_contents push_next_newest ref_push_def
        push_next_high_water)
qed

lemma ring_push_refines_witness:
  "\<exists>r'. ring_buffer_push (Some (ring_at 0xFFFFFFFF)) (Some (make_record 7)) = Some (False, Some r') \<and>
        ring_contents r' = [make_record 7] \<and> head r' = 0"
  using ring_push_refines [OF ring_at_wf [of "0xFFFFFFFF"], of "make_record 7"]
  by (auto simp: ring_at_contents ref_push_def) (auto simp: ring_at_def)

text \<open>
  C16: Pop moves the oldest \<open>min (max_records, fill)\<close> records, in order, into the start of the
  out array and writes no other element of it, removes exactly those from the buffer, keeps the
  invariant, and returns how many they were. An out array that holds that many is enough.
\<close>

theorem ring_pop_refines:
  assumes "ring_wf r" and "min (unat n) (length (ring_contents r)) \<le> length out"
  shows "\<exists>k r' out'. ring_buffer_pop (Some r) (Some out) n = Some (k, Some r', Some out') \<and>
           unat k = min (unat n) (length (ring_contents r)) \<and> ring_wf r' \<and>
           (take (unat k) out', ring_contents r') = ref_pop n (ring_contents r) \<and>
           drop (unat k) out' = drop (unat k) out \<and> length out' = length out \<and>
           ring_newest r' = ring_newest r \<and> overwritten r' = overwritten r"
proof -
  have "overwritten (pop_next n r) = overwritten r" by (simp add: pop_next_def)
  then show ?thesis
    using assms
    by (simp add: ring_buffer_pop_eq unat_pop_count pop_next_wf pop_next_newest pop_next_contents
        ref_pop_def take_min_fill)
qed

lemma ring_pop_refines_witness:
  "\<exists>k r' out'. ring_buffer_pop (Some (push_next (make_record 7) (ring_at 0xFFFFFFFF)))
        (Some [zero_record, zero_record]) 2 = Some (k, Some r', Some out') \<and>
      unat k = 1 \<and> take 1 out' = [make_record 7] \<and> drop 1 out' = [zero_record]"
proof -
  let ?r = "push_next (make_record 7) (ring_at 0xFFFFFFFF)"
  have c: "ring_contents ?r = [make_record 7]"
    by (simp add: push_next_contents ring_at_wf ring_at_contents)
  show ?thesis
    using ring_pop_refines [OF push_next_wf [OF ring_at_wf [of "0xFFFFFFFF"], of "make_record 7"],
        of 2 "[zero_record, zero_record]"]
    by (auto simp: c ref_pop_def)
qed

text \<open>
  C13: From initialisation on, every sequence of pushes and pops, of any length and across the
  wrap of the counters, runs without leaving an array and returns, call by call, exactly what
  the reference FIFO on lists returns; afterwards the buffer holds what the reference holds.
\<close>

theorem ring_run_is_reference:
  assumes "ring_buffer_init (Some r0) (Some st) cap = (True, Some r)" and "unat cap \<le> length st"
  shows "\<exists>outs r'. ring_run ops r = Some (outs, r') \<and>
           (outs, ring_contents r') = fifo_run (ref_push (unat cap)) ref_pop ops []"
proof -
  note init = ring_init_cases [OF assms]
  have "(fst (fifo_run rb_push rb_pop ops r), ring_contents (snd (fifo_run rb_push rb_pop ops r)))
      = fifo_run (ref_push (unat cap)) ref_pop ops []"
    using rb.run_ref [OF init(1), of ops] by (simp add: init(2,4))
  then show ?thesis
    by (simp add: ring_run_eq [OF init(1)] prod_eq_iff)
qed

lemma ring_run_is_reference_witness:
  "\<exists>outs r'. ring_run [Push (make_record 1), Push (make_record 2), Push (make_record 3), Pop 5] ring_empty2 = Some (outs, r') \<and>
      outs = [Pushed False, Pushed False, Pushed True, Popped [make_record 2, make_record 3]]"
  using ring_run_is_reference [OF ring_init_2, of
      "[Push (make_record 1), Push (make_record 2), Push (make_record 3), Pop 5]"]
  by (auto simp: ref_push_def ref_pop_def)

text \<open>
  C17: The struct's counters account for every record of a run from initialisation: \<open>head\<close> counts
  the pushes, \<open>overwritten\<close> the drops and \<open>tail - overwritten\<close> the records handed out (all
  modulo \<open>2 ^ 32\<close>); pushes are records handed out plus drops plus fill, exactly;
  what was handed out followed by what is still held is a subsequence of what was pushed, so
  nothing is reordered, duplicated or invented; and \<open>fill_high_water\<close> is the highest fill level
  the run went through.
\<close>

theorem ring_run_accounts:
  assumes "ring_buffer_init (Some r0) (Some st) cap = (True, Some r)" and "unat cap \<le> length st"
    and "ring_run ops r = Some (outs, r')"
  shows "head r' = of_nat (length (pushed_of ops)) \<and>
         overwritten r' = of_nat (drops_of outs) \<and>
         tail r' - overwritten r' = of_nat (length (popped_of outs)) \<and>
         length (pushed_of ops)
           = length (popped_of outs) + drops_of outs + length (ring_contents r') \<and>
         subseq (popped_of outs @ ring_contents r') (pushed_of ops) \<and>
         unat (fill_high_water r') = fold max (ref_fills (unat cap) ops []) 0"
proof -
  note init = ring_init_cases [OF assms(1,2)]
  have run: "fifo_run rb_push rb_pop ops r = (outs, r')"
    using assms(3) by (simp add: ring_run_eq [OF init(1)])
  from rb.run_conserves [OF init(1) run] ring_run_counters [OF init(1) run]
    ring_run_high_water [OF init(1) run]
  show ?thesis by (simp add: init)
qed

lemma ring_run_accounts_witness:
  "\<exists>outs r'. ring_run [Push (make_record 1), Push (make_record 2), Push (make_record 3), Pop 1] ring_empty2 = Some (outs, r') \<and> head r' = 3 \<and> tail r' - overwritten r' = of_nat (length (popped_of outs)) \<and>
      unat (fill_high_water r') = 2"
proof -
  let ?ops = "[Push (make_record 1), Push (make_record 2), Push (make_record 3), Pop 1]"
  obtain outs r' where run: "ring_run ?ops ring_empty2 = Some (outs, r')"
    using ring_run_total [OF ring_init_cases(1) [OF ring_init_2], of ?ops] by auto
  show ?thesis
    using ring_run_accounts [OF ring_init_2 _ run] run by (auto simp: ref_push_def ref_pop_def simp del: ring_run.simps)
qed

text \<open>
  After any run from initialisation, peek returns the record pushed last, whether or not it
  has been popped since, and reports \<open>false\<close>, leaving the caller's record alone, only if
  nothing was ever pushed.
\<close>

theorem ring_peek_is_last_push:
  assumes "ring_buffer_init (Some r0) (Some st) cap = (True, Some r)" and "unat cap \<le> length st"
    and "ring_run ops r = Some (outs, r')"
  shows "ring_buffer_peek_newest (Some r') (Some out)
           = Some (if pushed_of ops = [] then (False, Some out)
                   else (True, Some (last (pushed_of ops))))"
proof -
  note init = ring_init_cases [OF assms(1,2)]
  have run: "fifo_run rb_push rb_pop ops r = (outs, r')"
    using assms(3) by (simp add: ring_run_eq [OF init(1)])
  have "ring_wf r'" using rb.run_inv [OF init(1), of ops] by (simp add: run)
  moreover have "ring_newest r' = (if pushed_of ops = [] then None else Some (last (pushed_of ops)))"
    using rb.run_newest [OF init(1), of ops] by (simp add: run init(3))
  ultimately show ?thesis by (simp add: ring_buffer_peek_newest_eq)
qed

lemma ring_peek_is_last_push_witness:
  "\<exists>outs r'. ring_run [Push (make_record 1), Push (make_record 2), Pop 2] ring_empty2 = Some (outs, r') \<and>
      ring_buffer_peek_newest (Some r') (Some zero_record) = Some (True, Some (make_record 2))"
proof -
  let ?ops = "[Push (make_record 1), Push (make_record 2), Pop 2]"
  obtain outs r' where run: "ring_run ?ops ring_empty2 = Some (outs, r')"
    using ring_run_total [OF ring_init_cases(1) [OF ring_init_2], of ?ops] by auto
  show ?thesis
    using ring_peek_is_last_push [OF ring_init_2 _ run, of zero_record] run
    by (auto simp del: ring_run.simps)
qed

end
