(* ===== verification/Sensor_Log.thy ===== *)
theory Sensor_Log
  imports Ring_Buffer
begin

text \<open>
  \<open>datalog/sensor_log.c\<close>: the ring buffer behind a FreeRTOS mutex. The module's static
  variables are the record \<open>sensor_log_state\<close>. What the kernel and the timer answer during one
  call is its \<open>log_env\<close>: whether the mutex is obtained within the given wait, and the two
  uptime readings around the critical part. \<open>mutex_calls\<close> records the mutex calls made.
  The storage is the array in \<open>.bss\<close>, zero until the ring buffer is initialised on it.
  \<open>APP_TEST_LOG_HOLD_US\<close> is 0, so the test hold is not compiled in; registering the mutex with
  the kernel-aware debugger is left out.
\<close>

section \<open>The code\<close>

datatype sensor_log_status_t =
  SENSOR_LOG_OK | SENSOR_LOG_ERR_NOT_DDR | SENSOR_LOG_ERR_CAPACITY | SENSOR_LOG_ERR_NO_MUTEX

record sensor_log_stats_t =
  stats_capacity :: u32
  stats_fill :: u32
  stats_fill_high_water :: u32
  stats_written :: u32
  stats_read :: u32
  stats_overwritten :: u32
  stats_lock_hold_max_us :: u32

datatype mutex_call = MutexTake u32 bool | MutexGive

record sensor_log_state =
  s_ring :: ring_buffer_t
  s_lock_hold_max_us :: u32
  s_log_mutex :: bool
  mutex_calls :: "mutex_call list"

record log_env =
  xSemaphoreTake :: "u32 \<Rightarrow> bool"
  locked_at :: u64
  unlocking_at :: u64

text \<open>\<open>None\<close> is the early \<open>return false\<close>; the uptime at which the lock was obtained otherwise.\<close>

definition sensor_log_lock ::
  "log_env \<Rightarrow> u32 \<Rightarrow> sensor_log_state \<Rightarrow> u64 option \<times> sensor_log_state" where
  "sensor_log_lock env max_wait s =
     (if \<not> s_log_mutex s then (None, s)
      else let ok = xSemaphoreTake env max_wait;
               s = s\<lparr>mutex_calls := mutex_calls s @ [MutexTake max_wait ok]\<rparr>
           in if \<not> ok then (None, s) else (Some (locked_at env), s))"

definition sensor_log_unlock :: "log_env \<Rightarrow> u64 \<Rightarrow> sensor_log_state \<Rightarrow> sensor_log_state" where
  "sensor_log_unlock env locked_at_us s =
     (let held_us = (ucast (unlocking_at env - locked_at_us) :: u32);
          s = (if held_us > s_lock_hold_max_us s then s\<lparr>s_lock_hold_max_us := held_us\<rparr> else s)
      in s\<lparr>mutex_calls := mutex_calls s @ [MutexGive]\<rparr>)"

text \<open>
  The spin of test builds, over the uptimes it reads; what is left of them when it ends. The
  build here compiles it out.
\<close>

definition sensor_log_test_hold :: "u64 \<Rightarrow> u64 list \<Rightarrow> u64 list option" where
  "sensor_log_test_hold hold_us readings =
     (case readings of
        [] \<Rightarrow> None
      | start_us # readings \<Rightarrow> poll_until (\<lambda>now_us. \<not> now_us - start_us < hold_us) readings)"

lemma sensor_log_test_hold_holds:
  "sensor_log_test_hold hold_us (start_us # readings) = Some rest \<longleftrightarrow>
     (\<exists>spun end_us. readings = spun @ end_us # rest \<and> hold_us \<le> end_us - start_us \<and>
        (\<forall>now_us\<in>set spun. now_us - start_us < hold_us))"
  by (simp add: sensor_log_test_hold_def poll_until_Some) (simp add: not_less not_le)

definition s_log_storage :: "sensor_log_state \<Rightarrow> sensor_record_t list" where
  "s_log_storage s = (case storage (s_ring s) of
     Some st \<Rightarrow> st | None \<Rightarrow> replicate (unat APP_LOG_CAPACITY) zero_record)"

definition sizeof_log_storage :: u32 where
  "sizeof_log_storage = APP_LOG_CAPACITY * 32"

text \<open>\<open>storage_first\<close> is the address the linker gave the array, \<open>mutex_ok\<close> whether the heap sufficed.\<close>

definition sensor_log_init ::
  "u32 \<Rightarrow> bool \<Rightarrow> sensor_log_state \<Rightarrow> sensor_log_status_t \<times> sensor_log_state" where
  "sensor_log_init storage_first mutex_ok s =
     (let storage_last = storage_first + sizeof_log_storage - 1
      in if storage_first < BOARD_DDR_BASE_ADDR \<or> storage_last > BOARD_DDR_HIGH_ADDR
         then (SENSOR_LOG_ERR_NOT_DDR, s)
         else case ring_buffer_init (Some (s_ring s)) (Some (s_log_storage s)) APP_LOG_CAPACITY of
           (True, Some r) \<Rightarrow>
             let s = s\<lparr>s_ring := r, s_log_mutex := mutex_ok\<rparr>
             in if \<not> mutex_ok then (SENSOR_LOG_ERR_NO_MUTEX, s) else (SENSOR_LOG_OK, s)
         | _ \<Rightarrow> (SENSOR_LOG_ERR_CAPACITY, s))"

definition sensor_log_storage_info ::
  "u32 \<Rightarrow> u32 option \<Rightarrow> u32 option \<Rightarrow> u32 option \<Rightarrow> u32 option \<times> u32 option \<times> u32 option" where
  "sensor_log_storage_info storage_first base_addr_out size_bytes_out capacity_out =
     (map_option (\<lambda>_. storage_first) base_addr_out,
      map_option (\<lambda>_. sizeof_log_storage) size_bytes_out,
      map_option (\<lambda>_. APP_LOG_CAPACITY) capacity_out)"

definition sensor_log_write ::
  "log_env \<Rightarrow> sensor_record_t option \<Rightarrow> u32 \<Rightarrow> bool option \<Rightarrow> sensor_log_state
     \<Rightarrow> (bool \<times> bool option \<times> sensor_log_state) option" where
  "sensor_log_write env record max_wait was_empty_out s =
     (if record = None then Some (False, was_empty_out, s)
      else case sensor_log_lock env max_wait s of
        (None, s) \<Rightarrow> Some (False, was_empty_out, s)
      | (Some locked_at_us, s) \<Rightarrow> do {
          let was_empty = (ring_buffer_count (Some (s_ring s)) = 0);
          (_, rb) \<leftarrow> ring_buffer_push (Some (s_ring s)) record;
          r \<leftarrow> rb;
          let s = sensor_log_unlock env locked_at_us (s\<lparr>s_ring := r\<rparr>);
          Some (True, map_option (\<lambda>_. was_empty) was_empty_out, s)
        })"

definition sensor_log_read ::
  "log_env \<Rightarrow> sensor_record_t list option \<Rightarrow> u32 \<Rightarrow> u32 \<Rightarrow> u32 option \<Rightarrow> sensor_log_state
     \<Rightarrow> (bool \<times> sensor_record_t list option \<times> u32 option \<times> sensor_log_state) option" where
  "sensor_log_read env records_out max_records max_wait count_out s =
     (if records_out = None \<or> count_out = None then Some (False, records_out, count_out, s)
      else let count_out = Some 0 in
        case sensor_log_lock env max_wait s of
          (None, s) \<Rightarrow> Some (False, records_out, count_out, s)
        | (Some locked_at_us, s) \<Rightarrow> do {
            (popped, rb, records_out) \<leftarrow>
              ring_buffer_pop (Some (s_ring s)) records_out max_records;
            r \<leftarrow> rb;
            let s = sensor_log_unlock env locked_at_us (s\<lparr>s_ring := r\<rparr>);
            let count_out = Some popped;
            Some (True, records_out, count_out, s)
          })"

definition sensor_log_peek_newest ::
  "log_env \<Rightarrow> sensor_record_t option \<Rightarrow> u32 \<Rightarrow> sensor_log_state
     \<Rightarrow> (bool \<times> sensor_record_t option \<times> sensor_log_state) option" where
  "sensor_log_peek_newest env record_out max_wait s =
     (if record_out = None then Some (False, record_out, s)
      else case sensor_log_lock env max_wait s of
        (None, s) \<Rightarrow> Some (False, record_out, s)
      | (Some locked_at_us, s) \<Rightarrow> do {
          (found, record_out) \<leftarrow> ring_buffer_peek_newest (Some (s_ring s)) record_out;
          let s = sensor_log_unlock env locked_at_us s;
          Some (found, record_out, s)
        })"

definition sensor_log_get_stats ::
  "log_env \<Rightarrow> sensor_log_stats_t option \<Rightarrow> u32 \<Rightarrow> sensor_log_state
     \<Rightarrow> bool \<times> sensor_log_stats_t option \<times> sensor_log_state" where
  "sensor_log_get_stats env stats_out max_wait s =
     (if stats_out = None then (False, stats_out, s)
      else case sensor_log_lock env max_wait s of
        (None, s) \<Rightarrow> (False, stats_out, s)
      | (Some locked_at_us, s) \<Rightarrow>
          let st = \<lparr>stats_capacity = capacity (s_ring s),
                    stats_fill = ring_buffer_count (Some (s_ring s)),
                    stats_fill_high_water = fill_high_water (s_ring s),
                    stats_written = head (s_ring s),
                    stats_read = tail (s_ring s) - overwritten (s_ring s),
                    stats_overwritten = overwritten (s_ring s),
                    stats_lock_hold_max_us = s_lock_hold_max_us s\<rparr>
          in (True, Some st, sensor_log_unlock env locked_at_us s))"

section \<open>The invariant\<close>

definition log_wf :: "sensor_log_state \<Rightarrow> bool" where
  "log_wf s \<longleftrightarrow> s_log_mutex s \<and> ring_wf (s_ring s)"

definition log_contents :: "sensor_log_state \<Rightarrow> sensor_record_t list" where
  "log_contents s = ring_contents (s_ring s)"

definition held_us :: "log_env \<Rightarrow> u32" where
  "held_us env = ucast (unlocking_at env - locked_at env)"

text \<open>The bookkeeping of one critical part, in one step.\<close>

definition log_locked :: "log_env \<Rightarrow> u32 \<Rightarrow> sensor_log_state \<Rightarrow> sensor_log_state" where
  "log_locked env w s =
     s\<lparr>s_lock_hold_max_us := max (s_lock_hold_max_us s) (held_us env),
       mutex_calls := mutex_calls s @ [MutexTake w True, MutexGive]\<rparr>"

definition log_timeout :: "u32 \<Rightarrow> sensor_log_state \<Rightarrow> sensor_log_state" where
  "log_timeout w s = s\<lparr>mutex_calls := mutex_calls s @ [MutexTake w False]\<rparr>"

text \<open>
  Whether the mutex is held after a sequence of calls on it, if it was (\<open>held\<close>) before; \<open>None\<close> if the
  sequence takes a mutex that is held, which would block for ever, or gives one that is not.
\<close>

fun mutex_trace :: "bool \<Rightarrow> mutex_call list \<Rightarrow> bool option" where
  "mutex_trace held [] = Some held"
| "mutex_trace held (MutexTake w ok # cs) = (if held then None else mutex_trace ok cs)"
| "mutex_trace held (MutexGive # cs) = (if held then mutex_trace False cs else None)"

definition mutex_free :: "sensor_log_state \<Rightarrow> bool" where
  "mutex_free s \<longleftrightarrow> mutex_trace False (mutex_calls s) = Some False"

lemma mutex_trace_append: "mutex_trace held (cs @ ds) = do { held \<leftarrow> mutex_trace held cs; mutex_trace held ds }"
  by (induction held cs rule: mutex_trace.induct) simp_all

lemma mutex_free_locked [simp]: "mutex_free (log_locked env w s) = mutex_free s"
  and mutex_free_timeout [simp]: "mutex_free (log_timeout w s) = mutex_free s"
  by (auto simp: mutex_free_def log_locked_def log_timeout_def mutex_trace_append split: bind_splits)

lemma mutex_free_ring [simp]: "mutex_free (s\<lparr>s_ring := r\<rparr>) = mutex_free s"
  by (simp add: mutex_free_def)

lemmas log_ops = sensor_log_lock_def sensor_log_unlock_def Let_def

lemma sensor_log_write_eq:
  assumes "log_wf s"
  shows "sensor_log_write env (Some rec) w we s =
     Some (if xSemaphoreTake env w
           then (True, map_option (\<lambda>_. log_contents s = []) we,
                 log_locked env w (s\<lparr>s_ring := push_next rec (s_ring s)\<rparr>))
           else (False, we, log_timeout w s))"
proof -
  have "(head (s_ring s) - tail (s_ring s) = 0) = (ring_fill (s_ring s) = 0)"
    by (simp add: ring_fill_def unat_eq_0)
  moreover have "(log_contents s = []) = (ring_fill (s_ring s) = 0)"
    by (simp add: log_contents_def flip: length_0_conv)
  ultimately have "(ring_buffer_count (Some (s_ring s)) = 0) = (log_contents s = [])"
    by (simp add: ring_buffer_count_def)
  then show ?thesis
    using assms
    by (simp add: sensor_log_write_def log_ops log_wf_def ring_buffer_push_eq log_locked_def
        log_timeout_def held_us_def max_def not_less)
qed

lemma sensor_log_read_eq:
  assumes "log_wf s" and "min (unat n) (length (log_contents s)) \<le> length out"
  shows "sensor_log_read env (Some out) n w (Some c) s =
     Some (if xSemaphoreTake env w
           then (True, Some (take (unat n) (log_contents s)
                             @ drop (min (unat n) (length (log_contents s))) out),
                 Some (of_nat (min (unat n) (length (log_contents s)))),
                 log_locked env w (s\<lparr>s_ring := pop_next n (s_ring s)\<rparr>))
           else (False, Some out, Some 0, log_timeout w s))"
proof -
  have "min n (head (s_ring s) - tail (s_ring s)) = of_nat (min (unat n) (ring_fill (s_ring s)))"
    by (simp flip: unat_pop_count)
  then show ?thesis
    using assms
    by (simp add: sensor_log_read_def log_ops log_wf_def log_contents_def ring_buffer_pop_eq
        log_locked_def log_timeout_def held_us_def max_def not_less)
qed

lemma log_wf_locked [simp]: "log_wf (log_locked env w s) = log_wf s"
  by (simp add: log_wf_def log_locked_def)

lemma log_wf_timeout [simp]: "log_wf (log_timeout w s) = log_wf s"
  by (simp add: log_wf_def log_timeout_def)

lemma log_wf_push [wf_intros]: "log_wf s \<Longrightarrow> log_wf (s\<lparr>s_ring := push_next rec (s_ring s)\<rparr>)"
  by (simp add: log_wf_def push_next_wf)

lemma log_wf_pop [wf_intros]: "log_wf s \<Longrightarrow> log_wf (s\<lparr>s_ring := pop_next n (s_ring s)\<rparr>)"
  by (simp add: log_wf_def pop_next_wf)

lemma log_locked_ring [simp]: "s_ring (log_locked env w s) = s_ring s"
  by (simp add: log_locked_def)

lemma log_timeout_ring [simp]: "s_ring (log_timeout w s) = s_ring s"
  by (simp add: log_timeout_def)

section \<open>Runs: any interleaving of writes and reads\<close>

text \<open>
  Under the mutex, the calls of the producer and of the consumer happen one after the other in
  some order. \<open>log_run\<close> is such an order, each call with its own kernel answers; a read uses a
  fresh batch array. \<open>granted\<close> are the ring operations of the calls that got the mutex.
\<close>

datatype log_op = LogWrite log_env sensor_record_t u32 | LogRead log_env u32 u32

datatype log_out = Written bool "bool option" | ReadOut bool "sensor_record_t list"

fun log_run :: "log_op list \<Rightarrow> sensor_log_state \<Rightarrow> (log_out list \<times> sensor_log_state) option" where
  "log_run [] s = Some ([], s)"
| "log_run (LogWrite env rec w # ops) s = do {
     (ok, we, s) \<leftarrow> sensor_log_write env (Some rec) w (Some False) s;
     (outs, s) \<leftarrow> log_run ops s;
     Some (Written ok we # outs, s)
   }"
| "log_run (LogRead env n w # ops) s = do {
     (ok, buf, cnt, s) \<leftarrow>
       sensor_log_read env (Some (replicate (unat n) zero_record)) n w (Some 0) s;
     xs \<leftarrow> buf;
     k \<leftarrow> cnt;
     (outs, s) \<leftarrow> log_run ops s;
     Some (ReadOut ok (take (unat k) xs) # outs, s)
   }"

fun granted :: "log_op list \<Rightarrow> sensor_record_t fifo_op list" where
  "granted [] = []"
| "granted (LogWrite env rec w # ops) =
     (if xSemaphoreTake env w then Push rec # granted ops else granted ops)"
| "granted (LogRead env n w # ops) =
     (if xSemaphoreTake env w then Pop n # granted ops else granted ops)"

fun granted_holds :: "log_op list \<Rightarrow> u32 list" where
  "granted_holds [] = []"
| "granted_holds (LogWrite env rec w # ops) =
     (if xSemaphoreTake env w then held_us env # granted_holds ops else granted_holds ops)"
| "granted_holds (LogRead env n w # ops) =
     (if xSemaphoreTake env w then held_us env # granted_holds ops else granted_holds ops)"

fun records_read :: "log_out list \<Rightarrow> sensor_record_t list" where
  "records_read [] = []"
| "records_read (Written ok we # outs) = records_read outs"
| "records_read (ReadOut ok xs # outs) = xs @ records_read outs"

lemma unat_of_nat_min: "unat (of_nat (min (unat (n :: u32)) k) :: u32) = min (unat n) k"
  by (rule unat_of_nat_u32) (simp add: min.strict_coboundedI1)

lemma log_run_simulates:
  "log_wf s \<Longrightarrow>
     \<exists>outs s' routs. log_run ops s = Some (outs, s') \<and> log_wf s' \<and>
       fifo_run rb_push rb_pop (granted ops) (s_ring s) = (routs, s_ring s') \<and>
       records_read outs = popped_of routs \<and>
       s_lock_hold_max_us s' = fold max (granted_holds ops) (s_lock_hold_max_us s)"
proof (induction ops arbitrary: s)
  case Nil
  then show ?case by simp
next
  case (Cons opn ops)
  show ?case
  proof (cases opn)
    case (LogWrite env rec w)
    show ?thesis
    proof (cases "xSemaphoreTake env w")
      case True
      let ?s = "log_locked env w (s\<lparr>s_ring := push_next rec (s_ring s)\<rparr>)"
      have wf: "log_wf ?s" using Cons.prems by (simp add: log_wf_push)
      show ?thesis
        using Cons.IH [OF wf] True Cons.prems
        by (auto simp: LogWrite sensor_log_write_eq rb_push_eq log_wf_def Let_def split_def)
          (simp_all add: log_locked_def max.commute)
    next
      case False
      show ?thesis
        using Cons.IH [of "log_timeout w s"] False Cons.prems
        by (auto simp: LogWrite sensor_log_write_eq) (simp_all add: log_timeout_def)
    qed
  next
    case (LogRead env n w)
    show ?thesis
    proof (cases "xSemaphoreTake env w")
      case True
      let ?s = "log_locked env w (s\<lparr>s_ring := pop_next n (s_ring s)\<rparr>)"
      have wf: "log_wf ?s" using Cons.prems by (simp add: log_wf_pop)
      show ?thesis
        using Cons.IH [OF wf] True Cons.prems
        by (auto simp: LogRead sensor_log_read_eq rb_pop_eq log_wf_def Let_def split_def
            unat_of_nat_min log_contents_def take_min_fill)
          (simp_all add: log_locked_def max.commute)
    next
      case False
      show ?thesis
        using Cons.IH [of "log_timeout w s"] False Cons.prems
        by (auto simp: LogRead sensor_log_read_eq) (simp_all add: log_timeout_def)
    qed
  qed
qed

section \<open>Properties\<close>

text \<open>The module's variables as startup code leaves them.\<close>

definition log_bss :: sensor_log_state where
  "log_bss = \<lparr>s_ring = blank_ring, s_lock_hold_max_us = 0, s_log_mutex = False, mutex_calls = []\<rparr>"

lemma unat_sizeof_log_storage: "unat sizeof_log_storage = 131072"
  by (simp add: sizeof_log_storage_def APP_LOG_CAPACITY_def)

lemma ring_init_log_bss:
  "\<exists>r. ring_buffer_init (Some (s_ring log_bss)) (Some (s_log_storage log_bss)) APP_LOG_CAPACITY
         = (True, Some r) \<and> ring_wf r \<and> ring_contents r = []"
proof -
  have "is_pow2 APP_LOG_CAPACITY" by (simp add: is_pow2_def APP_LOG_CAPACITY_def)
  moreover have "unat APP_LOG_CAPACITY \<le> length (s_log_storage log_bss)"
    by (simp add: s_log_storage_def log_bss_def blank_ring_def)
  ultimately show ?thesis
    using ring_buffer_init_ok [of APP_LOG_CAPACITY "s_log_storage log_bss" "s_ring log_bss"] by blast
qed

text \<open>
  Initialising the log at startup succeeds exactly if the whole 128 KiB array lies inside
  the DDR window of the board map and the kernel could create the mutex; which of the two was
  the problem is what the status says, the window being checked first; the configured capacity
  is never rejected. After success the log is empty and ready for use.
\<close>

theorem sensor_log_init_correct:
  assumes "unat storage_first + 131072 \<le> 2 ^ 32"
    and "sensor_log_init storage_first mutex_ok log_bss = (status, s)"
  shows "status =
           (if \<not> (0x00100000 \<le> unat storage_first \<and> unat storage_first + 131071 \<le> 0x3FFFFFFF)
            then SENSOR_LOG_ERR_NOT_DDR
            else if mutex_ok then SENSOR_LOG_OK else SENSOR_LOG_ERR_NO_MUTEX) \<and>
         (status = SENSOR_LOG_OK \<longrightarrow> log_wf s \<and> log_contents s = [])"
proof -
  obtain r where r: "ring_buffer_init (Some (s_ring log_bss)) (Some (s_log_storage log_bss))
      APP_LOG_CAPACITY = (True, Some r)" "ring_wf r" "ring_contents r = []"
    using ring_init_log_bss by blast
  have eq: "storage_first + sizeof_log_storage - 1 = storage_first + 131071"
    by (simp add: sizeof_log_storage_def APP_LOG_CAPACITY_def)
  have last: "unat (storage_first + sizeof_log_storage - 1) = unat storage_first + 131071"
    using assms(1) by (simp only: eq unat_u32_add) simp
  have ddr: "storage_first < BOARD_DDR_BASE_ADDR
        \<or> storage_first + sizeof_log_storage - 1 > BOARD_DDR_HIGH_ADDR
      \<longleftrightarrow> \<not> (0x00100000 \<le> unat storage_first \<and> unat storage_first + 131071 \<le> 0x3FFFFFFF)"
    by (simp only: word_less_nat_alt last BOARD_DDR_BASE_ADDR_def BOARD_DDR_HIGH_ADDR_def) auto
  show ?thesis
    using assms(2) unfolding sensor_log_init_def Let_def ddr r(1)
    by (auto simp: log_wf_def log_contents_def r(2,3) split: if_splits)
qed

lemma sensor_log_init_correct_witness:
  "fst (sensor_log_init 0x00130DB0 True log_bss) = SENSOR_LOG_OK \<and>
   log_wf (snd (sensor_log_init 0x00130DB0 True log_bss)) \<and>
   fst (sensor_log_init 0x3FFF0000 True log_bss) = SENSOR_LOG_ERR_NOT_DDR"
  using sensor_log_init_correct [of "0x00130DB0" True]
    sensor_log_init_correct [of "0x3FFF0000" True]
  by (simp add: prod_eq_iff)

text \<open>The state after a successful initialisation, for the witnesses.\<close>

definition log_ready :: sensor_log_state where
  "log_ready = snd (sensor_log_init 0x00130DB0 True log_bss)"

lemma log_ready_init: "sensor_log_init 0x00130DB0 True log_bss = (SENSOR_LOG_OK, log_ready)"
proof -
  have "fst (sensor_log_init 0x00130DB0 True log_bss) = SENSOR_LOG_OK"
    by (simp add: sensor_log_init_def ring_buffer_init_def log_bss_def APP_LOG_CAPACITY_def
        sizeof_log_storage_def BOARD_DDR_BASE_ADDR_def BOARD_DDR_HIGH_ADDR_def
        RING_CAPACITY_MAX_def)
  then show ?thesis by (simp add: log_ready_def prod_eq_iff)
qed

lemma log_init_OK_cases:
  assumes "sensor_log_init a m log_bss = (SENSOR_LOG_OK, s)"
  shows "ring_buffer_init (Some (s_ring log_bss)) (Some (s_log_storage log_bss)) APP_LOG_CAPACITY
           = (True, Some (s_ring s))"
    and "s_lock_hold_max_us s = 0" and "mutex_calls s = []" and "log_wf s"
    and "log_contents s = []"
proof -
  obtain r where r: "ring_buffer_init (Some (s_ring log_bss)) (Some (s_log_storage log_bss))
      APP_LOG_CAPACITY = (True, Some r)" "ring_wf r" "ring_contents r = []"
    using ring_init_log_bss by blast
  show "ring_buffer_init (Some (s_ring log_bss)) (Some (s_log_storage log_bss)) APP_LOG_CAPACITY
      = (True, Some (s_ring s))"
    and "s_lock_hold_max_us s = 0" and "mutex_calls s = []" and "log_wf s"
    and "log_contents s = []"
    using assms r
    by (auto simp: sensor_log_init_def Let_def r(1) log_wf_def log_contents_def split: if_splits)
      (auto simp: log_bss_def)
qed

lemma log_ready_wf: "log_wf log_ready" and log_ready_contents: "log_contents log_ready = []"
  using log_init_OK_cases [OF log_ready_init] by simp_all

definition blank_stats :: sensor_log_stats_t where
  "blank_stats = \<lparr>stats_capacity = 0, stats_fill = 0, stats_fill_high_water = 0,
     stats_written = 0, stats_read = 0, stats_overwritten = 0, stats_lock_hold_max_us = 0\<rparr>"

text \<open>Kernel answers for the witnesses: the mutex obtained, held for 12 us; and not obtained.\<close>

definition env_ok :: log_env where
  "env_ok = \<lparr>xSemaphoreTake = (\<lambda>_. True), locked_at = 1000, unlocking_at = 1012\<rparr>"

definition env_busy :: log_env where
  "env_busy = \<lparr>xSemaphoreTake = (\<lambda>_. False), locked_at = 0, unlocking_at = 0\<rparr>"

text \<open>
  C18: A write that obtains the mutex appends the record (dropping the oldest only if the log is
  full), tells whether the log was empty before, and returns true; one that does not obtain it
  within the wait returns false and leaves the log as it was. Either way no array is left, the
  invariant is kept, and the mutex is given back exactly when it was taken.
\<close>

theorem sensor_log_write_correct:
  assumes "log_wf s"
  shows "\<exists>s' we'. sensor_log_write env (Some rec) w (Some we) s
             = Some (xSemaphoreTake env w, Some we', s') \<and> log_wf s' \<and>
           (if xSemaphoreTake env w
            then log_contents s' = snd (ref_push (unat (capacity (s_ring s))) rec (log_contents s)) \<and>
                 (we' \<longleftrightarrow> log_contents s = []) \<and>
                 mutex_calls s' = mutex_calls s @ [MutexTake w True, MutexGive]
            else s_ring s' = s_ring s \<and> we' = we \<and>
                 mutex_calls s' = mutex_calls s @ [MutexTake w False])"
proof -
  have wf: "ring_wf (s_ring s)" using assms by (simp add: log_wf_def)
  then have "ring_contents (push_next rec (s_ring s))
      = snd (ref_push (unat (capacity (s_ring s))) rec (ring_contents (s_ring s)))"
    by (simp add: push_next_contents ref_push_def)
  then show ?thesis
    using assms
    by (simp add: sensor_log_write_eq log_wf_push log_contents_def)
      (simp add: log_locked_def log_timeout_def)
qed

lemma sensor_log_write_correct_witness:
  "(\<exists>s'. sensor_log_write env_ok (Some (make_record 1)) 2 (Some False) log_ready
        = Some (True, Some True, s') \<and> log_contents s' = [make_record 1]) \<and>
   (\<exists>s'. sensor_log_write env_busy (Some (make_record 1)) 2 (Some False) log_ready
        = Some (False, Some False, s') \<and> s_ring s' = s_ring log_ready)"
proof -
  have "0 < unat (capacity (s_ring log_ready))"
    using log_ready_wf ring_wfD(7) [of "s_ring log_ready"] by (simp add: log_wf_def)
  then show ?thesis
    using sensor_log_write_correct [OF log_ready_wf, of env_ok "make_record 1" 2 False]
      sensor_log_write_correct [OF log_ready_wf, of env_busy "make_record 1" 2 False]
    by (auto simp: log_ready_contents ref_push_def env_ok_def env_busy_def)
qed

text \<open>
  C19: A read that obtains the mutex hands out the oldest records of the log, at most as many as
  asked for, in order, and removes exactly those; fewer than asked for means that it emptied the
  log. One that does not obtain the mutex returns false with a count of 0 and changes neither
  the log nor the batch array.
\<close>

theorem sensor_log_read_correct:
  assumes "log_wf s" and "unat n \<le> length out"
  shows "\<exists>out' k s'. sensor_log_read env (Some out) n w (Some c) s
             = Some (xSemaphoreTake env w, Some out', Some k, s') \<and> log_wf s' \<and>
           (if xSemaphoreTake env w
            then (take (unat k) out', log_contents s') = ref_pop n (log_contents s) \<and>
                 unat k = min (unat n) (length (log_contents s)) \<and>
                 (k < n \<longrightarrow> log_contents s' = []) \<and>
                 mutex_calls s' = mutex_calls s @ [MutexTake w True, MutexGive]
            else s_ring s' = s_ring s \<and> out' = out \<and> k = 0 \<and>
                 mutex_calls s' = mutex_calls s @ [MutexTake w False])"
proof -
  have wf: "ring_wf (s_ring s)" using assms(1) by (simp add: log_wf_def)
  have small: "of_nat (min (unat n) (length (log_contents s))) < n
      \<Longrightarrow> length (log_contents s) \<le> unat n"
    by (simp add: word_less_nat_alt unat_of_nat_min min_def split: if_splits)
  have enough: "min (unat n) (length (log_contents s)) \<le> length out" using assms(2) by simp
  show ?thesis
    using small
    by (simp add: sensor_log_read_eq [OF assms(1) enough] assms(1) log_wf_pop unat_of_nat_min
        ref_pop_def)
      (simp add: log_contents_def pop_next_contents [OF wf] take_min_fill log_locked_def
        log_timeout_def)
qed

lemma sensor_log_read_correct_witness:
  "\<exists>out' s'. sensor_log_read env_ok (Some (replicate 16 zero_record)) 16 10 (Some 5) log_ready
     = Some (True, Some out', Some 0, s') \<and> log_contents s' = [] \<and>
     mutex_calls s' = mutex_calls log_ready @ [MutexTake 10 True, MutexGive]"
  using sensor_log_read_correct [OF log_ready_wf, of 16 "replicate 16 zero_record" env_ok 10 5]
  by (auto simp: log_ready_contents ref_pop_def env_ok_def unat_eq_0)

text \<open>
  C20: Whatever the order of writes and reads since initialisation, and whichever of them obtained
  the mutex, the statistics are the truth: \<open>written\<close> is the number of records stored, \<open>read\<close> the
  number handed out, \<open>fill\<close> the number waiting, and the records stored are those read plus those
  waiting plus those counted as overwritten (counters modulo \<open>2 ^ 32\<close>); the high-water mark is
  the highest fill level and \<open>lock_hold_max_us\<close> the longest hold. The records read, followed by
  those waiting, keep the order in which they were written.
\<close>

theorem sensor_log_stats_account:
  assumes "sensor_log_init a m log_bss = (SENSOR_LOG_OK, s)" and "log_run ops s = Some (outs, s')"
    and "xSemaphoreTake env w"
  shows "\<exists>d st s''. sensor_log_get_stats env (Some st0) w s' = (True, Some st, s'') \<and>
           stats_capacity st = 4096 \<and>
           stats_written st = of_nat (length (pushed_of (granted ops))) \<and>
           stats_read st = of_nat (length (records_read outs)) \<and>
           stats_fill st = of_nat (length (log_contents s')) \<and> stats_overwritten st = of_nat d \<and>
           length (pushed_of (granted ops))
             = length (records_read outs) + length (log_contents s') + d \<and>
           subseq (records_read outs @ log_contents s') (pushed_of (granted ops)) \<and>
           unat (stats_fill_high_water st) = fold max (ref_fills 4096 (granted ops) []) 0 \<and>
           stats_lock_hold_max_us st = fold max (granted_holds ops) 0"
proof -
  note init = log_init_OK_cases [OF assms(1)]
  have cap: "unat APP_LOG_CAPACITY \<le> length (s_log_storage log_bss)"
    by (simp add: s_log_storage_def log_bss_def blank_ring_def)
  note rinit = ring_init_cases [OF init(1) cap]
  obtain routs where sim: "log_wf s'"
    "fifo_run rb_push rb_pop (granted ops) (s_ring s) = (routs, s_ring s')"
    "records_read outs = popped_of routs"
    "s_lock_hold_max_us s' = fold max (granted_holds ops) 0"
    using log_run_simulates [OF init(4), of ops] assms(2) by (auto simp: init(2))
  have run: "ring_run (granted ops) (s_ring s) = Some (routs, s_ring s')"
    by (simp add: ring_run_eq [OF rinit(1)] sim(2))
  have c: "unat APP_LOG_CAPACITY = 4096" "APP_LOG_CAPACITY = 4096"
    by (simp_all add: APP_LOG_CAPACITY_def)
  note acc = ring_run_counters [OF rinit(1) sim(2)] ring_run_high_water [OF rinit(1) sim(2)]
    rb.run_conserves [OF rinit(1) sim(2)]
  have fill: "head (s_ring s') - tail (s_ring s') = of_nat (ring_fill (s_ring s'))"
    by (simp add: ring_fill_def)
  have "s_log_mutex s'" using sim(1) by (simp add: log_wf_def)
  then show ?thesis
    using acc assms(3)
    by (auto simp: sensor_log_get_stats_def log_ops rinit c sim(3,4) log_contents_def
        ring_buffer_count_def fill intro!: exI [of _ "drops_of routs"])
qed

lemma sensor_log_stats_account_witness:
  "\<exists>outs s' st s''.
     log_run [LogWrite env_ok (make_record 1) 2, LogWrite env_busy (make_record 2) 2,
              LogRead env_ok 16 10] log_ready = Some (outs, s') \<and>
     sensor_log_get_stats env_ok (Some blank_stats) 10 s' = (True, Some st, s'') \<and>
     stats_written st = 1 \<and> stats_lock_hold_max_us st = 12"
proof -
  let ?ops = "[LogWrite env_ok (make_record 1) 2, LogWrite env_busy (make_record 2) 2,
    LogRead env_ok 16 10]"
  obtain outs s' where run: "log_run ?ops log_ready = Some (outs, s')"
    using log_run_simulates [OF log_ready_wf, of ?ops] by blast
  have env: "xSemaphoreTake env_ok 10" by (simp add: env_ok_def)
  have h: "held_us env_ok = 12" by (simp add: held_us_def env_ok_def)
  show ?thesis
    using sensor_log_stats_account [OF log_ready_init run env, of blank_stats] run
    by (auto simp: env_ok_def env_busy_def h [unfolded env_ok_def] simp del: log_run.simps)
qed

end
