(* ===== verification/Xadc.thy ===== *)
theory Xadc
  imports Sensor_Record
begin

text \<open>
  \<open>drivers/xadc_drv.c\<close>: set-up of the on-chip ADC, readout of its channels and conversion of
  raw codes. The Xilinx driver's calls are recorded in \<open>xadc_calls\<close>; what they answer, and the
  values of its channel flags, are arguments. Its channel and index names are kept as symbols.
\<close>

section \<open>The code\<close>

datatype xadc_drv_status_t =
    XADC_DRV_OK | XADC_DRV_ERR_LOOKUP | XADC_DRV_ERR_INIT | XADC_DRV_ERR_SELFTEST
  | XADC_DRV_ERR_SEQ_CONFIG

datatype xadcps_name =
    XADCPS_CH_TEMP | XADCPS_CH_VCCINT | XADCPS_CH_VCCAUX | XADCPS_CH_VBRAM
  | XADCPS_CH_VCCPINT | XADCPS_CH_VCCPAUX | XADCPS_CH_VCCPDRO

datatype xadcps_minmax =
    XADCPS_MIN_TEMP | XADCPS_MIN_VCCINT | XADCPS_MIN_VCCAUX | XADCPS_MIN_VBRAM
  | XADCPS_MIN_VCCPINT | XADCPS_MIN_VCCPAUX | XADCPS_MIN_VCCPDRO
  | XADCPS_MAX_TEMP | XADCPS_MAX_VCCINT | XADCPS_MAX_VCCAUX | XADCPS_MAX_VBRAM
  | XADCPS_MAX_VCCPINT | XADCPS_MAX_VCCPAUX | XADCPS_MAX_VCCPDRO

datatype xadcps_seq_flag =
    XADCPS_SEQ_CH_CALIB | XADCPS_SEQ_CH_TEMP | XADCPS_SEQ_CH_VCCINT | XADCPS_SEQ_CH_VCCAUX
  | XADCPS_SEQ_CH_VBRAM | XADCPS_SEQ_CH_VCCPINT | XADCPS_SEQ_CH_VCCPAUX | XADCPS_SEQ_CH_VCCPDRO

datatype xadcps_seq_mode = XADCPS_SEQ_MODE_SAFE | XADCPS_SEQ_MODE_CONTINPASS

datatype xadcps_call =
    XAdcPs_SetSequencerMode xadcps_seq_mode
  | XAdcPs_SetCalibEnables_ps_and_adc
  | XAdcPs_SetAvg_16_samples
  | XAdcPs_SetSeqAvgEnables u32
  | XAdcPs_SetSeqChEnables u32

record xadc_state =
  s_xadc_ready :: bool
  xadc_calls :: "xadcps_call list"

text \<open>What the driver calls of \<open>xadc_drv_init\<close> answer: \<open>True\<close> is an entry, or \<open>XST_SUCCESS\<close>.\<close>

record xadc_init_env =
  XAdcPs_LookupConfig_ok :: bool
  XAdcPs_CfgInitialize_ok :: bool
  XAdcPs_SelfTest_ok :: bool
  XAdcPs_SetSeqAvgEnables_ok :: bool
  XAdcPs_SetSeqChEnables_ok :: bool

definition XADC_RESULT_SHIFT :: nat where "XADC_RESULT_SHIFT = 4"
definition XADC_CODE_FULL_SCALE :: u32 where "XADC_CODE_FULL_SCALE = 4096"
definition XADC_TEMP_GAIN_MILLI :: u32 where "XADC_TEMP_GAIN_MILLI = 503975"
definition XADC_TEMP_OFFSET_MILLI :: int where "XADC_TEMP_OFFSET_MILLI = 273150"
definition XADC_SUPPLY_FS_MV :: u32 where "XADC_SUPPLY_FS_MV = 3000"

definition XADC_SEQ_CHANNELS :: "(xadcps_seq_flag \<Rightarrow> u32) \<Rightarrow> u32" where
  "XADC_SEQ_CHANNELS f =
     f XADCPS_SEQ_CH_CALIB OR f XADCPS_SEQ_CH_TEMP OR f XADCPS_SEQ_CH_VCCINT OR
     f XADCPS_SEQ_CH_VCCAUX OR f XADCPS_SEQ_CH_VBRAM OR f XADCPS_SEQ_CH_VCCPINT OR
     f XADCPS_SEQ_CH_VCCPAUX OR f XADCPS_SEQ_CH_VCCPDRO"

definition XADC_SEQ_AVG_CHANNELS :: "(xadcps_seq_flag \<Rightarrow> u32) \<Rightarrow> u32" where
  "XADC_SEQ_AVG_CHANNELS f = XADC_SEQ_CHANNELS f AND NOT (f XADCPS_SEQ_CH_CALIB)"

record xadc_sensor_desc_t =
  desc_name :: string
  adc_channel :: xadcps_name
  min_index :: xadcps_minmax
  max_index :: xadcps_minmax
  is_temperature :: bool

definition s_sensor_desc :: "xadc_sensor_desc_t list" where
  "s_sensor_desc =
     [\<lparr>desc_name = ''Die temp'', adc_channel = XADCPS_CH_TEMP, min_index = XADCPS_MIN_TEMP,
       max_index = XADCPS_MAX_TEMP, is_temperature = True\<rparr>,
      \<lparr>desc_name = ''VCCINT'', adc_channel = XADCPS_CH_VCCINT, min_index = XADCPS_MIN_VCCINT,
       max_index = XADCPS_MAX_VCCINT, is_temperature = False\<rparr>,
      \<lparr>desc_name = ''VCCAUX'', adc_channel = XADCPS_CH_VCCAUX, min_index = XADCPS_MIN_VCCAUX,
       max_index = XADCPS_MAX_VCCAUX, is_temperature = False\<rparr>,
      \<lparr>desc_name = ''VCCBRAM'', adc_channel = XADCPS_CH_VBRAM, min_index = XADCPS_MIN_VBRAM,
       max_index = XADCPS_MAX_VBRAM, is_temperature = False\<rparr>,
      \<lparr>desc_name = ''VCCPINT'', adc_channel = XADCPS_CH_VCCPINT, min_index = XADCPS_MIN_VCCPINT,
       max_index = XADCPS_MAX_VCCPINT, is_temperature = False\<rparr>,
      \<lparr>desc_name = ''VCCPAUX'', adc_channel = XADCPS_CH_VCCPAUX, min_index = XADCPS_MIN_VCCPAUX,
       max_index = XADCPS_MAX_VCCPAUX, is_temperature = False\<rparr>,
      \<lparr>desc_name = ''VCCO_DDR'', adc_channel = XADCPS_CH_VCCPDRO, min_index = XADCPS_MIN_VCCPDRO,
       max_index = XADCPS_MAX_VCCPDRO, is_temperature = False\<rparr>]"

definition sensor_desc :: "xadc_sensor_t \<Rightarrow> xadc_sensor_desc_t" where
  "sensor_desc sensor = s_sensor_desc ! xadc_sensor_index sensor"

definition xadc_call :: "xadcps_call \<Rightarrow> xadc_state \<Rightarrow> xadc_state" where
  "xadc_call c s = s\<lparr>xadc_calls := xadc_calls s @ [c]\<rparr>"

definition xadc_drv_init ::
  "(xadcps_seq_flag \<Rightarrow> u32) \<Rightarrow> xadc_init_env \<Rightarrow> xadc_state \<Rightarrow> xadc_drv_status_t \<times> xadc_state" where
  "xadc_drv_init flags env s =
     (let s = s\<lparr>s_xadc_ready := False\<rparr>
      in if \<not> XAdcPs_LookupConfig_ok env then (XADC_DRV_ERR_LOOKUP, s)
      else if \<not> XAdcPs_CfgInitialize_ok env then (XADC_DRV_ERR_INIT, s)
      else if \<not> XAdcPs_SelfTest_ok env then (XADC_DRV_ERR_SELFTEST, s)
      else let s = xadc_call (XAdcPs_SetSequencerMode XADCPS_SEQ_MODE_SAFE) s;
               s = xadc_call XAdcPs_SetCalibEnables_ps_and_adc s;
               s = xadc_call XAdcPs_SetAvg_16_samples s;
               s = xadc_call (XAdcPs_SetSeqAvgEnables (XADC_SEQ_AVG_CHANNELS flags)) s
      in if \<not> XAdcPs_SetSeqAvgEnables_ok env then (XADC_DRV_ERR_SEQ_CONFIG, s)
      else let s = xadc_call (XAdcPs_SetSeqChEnables (XADC_SEQ_CHANNELS flags)) s
      in if \<not> XAdcPs_SetSeqChEnables_ok env then (XADC_DRV_ERR_SEQ_CONFIG, s)
      else let s = xadc_call (XAdcPs_SetSequencerMode XADCPS_SEQ_MODE_CONTINPASS) s
      in (XADC_DRV_OK, s\<lparr>s_xadc_ready := True\<rparr>))"

definition xadc_drv_read_raw ::
  "(xadcps_name \<Rightarrow> u16) \<Rightarrow> xadc_state \<Rightarrow> xadc_sensor_t \<Rightarrow> u16" where
  "xadc_drv_read_raw XAdcPs_GetAdcData s sensor =
     (if \<not> s_xadc_ready s \<or> sensor \<ge> XADC_SENSOR_COUNT then 0
      else drop_bit XADC_RESULT_SHIFT (XAdcPs_GetAdcData (adc_channel (sensor_desc sensor))))"

definition xadc_drv_read_all ::
  "(xadcps_name \<Rightarrow> u16) \<Rightarrow> xadc_state \<Rightarrow> xadc_sample_t option \<Rightarrow> xadc_sample_t option" where
  "xadc_drv_read_all XAdcPs_GetAdcData s sample_out =
     (case sample_out of None \<Rightarrow> None
      | Some out \<Rightarrow> Some (fold (\<lambda>sensor o'.
            o'\<lparr>raw_code := (raw_code o')[sensor :=
                 xadc_drv_read_raw XAdcPs_GetAdcData s (xadc_sensor_of sensor)]\<rparr>)
          [0..<xadc_sensor_count] out))"

definition xadc_drv_read_min_max ::
  "(xadcps_minmax \<Rightarrow> u16) \<Rightarrow> xadc_state \<Rightarrow> xadc_sensor_t \<Rightarrow> u16 option \<Rightarrow> u16 option
     \<Rightarrow> u16 option \<times> u16 option" where
  "xadc_drv_read_min_max XAdcPs_GetMinMaxMeasurement s sensor min_code_out max_code_out =
     (if min_code_out = None \<or> max_code_out = None then (min_code_out, max_code_out)
      else if \<not> s_xadc_ready s \<or> sensor \<ge> XADC_SENSOR_COUNT then (Some 0, Some 0)
      else (Some (drop_bit XADC_RESULT_SHIFT
                    (XAdcPs_GetMinMaxMeasurement (min_index (sensor_desc sensor)))),
            Some (drop_bit XADC_RESULT_SHIFT
                    (XAdcPs_GetMinMaxMeasurement (max_index (sensor_desc sensor))))))"

text \<open>\<open>int32_t\<close> results are \<open>int\<close>s; \<open>sint\<close> is the cast of a \<open>uint32_t\<close> to it.\<close>

definition xadc_drv_code_to_milli :: "xadc_sensor_t \<Rightarrow> u16 \<Rightarrow> int" where
  "xadc_drv_code_to_milli sensor raw =
     (if sensor \<ge> XADC_SENSOR_COUNT then 0
      else if is_temperature (sensor_desc sensor)
      then let scaled = (ucast raw * XADC_TEMP_GAIN_MILLI + XADC_CODE_FULL_SCALE div 2)
                        div XADC_CODE_FULL_SCALE
           in sint scaled - XADC_TEMP_OFFSET_MILLI
      else let scaled = (ucast raw * XADC_SUPPLY_FS_MV + XADC_CODE_FULL_SCALE div 2)
                        div XADC_CODE_FULL_SCALE
           in sint scaled)"

definition xadc_drv_is_temperature :: "xadc_sensor_t \<Rightarrow> bool" where
  "xadc_drv_is_temperature sensor \<longleftrightarrow>
     sensor < XADC_SENSOR_COUNT \<and> is_temperature (sensor_desc sensor)"

definition xadc_drv_sensor_name :: "xadc_sensor_t \<Rightarrow> string" where
  "xadc_drv_sensor_name sensor =
     (if sensor < XADC_SENSOR_COUNT then desc_name (sensor_desc sensor) else ''?'')"

definition xadc_drv_sensor_unit :: "xadc_sensor_t \<Rightarrow> string" where
  "xadc_drv_sensor_unit sensor = (if xadc_drv_is_temperature sensor then ''C'' else ''V'')"

section \<open>Reading\<close>

lemma unat_code_12_bit: "unat (drop_bit 4 (x :: u16)) \<le> 4095"
proof -
  have "unat (drop_bit 4 x) = unat x div 16"
    by (simp add: drop_bit_eq_div unat_div_distrib)
  then show ?thesis using unat_u16_lt [of x] by linarith
qed

lemma read_raw_12_bit: "unat (xadc_drv_read_raw adc s sensor) \<le> 4095"
  using unat_code_12_bit by (simp add: xadc_drv_read_raw_def XADC_RESULT_SHIFT_def)

lemma fold_update_all:
  "fold (\<lambda>i r. r\<lparr>raw_code := (raw_code r)[i := f i]\<rparr>) [0..<n] out
     = out\<lparr>raw_code := map f [0..<min n (length (raw_code out))] @ drop n (raw_code out)\<rparr>"
proof (induction n)
  case 0
  then show ?case by simp
next
  case (Suc n)
  show ?case
  proof (cases "n < length (raw_code out)")
    case True
    then have "drop n (raw_code out) = raw_code out ! n # drop (Suc n) (raw_code out)"
      by (rule Cons_nth_drop_Suc [symmetric])
    with True Suc show ?thesis
      by (simp add: list_update_append min_def Suc_le_eq)
  next
    case False
    with Suc show ?thesis
      by (simp add: min_absorb2 list_update_beyond)
  qed
qed

lemma read_all_eq:
  "length (raw_code out) = 7 \<Longrightarrow> xadc_drv_read_all adc s (Some out)
     = Some (out\<lparr>raw_code := map (\<lambda>i. xadc_drv_read_raw adc s (xadc_sensor_of i)) [0..<7]\<rparr>)"
  by (simp add: xadc_drv_read_all_def fold_update_all del: upt_rec_numeral)

section \<open>Conversion\<close>

text \<open>Both transfer functions are a scaling by \<open>g / 4096\<close>, rounded to nearest.\<close>

lemma scale_unat:
  assumes "unat raw \<le> 4095" and "unat g \<le> 503975"
  shows "unat ((ucast (raw :: u16) * g + 4096 div 2) div (4096 :: u32))
           = (unat raw * unat g + 2048) div 4096"
proof -
  have "unat raw * unat g \<le> 4095 * 503975" using assms by (rule mult_le_mono)
  then have "unat raw * unat g + 2048 < 4294967296" by simp
  moreover have "unat (ucast raw :: u32) = unat raw"
    by (simp add: unsigned_ucast_eq take_bit_eq_mod less_trans [OF unat_u16_lt])
  ultimately show ?thesis
    by (simp add: unat_word_ariths unat_div_distrib)
qed

lemma scale_sint:
  assumes "unat raw \<le> 4095" and "unat g \<le> 503975"
  shows "sint ((ucast (raw :: u16) * g + 4096 div 2) div (4096 :: u32))
           = int ((unat raw * unat g + 2048) div 4096)"
proof -
  have "unat raw * unat g \<le> 4095 * 503975" using assms by (rule mult_le_mono)
  then have "(unat raw * unat g + 2048) div 4096 < 2147483648" by simp
  then show ?thesis
    using scale_unat [OF assms] by (subst sint_u32_small) simp_all
qed

lemma code_to_milli_eq:
  assumes "unat raw \<le> 4095"
  shows "xadc_drv_code_to_milli sensor raw =
    (if sensor = XADC_SENSOR_COUNT then 0
     else if sensor = XADC_SENSOR_DIE_TEMP
     then int ((unat raw * 503975 + 2048) div 4096) - 273150
     else int ((unat raw * 3000 + 2048) div 4096))"
  using scale_sint [OF assms, of 503975] scale_sint [OF assms, of 3000]
  by (cases sensor)
    (simp_all add: xadc_drv_code_to_milli_def sensor_desc_def s_sensor_desc_def Let_def
      less_eq_xadc_sensor_t_def XADC_TEMP_GAIN_MILLI_def XADC_CODE_FULL_SCALE_def
      XADC_TEMP_OFFSET_MILLI_def XADC_SUPPLY_FS_MV_def)

section \<open>Properties\<close>

text \<open>Rounded division by 4096 misses by at most half of it.\<close>

lemma round_4096: "\<bar>4096 * int ((n + 2048) div 4096) - int n\<bar> \<le> 2048"
proof -
  have "4096 * ((n + 2048) div 4096) + (n + 2048) mod 4096 = n + 2048"
    by (rule mult_div_mod_eq)
  moreover have "(n + 2048) mod 4096 < 4096" by simp
  ultimately have "4096 * ((n + 2048) div 4096) \<le> n + 2048"
    and "n \<le> 4096 * ((n + 2048) div 4096) + 2048" by linarith+
  then show ?thesis by (simp add: abs_le_iff)
qed

text \<open>
  C29: For every 12-bit code the conversion is the data sheet's transfer function rounded to the
  nearest milli-unit, without overflow of the 32-bit arithmetic: the error is at most half a
  milli-unit (half of 4096 after scaling), temperatures lie between -273150 and 230702
  milli-degrees and supplies between 0 and 2999 mV, and a higher code never converts to a lower
  value. An unknown sensor converts to 0.
\<close>

theorem xadc_conversion_nearest:
  assumes "unat raw \<le> 4095"
  shows "(sensor = XADC_SENSOR_DIE_TEMP \<longrightarrow>
            \<bar>4096 * (xadc_drv_code_to_milli sensor raw + 273150) - 503975 * int (unat raw)\<bar> \<le> 2048 \<and>
            -273150 \<le> xadc_drv_code_to_milli sensor raw \<and>
            xadc_drv_code_to_milli sensor raw \<le> 230702) \<and>
         (sensor \<noteq> XADC_SENSOR_DIE_TEMP \<and> sensor \<noteq> XADC_SENSOR_COUNT \<longrightarrow>
            \<bar>4096 * xadc_drv_code_to_milli sensor raw - 3000 * int (unat raw)\<bar> \<le> 2048 \<and>
            0 \<le> xadc_drv_code_to_milli sensor raw \<and>
            xadc_drv_code_to_milli sensor raw \<le> 2999) \<and>
         (sensor = XADC_SENSOR_COUNT \<longrightarrow> xadc_drv_code_to_milli sensor raw = 0) \<and>
         (raw' \<le> raw \<longrightarrow> xadc_drv_code_to_milli sensor raw' \<le> xadc_drv_code_to_milli sensor raw)"
proof -
  have le: "(unat raw * g + 2048) div 4096 \<le> (4095 * g + 2048) div 4096" for g
    using assms by (intro div_le_mono add_le_mono mult_le_mono1) simp_all
  have mono: "raw' \<le> raw \<Longrightarrow>
      xadc_drv_code_to_milli sensor raw' \<le> xadc_drv_code_to_milli sensor raw"
  proof -
    assume "raw' \<le> raw"
    then have le': "unat raw' \<le> unat raw" by (simp add: word_le_nat_alt)
    then have "(unat raw' * g + 2048) div 4096 \<le> (unat raw * g + 2048) div 4096" for g
      by (intro div_le_mono add_le_mono mult_le_mono1) simp_all
    moreover have "unat raw' \<le> 4095" using le' assms by simp
    ultimately show ?thesis using assms by (simp add: code_to_milli_eq)
  qed
  have t: "int ((unat raw * 503975 + 2048) div 4096) \<le> 503852"
    and v: "int ((unat raw * 3000 + 2048) div 4096) \<le> 2999"
    using le [of 503975] le [of 3000] by simp_all
  show ?thesis
    using mono t v round_4096 [of "unat raw * 503975"] round_4096 [of "unat raw * 3000"]
    by (simp add: code_to_milli_eq [OF assms] mult.commute)
qed

lemma xadc_conversion_nearest_witness:
  "\<bar>4096 * (xadc_drv_code_to_milli XADC_SENSOR_DIE_TEMP 2589 + 273150) - 503975 * 2589\<bar> \<le> 2048 \<and>
   xadc_drv_code_to_milli XADC_SENSOR_VCCINT 1365 \<le> xadc_drv_code_to_milli XADC_SENSOR_VCCINT 1366"
  using xadc_conversion_nearest [of 2589 XADC_SENSOR_DIE_TEMP 0]
    xadc_conversion_nearest [of 1366 XADC_SENSOR_VCCINT 1365]
  by simp

text \<open>
  A snapshot fills all seven elements of the sample and nothing else: for an initialised
  driver element \<open>i\<close> is the top 12 bits of what the ADC reports for the channel of sensor \<open>i\<close>,
  otherwise 0. So every code of a sample is a 12-bit code, which the conversion handles exactly.
\<close>

theorem xadc_read_all_codes:
  assumes "length (raw_code out) = 7"
  shows "\<exists>out'. xadc_drv_read_all adc s (Some out) = Some out' \<and> length (raw_code out') = 7 \<and>
           (\<forall>i<7. raw_code out' ! i =
              (if s_xadc_ready s then drop_bit 4 (adc (adc_channel (sensor_desc (xadc_sensor_of i))))
               else 0)) \<and>
           (\<forall>c\<in>set (raw_code out'). unat c \<le> 4095)"
proof -
  have below: "\<not> XADC_SENSOR_COUNT \<le> xadc_sensor_of i" if "i < 7" for i
    using that xadc_sensor_index_of [of i] by (simp add: less_eq_xadc_sensor_t_def)
  have codes: "\<forall>i<7. (map (\<lambda>i. xadc_drv_read_raw adc s (xadc_sensor_of i)) [0..<7]) ! i =
      (if s_xadc_ready s then drop_bit 4 (adc (adc_channel (sensor_desc (xadc_sensor_of i)))) else 0)"
    using below by (simp add: xadc_drv_read_raw_def XADC_RESULT_SHIFT_def del: upt_rec_numeral)
  show ?thesis
    unfolding read_all_eq [OF assms]
    using codes by (simp add: unat_code_12_bit read_raw_12_bit del: upt_rec_numeral)
qed

lemma xadc_read_all_codes_witness:
  "\<exists>out'. xadc_drv_read_all (\<lambda>c. if c = XADCPS_CH_TEMP then 0xA1DF else 0x5555)
      \<lparr>s_xadc_ready = True, xadc_calls = []\<rparr> (Some zero_sample) = Some out' \<and>
      raw_code out' ! 0 = 0xA1D \<and> raw_code out' ! 6 = 0x555"
proof -
  have len: "length (raw_code zero_sample) = 7" by (simp add: zero_sample_def)
  show ?thesis
    using xadc_read_all_codes [OF len, of "\<lambda>c. if c = XADCPS_CH_TEMP then 0xA1DF else 0x5555"
        "\<lparr>s_xadc_ready = True, xadc_calls = []\<rparr>"]
    by (auto simp: xadc_sensor_of_def sensor_desc_def s_sensor_desc_def)
qed

text \<open>
  The ADC is declared ready exactly if every driver call of the set-up succeeded, and then
  the calls made were: sequencer parked in safe mode, calibration, averaging, the averaging and
  channel selections, and only after all of them the continuous mode. After any failure the
  status names the step, the driver stays not ready and continuous mode was not entered.
\<close>

theorem xadc_init_sequence:
  assumes "xadc_drv_init flags env s = (status, s')"
  shows "(s_xadc_ready s' \<longleftrightarrow> status = XADC_DRV_OK) \<and>
         (status = XADC_DRV_OK \<longleftrightarrow>
            XAdcPs_LookupConfig_ok env \<and> XAdcPs_CfgInitialize_ok env \<and> XAdcPs_SelfTest_ok env \<and>
            XAdcPs_SetSeqAvgEnables_ok env \<and> XAdcPs_SetSeqChEnables_ok env) \<and>
         (status = XADC_DRV_OK \<longrightarrow> xadc_calls s' = xadc_calls s @
            [XAdcPs_SetSequencerMode XADCPS_SEQ_MODE_SAFE, XAdcPs_SetCalibEnables_ps_and_adc,
             XAdcPs_SetAvg_16_samples, XAdcPs_SetSeqAvgEnables (XADC_SEQ_AVG_CHANNELS flags),
             XAdcPs_SetSeqChEnables (XADC_SEQ_CHANNELS flags),
             XAdcPs_SetSequencerMode XADCPS_SEQ_MODE_CONTINPASS]) \<and>
         (status \<noteq> XADC_DRV_OK \<longrightarrow>
            (\<exists>new. xadc_calls s' = xadc_calls s @ new \<and>
                   XAdcPs_SetSequencerMode XADCPS_SEQ_MODE_CONTINPASS \<notin> set new))"
  using assms
  by (auto simp: xadc_drv_init_def xadc_call_def Let_def split: if_splits)

lemma xadc_init_sequence_witness:
  "\<exists>s'. xadc_drv_init (\<lambda>_. 1) \<lparr>XAdcPs_LookupConfig_ok = True, XAdcPs_CfgInitialize_ok = True,
       XAdcPs_SelfTest_ok = False, XAdcPs_SetSeqAvgEnables_ok = True,
       XAdcPs_SetSeqChEnables_ok = True\<rparr> \<lparr>s_xadc_ready = True, xadc_calls = []\<rparr>
     = (XADC_DRV_ERR_SELFTEST, s') \<and> \<not> s_xadc_ready s'"
proof -
  let ?env = "\<lparr>XAdcPs_LookupConfig_ok = True, XAdcPs_CfgInitialize_ok = True,
    XAdcPs_SelfTest_ok = False, XAdcPs_SetSeqAvgEnables_ok = True,
    XAdcPs_SetSeqChEnables_ok = True\<rparr>"
  obtain s' where s': "xadc_drv_init (\<lambda>_. 1) ?env \<lparr>s_xadc_ready = True, xadc_calls = []\<rparr>
      = (XADC_DRV_ERR_SELFTEST, s')"
    by (simp add: xadc_drv_init_def Let_def)
  then show ?thesis using xadc_init_sequence [OF s'] by auto
qed

end
