(* ===== verification/Slcr.thy ===== *)
theory Slcr
  imports Prelude
begin

text \<open>
  \<open>drivers/slcr.c\<close>: access to the System Level Control Registers through \<open>Xil_In32\<close> and
  \<open>Xil_Out32\<close>, which are parameters over a state \<open>'h\<close> of the hardware, bundled in \<open>slcr_io\<close>
  with the base address of the vendor header. \<open>slcr_registers\<close> is what the reference manual
  documents about the lock and about plain read/write registers, and what the code relies on.
\<close>

section \<open>The code\<close>

record 'h slcr_io =
  Xil_In32 :: "u32 \<Rightarrow> 'h \<Rightarrow> u32"
  Xil_Out32 :: "u32 \<Rightarrow> u32 \<Rightarrow> 'h \<Rightarrow> 'h"
  XPS_SYS_CTRL_BASEADDR :: u32

definition SLCR_LOCK_OFFSET :: u32 where "SLCR_LOCK_OFFSET = 0x004"
definition SLCR_UNLOCK_OFFSET :: u32 where "SLCR_UNLOCK_OFFSET = 0x008"
definition SLCR_LOCKSTA_OFFSET :: u32 where "SLCR_LOCKSTA_OFFSET = 0x00C"
definition SLCR_LOCK_KEY :: u32 where "SLCR_LOCK_KEY = 0x767B"
definition SLCR_UNLOCK_KEY :: u32 where "SLCR_UNLOCK_KEY = 0xDF0D"
definition SLCR_LOCKSTA_LOCKED_MASK :: u32 where "SLCR_LOCKSTA_LOCKED_MASK = 0x1"

definition SLCR_MIO_PIN_OFFSET :: "u32 \<Rightarrow> u32" where
  "SLCR_MIO_PIN_OFFSET pin = 0x700 + (4 * pin)"

definition SLCR_MIO_PIN_PULLUP_MASK :: u32 where "SLCR_MIO_PIN_PULLUP_MASK = 0x00001000"
definition SLCR_REBOOT_STATUS_OFFSET :: u32 where "SLCR_REBOOT_STATUS_OFFSET = 0x258"

definition slcr_read :: "'h slcr_io \<Rightarrow> u32 \<Rightarrow> 'h \<Rightarrow> u32" where
  "slcr_read io offset h = Xil_In32 io (XPS_SYS_CTRL_BASEADDR io + offset) h"

definition slcr_modify :: "'h slcr_io \<Rightarrow> u32 \<Rightarrow> u32 \<Rightarrow> u32 \<Rightarrow> 'h \<Rightarrow> 'h" where
  "slcr_modify io offset clear_mask set_mask h =
     (let base = XPS_SYS_CTRL_BASEADDR io;
          was_locked = (Xil_In32 io (base + SLCR_LOCKSTA_OFFSET) h AND SLCR_LOCKSTA_LOCKED_MASK \<noteq> 0);
          h = (if was_locked then Xil_Out32 io (base + SLCR_UNLOCK_OFFSET) SLCR_UNLOCK_KEY h else h);
          value = Xil_In32 io (base + offset) h;
          value = (value AND NOT clear_mask) OR set_mask;
          h = Xil_Out32 io (base + offset) value h
      in if was_locked then Xil_Out32 io (base + SLCR_LOCK_OFFSET) SLCR_LOCK_KEY h else h)"

section \<open>The registers\<close>

definition slcr_locked :: "'h slcr_io \<Rightarrow> 'h \<Rightarrow> bool" where
  "slcr_locked io h \<longleftrightarrow> slcr_read io SLCR_LOCKSTA_OFFSET h AND SLCR_LOCKSTA_LOCKED_MASK \<noteq> 0"

text \<open>A plain read/write register: none of the three registers of the lock.\<close>

definition slcr_plain :: "u32 \<Rightarrow> bool" where
  "slcr_plain o' \<longleftrightarrow> o' \<noteq> SLCR_LOCK_OFFSET \<and> o' \<noteq> SLCR_UNLOCK_OFFSET \<and> o' \<noteq> SLCR_LOCKSTA_OFFSET"

text \<open>
  The key written to the unlock register clears the lock and the key written to the lock register
  sets it, either leaving every plain register alone. An unlocked write to one of the plain
  registers \<open>R\<close> is what is read there afterwards, and leaves the lock and every other plain
  register alone. Nothing is said of a locked write.
\<close>

definition slcr_registers :: "u32 set \<Rightarrow> 'h slcr_io \<Rightarrow> bool" where
  "slcr_registers R io \<longleftrightarrow>
     (\<forall>r\<in>R. slcr_plain r) \<and>
     (\<forall>h. let h' = Xil_Out32 io (XPS_SYS_CTRL_BASEADDR io + SLCR_UNLOCK_OFFSET) SLCR_UNLOCK_KEY h
          in \<not> slcr_locked io h' \<and> (\<forall>r. slcr_plain r \<longrightarrow> slcr_read io r h' = slcr_read io r h)) \<and>
     (\<forall>h. let h' = Xil_Out32 io (XPS_SYS_CTRL_BASEADDR io + SLCR_LOCK_OFFSET) SLCR_LOCK_KEY h
          in slcr_locked io h' \<and> (\<forall>r. slcr_plain r \<longrightarrow> slcr_read io r h' = slcr_read io r h)) \<and>
     (\<forall>h. \<forall>r\<in>R. \<forall>v. \<not> slcr_locked io h \<longrightarrow>
          (let h' = Xil_Out32 io (XPS_SYS_CTRL_BASEADDR io + r) v h
           in \<not> slcr_locked io h' \<and> slcr_read io r h' = v \<and>
              (\<forall>q. slcr_plain q \<and> q \<noteq> r \<longrightarrow> slcr_read io q h' = slcr_read io q h)))"

lemma slcr_registersD:
  assumes "slcr_registers R io"
  shows "r \<in> R \<Longrightarrow> slcr_plain r"
    and "\<not> slcr_locked io (Xil_Out32 io (XPS_SYS_CTRL_BASEADDR io + SLCR_UNLOCK_OFFSET) SLCR_UNLOCK_KEY h)"
    and "slcr_plain r \<Longrightarrow> slcr_read io r (Xil_Out32 io (XPS_SYS_CTRL_BASEADDR io + SLCR_UNLOCK_OFFSET)
           SLCR_UNLOCK_KEY h) = slcr_read io r h"
    and "slcr_locked io (Xil_Out32 io (XPS_SYS_CTRL_BASEADDR io + SLCR_LOCK_OFFSET) SLCR_LOCK_KEY h)"
    and "slcr_plain r \<Longrightarrow> slcr_read io r (Xil_Out32 io (XPS_SYS_CTRL_BASEADDR io + SLCR_LOCK_OFFSET)
           SLCR_LOCK_KEY h) = slcr_read io r h"
    and "\<not> slcr_locked io h \<Longrightarrow> r \<in> R \<Longrightarrow> \<not> slcr_locked io (Xil_Out32 io (XPS_SYS_CTRL_BASEADDR io + r) v h)"
    and "\<not> slcr_locked io h \<Longrightarrow> r \<in> R \<Longrightarrow> slcr_read io r (Xil_Out32 io (XPS_SYS_CTRL_BASEADDR io + r) v h) = v"
    and "\<not> slcr_locked io h \<Longrightarrow> r \<in> R \<Longrightarrow> slcr_plain q \<Longrightarrow> q \<noteq> r \<Longrightarrow>
           slcr_read io q (Xil_Out32 io (XPS_SYS_CTRL_BASEADDR io + r) v h) = slcr_read io q h"
  using assms by (simp_all add: slcr_registers_def Let_def)

text \<open>An instance: a lock bit and an array of registers.\<close>

definition slcr_bank :: "(bool \<times> (u32 \<Rightarrow> u32)) slcr_io" where
  "slcr_bank = \<lparr>Xil_In32 = (\<lambda>a (locked, m). if a = SLCR_LOCKSTA_OFFSET then (if locked then 1 else 0) else m a),
     Xil_Out32 = (\<lambda>a v (locked, m).
       if a = SLCR_LOCK_OFFSET then (locked \<or> v = SLCR_LOCK_KEY, m)
       else if a = SLCR_UNLOCK_OFFSET then (locked \<and> v \<noteq> SLCR_UNLOCK_KEY, m)
       else if a = SLCR_LOCKSTA_OFFSET \<or> locked then (locked, m)
       else (locked, m(a := v))),
     XPS_SYS_CTRL_BASEADDR = 0\<rparr>"

lemma slcr_bank_read: "slcr_plain r \<Longrightarrow> slcr_read slcr_bank r (l, m) = m r"
  by (simp add: slcr_bank_def slcr_read_def slcr_plain_def)

lemma slcr_bank_locked [simp]: "slcr_locked slcr_bank (l, m) = l"
  by (simp add: slcr_bank_def slcr_locked_def slcr_read_def SLCR_LOCKSTA_LOCKED_MASK_def)

lemma slcr_bank_registers: "\<forall>r\<in>R. slcr_plain r \<Longrightarrow> slcr_registers R slcr_bank"
  unfolding slcr_registers_def
proof (intro conjI allI ballI, simp, goal_cases)
  case (1 h)
  obtain l m where h: "h = (l, m)" by fastforce
  have "Xil_Out32 slcr_bank (XPS_SYS_CTRL_BASEADDR slcr_bank + SLCR_UNLOCK_OFFSET) SLCR_UNLOCK_KEY h = (False, m)"
    by (simp add: h slcr_bank_def SLCR_UNLOCK_OFFSET_def SLCR_LOCK_OFFSET_def)
  then show ?case by (simp add: h slcr_bank_read)
next
  case (2 h)
  obtain l m where h: "h = (l, m)" by fastforce
  have "Xil_Out32 slcr_bank (XPS_SYS_CTRL_BASEADDR slcr_bank + SLCR_LOCK_OFFSET) SLCR_LOCK_KEY h = (True, m)"
    by (simp add: h slcr_bank_def)
  then show ?case by (simp add: h slcr_bank_read)
next
  case (3 h r v)
  obtain l m where h: "h = (l, m)" by fastforce
  show ?case
  proof (rule impI)
    assume "\<not> slcr_locked slcr_bank h"
    with h have l: "\<not> l" by simp
    have "slcr_plain r" using 3 by simp
    then have "Xil_Out32 slcr_bank (XPS_SYS_CTRL_BASEADDR slcr_bank + r) v h = (False, m(r := v))"
      using l by (simp add: h slcr_bank_def slcr_plain_def)
    with \<open>slcr_plain r\<close> show
      "let h' = Xil_Out32 slcr_bank (XPS_SYS_CTRL_BASEADDR slcr_bank + r) v h
       in \<not> slcr_locked slcr_bank h' \<and> slcr_read slcr_bank r h' = v \<and>
          (\<forall>q. slcr_plain q \<and> q \<noteq> r \<longrightarrow> slcr_read slcr_bank q h' = slcr_read slcr_bank q h)"
      by (simp add: h slcr_bank_read)
  qed
qed

section \<open>Properties\<close>

lemma slcr_modify_eq:
  assumes "slcr_registers R io" "r \<in> R"
  shows "slcr_read io r (slcr_modify io r clr st h) = (slcr_read io r h AND NOT clr) OR st"
    and "slcr_plain q \<Longrightarrow> q \<noteq> r \<Longrightarrow> slcr_read io q (slcr_modify io r clr st h) = slcr_read io q h"
    and "slcr_locked io (slcr_modify io r clr st h) = slcr_locked io h"
proof -
  note [simp] = slcr_registersD [OF assms(1)] assms(2) slcr_registersD(1) [OF assms]
  have mod: "slcr_modify io r clr st h =
     (let base = XPS_SYS_CTRL_BASEADDR io;
          h1 = (if slcr_locked io h then Xil_Out32 io (base + SLCR_UNLOCK_OFFSET) SLCR_UNLOCK_KEY h else h);
          h2 = Xil_Out32 io (base + r) ((slcr_read io r h1 AND NOT clr) OR st) h1
      in if slcr_locked io h then Xil_Out32 io (base + SLCR_LOCK_OFFSET) SLCR_LOCK_KEY h2 else h2)"
    by (simp add: slcr_modify_def slcr_locked_def slcr_read_def Let_def)
  show "slcr_read io r (slcr_modify io r clr st h) = (slcr_read io r h AND NOT clr) OR st"
    by (simp add: mod Let_def)
  show "slcr_locked io (slcr_modify io r clr st h) = slcr_locked io h"
    by (simp add: mod Let_def)
  assume "slcr_plain q" "q \<noteq> r"
  then show "slcr_read io q (slcr_modify io r clr st h) = slcr_read io q h"
    by (simp add: mod Let_def)
qed

text \<open>
  The read-modify-write clears and sets exactly the given bits of the register, leaves every
  other register alone, and puts back the lock state it found.
\<close>

theorem slcr_modify_correct:
  assumes "slcr_registers R io" "r \<in> R"
  shows "slcr_read io r (slcr_modify io r clr st h) = (slcr_read io r h AND NOT clr) OR st \<and>
    (slcr_locked io (slcr_modify io r clr st h) \<longleftrightarrow> slcr_locked io h) \<and>
    (\<forall>q. slcr_plain q \<and> q \<noteq> r \<longrightarrow> slcr_read io q (slcr_modify io r clr st h) = slcr_read io q h)"
  using slcr_modify_eq [OF assms] by simp

lemma slcr_modify_correct_witness:
  "slcr_locked slcr_bank (slcr_modify slcr_bank 0x7C8 0x1000 0 (True, \<lambda>_. 0x1200)) \<and>
   slcr_read slcr_bank 0x7C8 (slcr_modify slcr_bank 0x7C8 0x1000 0 (True, \<lambda>_. 0x1200)) = 0x200"
proof -
  have plain: "slcr_plain 0x7C8"
    by (simp add: slcr_plain_def SLCR_LOCK_OFFSET_def SLCR_UNLOCK_OFFSET_def SLCR_LOCKSTA_OFFSET_def)
  then have "slcr_registers {0x7C8} slcr_bank" by (intro slcr_bank_registers) simp
  from slcr_modify_correct [OF this, of "0x7C8" "0x1000" 0 "(True, \<lambda>_. 0x1200)"] plain
  show ?thesis by (simp add: slcr_bank_read)
qed

end
