(* ===== verification/Gpio.thy ===== *)
theory Gpio
  imports Sensor_Record Slcr
begin

text \<open>
  \<open>drivers/gpio_drv.c\<close>: LED and push buttons. The static variables are \<open>gpio_state\<close>; pin writes
  are recorded in \<open>gpio_calls\<close>; what the pins read during a call is the argument \<open>pins\<close>, pin
  number to level. The pad pull-ups go through theory \<open>Slcr\<close>, with the hardware threaded.
\<close>

section \<open>The code\<close>

datatype gpio_drv_status_t = GPIO_DRV_OK | GPIO_DRV_ERR_LOOKUP | GPIO_DRV_ERR_INIT

record gpio_btn_hw_t =
  mio_pin :: u32
  active_high :: bool

record gpio_btn_state_t =
  is_down :: bool
  mismatch_scans :: u8
  press_latched :: bool

datatype gpio_call =
    XGpioPs_WritePin u32 u32
  | XGpioPs_SetDirectionPin u32 u32
  | XGpioPs_SetOutputEnablePin u32 u32

record gpio_state =
  s_gpio_ready :: bool
  s_led_on :: bool
  s_btn_state :: "gpio_btn_state_t list"
  gpio_calls :: "gpio_call list"

record gpio_init_env =
  XGpioPs_LookupConfig_ok :: bool
  XGpioPs_CfgInitialize_ok :: bool
  init_pins :: "u32 \<Rightarrow> u32"

definition GPIO_DRV_DEBOUNCE_SCANS :: u8 where "GPIO_DRV_DEBOUNCE_SCANS = 3"

definition gpio_btn_count :: nat where
  "gpio_btn_count = gpio_btn_index GPIO_BTN_COUNT"

definition s_btn_hw :: "gpio_btn_hw_t list" where
  "s_btn_hw = [\<lparr>mio_pin = BOARD_MIO_BTN4, active_high = (BOARD_MIO_BTN_ACTIVE_HIGH \<noteq> 0)\<rparr>,
               \<lparr>mio_pin = BOARD_MIO_BTN5, active_high = (BOARD_MIO_BTN_ACTIVE_HIGH \<noteq> 0)\<rparr>]"

definition gpio_call :: "gpio_call \<Rightarrow> gpio_state \<Rightarrow> gpio_state" where
  "gpio_call c s = s\<lparr>gpio_calls := gpio_calls s @ [c]\<rparr>"

definition gpio_btn_read_raw :: "(u32 \<Rightarrow> u32) \<Rightarrow> nat \<Rightarrow> bool option" where
  "gpio_btn_read_raw pins btn = do {
     hw \<leftarrow> arr_get s_btn_hw btn;
     let pin_level = pins (mio_pin hw);
     Some (if active_high hw then pin_level \<noteq> 0 else pin_level = 0)
   }"

definition gpio_mio_set_pullup :: "'h slcr_io \<Rightarrow> u32 \<Rightarrow> bool \<Rightarrow> 'h \<Rightarrow> 'h" where
  "gpio_mio_set_pullup io pin enable h =
     slcr_modify io (SLCR_MIO_PIN_OFFSET pin) SLCR_MIO_PIN_PULLUP_MASK
       (if enable then SLCR_MIO_PIN_PULLUP_MASK else 0) h"

definition gpio_init_btn ::
  "'h slcr_io \<Rightarrow> (u32 \<Rightarrow> u32) \<Rightarrow> nat \<Rightarrow> gpio_state \<times> 'h \<Rightarrow> (gpio_state \<times> 'h) option" where
  "gpio_init_btn io pins btn sh = do {
     let (s, h) = sh;
     hw \<leftarrow> arr_get s_btn_hw btn;
     let h = gpio_mio_set_pullup io (mio_pin hw) (BOARD_MIO_BTN_PULLUP \<noteq> 0) h;
     let s = gpio_call (XGpioPs_SetDirectionPin (mio_pin hw) 0) s;
     raw \<leftarrow> gpio_btn_read_raw pins btn;
     st \<leftarrow> arr_set (s_btn_state s) btn \<lparr>is_down = raw, mismatch_scans = 0, press_latched = False\<rparr>;
     Some (s\<lparr>s_btn_state := st\<rparr>, h)
   }"

definition gpio_drv_init ::
  "'h slcr_io \<Rightarrow> gpio_init_env \<Rightarrow> gpio_state \<Rightarrow> 'h \<Rightarrow> (gpio_drv_status_t \<times> gpio_state \<times> 'h) option" where
  "gpio_drv_init io env s h =
     (let s = s\<lparr>s_gpio_ready := False\<rparr>
      in if \<not> XGpioPs_LookupConfig_ok env then Some (GPIO_DRV_ERR_LOOKUP, s, h)
      else if \<not> XGpioPs_CfgInitialize_ok env then Some (GPIO_DRV_ERR_INIT, s, h)
      else do {
        let s = gpio_call (XGpioPs_WritePin BOARD_MIO_LED4 0) s;
        let s = gpio_call (XGpioPs_SetDirectionPin BOARD_MIO_LED4 1) s;
        let s = gpio_call (XGpioPs_SetOutputEnablePin BOARD_MIO_LED4 1) s;
        let s = s\<lparr>s_led_on := False\<rparr>;
        let s = s\<lparr>s_gpio_ready := True\<rparr>;
        (s, h) \<leftarrow> for_each (gpio_init_btn io (init_pins env)) [0..<gpio_btn_count] (s, h);
        Some (GPIO_DRV_OK, s, h)
      })"

definition gpio_drv_led_set :: "bool \<Rightarrow> gpio_state \<Rightarrow> gpio_state" where
  "gpio_drv_led_set on s =
     (if \<not> s_gpio_ready s then s
      else (gpio_call (XGpioPs_WritePin BOARD_MIO_LED4 (if on then 1 else 0)) s)\<lparr>s_led_on := on\<rparr>)"

definition gpio_drv_led_toggle :: "gpio_state \<Rightarrow> gpio_state" where
  "gpio_drv_led_toggle s = gpio_drv_led_set (\<not> s_led_on s) s"

definition gpio_scan_btn :: "(u32 \<Rightarrow> u32) \<Rightarrow> nat \<Rightarrow> gpio_state \<Rightarrow> gpio_state option" where
  "gpio_scan_btn pins btn s = do {
     state \<leftarrow> arr_get (s_btn_state s) btn;
     raw_down \<leftarrow> gpio_btn_read_raw pins btn;
     let state =
       (if raw_down = is_down state then state\<lparr>mismatch_scans := 0\<rparr>
        else let state = state\<lparr>mismatch_scans := mismatch_scans state + 1\<rparr>
        in if mismatch_scans state \<ge> GPIO_DRV_DEBOUNCE_SCANS
           then let state = state\<lparr>is_down := raw_down, mismatch_scans := 0\<rparr>
                in if raw_down then state\<lparr>press_latched := True\<rparr> else state
           else state);
     st \<leftarrow> arr_set (s_btn_state s) btn state;
     Some (s\<lparr>s_btn_state := st\<rparr>)
   }"

definition gpio_drv_btn_scan :: "(u32 \<Rightarrow> u32) \<Rightarrow> gpio_state \<Rightarrow> gpio_state option" where
  "gpio_drv_btn_scan pins s =
     (if \<not> s_gpio_ready s then Some s else for_each (gpio_scan_btn pins) [0..<gpio_btn_count] s)"

definition gpio_drv_btn_is_down :: "gpio_btn_id_t \<Rightarrow> gpio_state \<Rightarrow> bool option" where
  "gpio_drv_btn_is_down btn s =
     (if btn \<ge> GPIO_BTN_COUNT then Some False
      else map_option is_down (arr_get (s_btn_state s) (gpio_btn_index btn)))"

definition gpio_drv_btn_take_press :: "gpio_btn_id_t \<Rightarrow> gpio_state \<Rightarrow> (bool \<times> gpio_state) option" where
  "gpio_drv_btn_take_press btn s =
     (if btn \<ge> GPIO_BTN_COUNT then Some (False, s)
      else do {
        state \<leftarrow> arr_get (s_btn_state s) (gpio_btn_index btn);
        let pressed = press_latched state;
        st \<leftarrow> arr_set (s_btn_state s) (gpio_btn_index btn) (state\<lparr>press_latched := False\<rparr>);
        Some (pressed, s\<lparr>s_btn_state := st\<rparr>)
      })"

section \<open>The invariant\<close>

text \<open>
  One state per button, and fewer mismatching scans than the threshold: the 8-bit counter never
  gets near its wrap.
\<close>

definition gpio_wf :: "gpio_state \<Rightarrow> bool" where
  "gpio_wf s \<longleftrightarrow> length (s_btn_state s) = gpio_btn_count \<and>
     (\<forall>b\<in>set (s_btn_state s). mismatch_scans b < GPIO_DRV_DEBOUNCE_SCANS)"

lemma gpio_btn_count_2 [simp]: "gpio_btn_count = 2"
  by (simp add: gpio_btn_count_def)

lemma upt_2: "[0..<2] = [0, Suc 0]"
  by (simp add: upt_rec)

text \<open>One round of the debouncer on one button.\<close>

definition debounce :: "bool \<Rightarrow> gpio_btn_state_t \<Rightarrow> gpio_btn_state_t" where
  "debounce raw st =
     (if raw = is_down st then st\<lparr>mismatch_scans := 0\<rparr>
      else if mismatch_scans st + 1 \<ge> 3
      then \<lparr>is_down = raw, mismatch_scans = 0, press_latched = (raw \<or> press_latched st)\<rparr>
      else st\<lparr>mismatch_scans := mismatch_scans st + 1\<rparr>)"

definition raw_level :: "nat \<Rightarrow> (u32 \<Rightarrow> u32) \<Rightarrow> bool" where
  "raw_level i pins \<longleftrightarrow> pins (if i = 0 then 50 else 51) \<noteq> 0"

lemma read_raw_eq: "i < 2 \<Longrightarrow> gpio_btn_read_raw pins i = Some (raw_level i pins)"
  by (cases i) (simp_all add: gpio_btn_read_raw_def s_btn_hw_def raw_level_def BOARD_MIO_BTN4_def
      BOARD_MIO_BTN5_def BOARD_MIO_BTN_ACTIVE_HIGH_def)

lemma gpio_scan_btn_eq:
  "i < 2 \<Longrightarrow> length (s_btn_state s) = 2 \<Longrightarrow>
     gpio_scan_btn pins i s =
       Some (s\<lparr>s_btn_state := (s_btn_state s)[i := debounce (raw_level i pins) (s_btn_state s ! i)]\<rparr>)"
  by (cases "s_btn_state s ! i")
     (simp add: gpio_scan_btn_def read_raw_eq debounce_def GPIO_DRV_DEBOUNCE_SCANS_def Let_def)

definition scan_next :: "(u32 \<Rightarrow> u32) \<Rightarrow> gpio_state \<Rightarrow> gpio_state" where
  "scan_next pins s =
     s\<lparr>s_btn_state := [debounce (raw_level 0 pins) (s_btn_state s ! 0),
                       debounce (raw_level 1 pins) (s_btn_state s ! 1)]\<rparr>"

lemma gpio_drv_btn_scan_eq:
  assumes "s_gpio_ready s" "length (s_btn_state s) = 2"
  shows "gpio_drv_btn_scan pins s = Some (scan_next pins s)"
proof -
  obtain a b where "s_btn_state s = [a, b]"
    using assms(2) by (auto simp: numeral_2_eq_2 length_Suc_conv)
  then show ?thesis
    using assms by (simp add: gpio_drv_btn_scan_def upt_2 gpio_scan_btn_eq scan_next_def)
qed

lemma scan_next_fields [simp]:
  "s_gpio_ready (scan_next pins s) = s_gpio_ready s" "s_led_on (scan_next pins s) = s_led_on s"
  "gpio_calls (scan_next pins s) = gpio_calls s" "length (s_btn_state (scan_next pins s)) = 2"
  by (simp_all add: scan_next_def)

lemma scan_next_btn: "i < 2 \<Longrightarrow> s_btn_state (scan_next pins s) ! i = debounce (raw_level i pins) (s_btn_state s ! i)"
  by (cases i) (simp_all add: scan_next_def)

lemma debounce_bound: "mismatch_scans st < 3 \<Longrightarrow> mismatch_scans (debounce raw st) < 3"
  by (auto simp: debounce_def)

lemma scan_next_wf [wf_intros]:
  assumes "gpio_wf s"
  shows "gpio_wf (scan_next pins s)"
proof -
  obtain a b where ab: "s_btn_state s = [a, b]"
    using assms by (auto simp: gpio_wf_def numeral_2_eq_2 length_Suc_conv)
  then have "mismatch_scans a < 3" "mismatch_scans b < 3"
    using assms by (simp_all add: gpio_wf_def GPIO_DRV_DEBOUNCE_SCANS_def)
  then show ?thesis
    by (simp add: gpio_wf_def GPIO_DRV_DEBOUNCE_SCANS_def scan_next_def ab debounce_bound)
qed

lemma gpio_wf_length: "gpio_wf s \<Longrightarrow> length (s_btn_state s) = 2"
  by (simp add: gpio_wf_def)

section \<open>What debouncing means\<close>

text \<open>
  The debounced level after a history of raw levels, newest first: it becomes the raw level
  when the newest three agree, and stays what it was otherwise.
\<close>

fun ref_level :: "bool \<Rightarrow> bool list \<Rightarrow> bool" where
  "ref_level d [] = d"
| "ref_level d (r # h) = (if take 3 (r # h) = [r, r, r] then r else ref_level d h)"

definition disagreeing :: "bool \<Rightarrow> bool list \<Rightarrow> nat" where
  "disagreeing d h = length (takeWhile (\<lambda>r. r \<noteq> ref_level d h) h)"

lemma debounce_step:
  assumes "is_down st = ref_level d h" "unat (mismatch_scans st) = disagreeing d h" "disagreeing d h < 3"
  shows "is_down (debounce r st) = ref_level d (r # h) \<and>
    unat (mismatch_scans (debounce r st)) = disagreeing d (r # h) \<and> disagreeing d (r # h) < 3"
proof -
  have c: "unat (mismatch_scans st + 1) = Suc (disagreeing d h)"
    using assms(2,3) by (simp add: unat_word_ariths)
  have ge3: "mismatch_scans st + 1 \<ge> 3 \<longleftrightarrow> 2 \<le> disagreeing d h"
    by (simp add: word_le_nat_alt c)
  have three: "take 3 (r # h) = [r, r, r] \<longleftrightarrow> 2 \<le> disagreeing d h" if "r \<noteq> ref_level d h"
  proof (cases h)
    case (Cons a t)
    then show ?thesis using that by (cases t) (auto simp: disagreeing_def)
  qed (simp add: disagreeing_def)
  show ?thesis
  proof (cases "r = ref_level d h")
    case True
    then have "ref_level d (r # h) = r" by simp
    then show ?thesis using True assms(1) by (simp add: debounce_def disagreeing_def del: ref_level.simps)
  next
    case False
    show ?thesis
    proof (cases "2 \<le> disagreeing d h")
      case True
      then have "ref_level d (r # h) = r" using three [OF False] by simp
      then show ?thesis
        using True False assms(1) by (simp add: debounce_def ge3 disagreeing_def del: ref_level.simps)
    next
      case small: False
      then have l: "ref_level d (r # h) = ref_level d h" using three [OF False] by simp
      then have "disagreeing d (r # h) = Suc (disagreeing d h)"
        using False by (simp add: disagreeing_def del: ref_level.simps)
      then show ?thesis
        using small False assms(1) l c by (simp add: debounce_def ge3 del: ref_level.simps)
    qed
  qed
qed

lemma debounce_history:
  assumes "mismatch_scans st = 0"
  shows "is_down (fold debounce rs st) = ref_level (is_down st) (rev rs) \<and>
    unat (mismatch_scans (fold debounce rs st)) = disagreeing (is_down st) (rev rs) \<and>
    disagreeing (is_down st) (rev rs) < 3"
proof (induction rs rule: rev_induct)
  case Nil
  then show ?case using assms by (simp add: disagreeing_def)
next
  case (snoc r rs)
  then show ?case
    using debounce_step [of "fold debounce rs st" "is_down st" "rev rs" r] by simp
qed

lemma debounce_latch:
  "press_latched (debounce r st) \<longleftrightarrow>
     press_latched st \<or> (is_down (debounce r st) \<and> \<not> is_down st)"
  by (auto simp: debounce_def)

text \<open>Successive scans, and scans each followed by taking a button's press as the UI task does.\<close>

definition scan_run :: "(u32 \<Rightarrow> u32) list \<Rightarrow> gpio_state \<Rightarrow> gpio_state option" where
  "scan_run pinss s = for_each gpio_drv_btn_scan pinss s"

lemma scan_run_eq:
  assumes "s_gpio_ready s" "length (s_btn_state s) = 2"
  shows "scan_run pinss s = Some (fold scan_next pinss s) \<and>
    s_gpio_ready (fold scan_next pinss s) \<and> length (s_btn_state (fold scan_next pinss s)) = 2"
  unfolding scan_run_def
  by (rule for_each_total [where P = "\<lambda>s. s_gpio_ready s \<and> length (s_btn_state s) = 2"])
     (simp_all add: assms gpio_drv_btn_scan_eq)

lemma fold_scan_btn:
  "i < 2 \<Longrightarrow> s_btn_state (fold scan_next pinss s) ! i =
     fold debounce (map (raw_level i) pinss) (s_btn_state s ! i)"
  by (induction pinss arbitrary: s) (simp_all add: scan_next_btn)

fun press_run :: "gpio_btn_id_t \<Rightarrow> (u32 \<Rightarrow> u32) list \<Rightarrow> gpio_state \<Rightarrow> (bool list \<times> gpio_state) option" where
  "press_run btn [] s = Some ([], s)"
| "press_run btn (pins # pinss) s = do {
     s \<leftarrow> gpio_drv_btn_scan pins s;
     (p, s) \<leftarrow> gpio_drv_btn_take_press btn s;
     (ps, s) \<leftarrow> press_run btn pinss s;
     Some (p # ps, s)
   }"

definition take_next :: "gpio_btn_id_t \<Rightarrow> gpio_state \<Rightarrow> gpio_state" where
  "take_next btn s =
     (let i = gpio_btn_index btn
      in s\<lparr>s_btn_state := (s_btn_state s)[i := (s_btn_state s ! i)\<lparr>press_latched := False\<rparr>]\<rparr>)"

lemma btn_index_less: "btn \<noteq> GPIO_BTN_COUNT \<Longrightarrow> gpio_btn_index btn < 2"
  by (cases btn) simp_all

lemma btn_ge_count: "btn \<ge> GPIO_BTN_COUNT \<longleftrightarrow> btn = GPIO_BTN_COUNT"
  by (cases btn) (simp_all add: less_eq_gpio_btn_id_t_def)

lemma take_press_eq:
  "btn \<noteq> GPIO_BTN_COUNT \<Longrightarrow> length (s_btn_state s) = 2 \<Longrightarrow>
     gpio_drv_btn_take_press btn s =
       Some (press_latched (s_btn_state s ! gpio_btn_index btn), take_next btn s)"
  by (simp add: gpio_drv_btn_take_press_def take_next_def btn_index_less Let_def btn_ge_count)

lemma is_down_eq:
  "btn \<noteq> GPIO_BTN_COUNT \<Longrightarrow> length (s_btn_state s) = 2 \<Longrightarrow>
     gpio_drv_btn_is_down btn s = Some (is_down (s_btn_state s ! gpio_btn_index btn))"
  by (simp add: gpio_drv_btn_is_down_def btn_index_less btn_ge_count)

text \<open>The state of a button after a history of raw levels, with no press waiting.\<close>

definition follows :: "gpio_btn_id_t \<Rightarrow> bool \<Rightarrow> bool list \<Rightarrow> gpio_state \<Rightarrow> bool" where
  "follows btn d h s \<longleftrightarrow>
     s_gpio_ready s \<and> length (s_btn_state s) = 2 \<and>
     (let st = s_btn_state s ! gpio_btn_index btn
      in is_down st = ref_level d h \<and> unat (mismatch_scans st) = disagreeing d h \<and>
         disagreeing d h < 3 \<and> \<not> press_latched st)"

lemma follows_step:
  assumes "btn \<noteq> GPIO_BTN_COUNT" "follows btn d h s"
    and r_def: "r = raw_level (gpio_btn_index btn) pins"
  shows "follows btn d (r # h) (take_next btn (scan_next pins s)) \<and>
    press_latched (s_btn_state (scan_next pins s) ! gpio_btn_index btn) =
      (ref_level d (r # h) \<and> \<not> ref_level d h)"
proof -
  let ?i = "gpio_btn_index btn"
  let ?st = "s_btn_state s ! ?i"
  have i: "?i < 2" using assms(1) by (rule btn_index_less)
  have st: "is_down ?st = ref_level d h" "unat (mismatch_scans ?st) = disagreeing d h"
      "disagreeing d h < 3" "\<not> press_latched ?st"
    using assms(2) by (simp_all add: follows_def Let_def)
  have "is_down (debounce r ?st) = ref_level d (r # h) \<and>
      unat (mismatch_scans (debounce r ?st)) = disagreeing d (r # h) \<and> disagreeing d (r # h) < 3"
    by (rule debounce_step [OF st(1-3)])
  then show ?thesis
    using assms(2) i st(1,4)
    by (simp add: follows_def take_next_def scan_next_btn Let_def r_def [symmetric] debounce_latch
        del: ref_level.simps)
qed

lemma press_run_follows:
  assumes "btn \<noteq> GPIO_BTN_COUNT" "follows btn d h s"
  shows "\<exists>s'. press_run btn pinss s =
    Some (map (\<lambda>n. ref_level d (rev (take (Suc n) (map (raw_level (gpio_btn_index btn)) pinss)) @ h) \<and>
                   \<not> ref_level d (rev (take n (map (raw_level (gpio_btn_index btn)) pinss)) @ h))
            [0..<length pinss], s')"
  using assms(2)
proof (induction pinss arbitrary: s h)
  case Nil
  then show ?case by simp
next
  case (Cons pins pinss)
  let ?r = "raw_level (gpio_btn_index btn) pins"
  note step = follows_step [OF assms(1) Cons.prems refl, of pins]
  have len: "s_gpio_ready s" "length (s_btn_state s) = 2"
    using Cons.prems by (simp_all add: follows_def)
  obtain s' where s': "press_run btn pinss (take_next btn (scan_next pins s)) =
    Some (map (\<lambda>n. ref_level d (rev (take (Suc n) (map (raw_level (gpio_btn_index btn)) pinss)) @ ?r # h) \<and>
                   \<not> ref_level d (rev (take n (map (raw_level (gpio_btn_index btn)) pinss)) @ ?r # h))
            [0..<length pinss], s')"
    using Cons.IH step by blast
  show ?case
    using step
    by (simp add: gpio_drv_btn_scan_eq len take_press_eq assms(1) s' upt_conv_Cons map_Suc_upt [symmetric]
        comp_def del: ref_level.simps upt_Suc)
qed

section \<open>Initialisation\<close>

definition mio_pads :: "u32 set" where
  "mio_pads = {SLCR_MIO_PIN_OFFSET BOARD_MIO_BTN4, SLCR_MIO_PIN_OFFSET BOARD_MIO_BTN5}"

definition init_hw :: "'h slcr_io \<Rightarrow> 'h \<Rightarrow> 'h" where
  "init_hw io h = slcr_modify io 0x7CC 0x1000 0 (slcr_modify io 0x7C8 0x1000 0 h)"

lemma gpio_drv_init_ok:
  assumes "XGpioPs_LookupConfig_ok env" "XGpioPs_CfgInitialize_ok env" "length (s_btn_state s) = 2"
  shows "gpio_drv_init io env s h = Some (GPIO_DRV_OK,
    s\<lparr>s_gpio_ready := True, s_led_on := False,
      s_btn_state := map (\<lambda>i. \<lparr>is_down = raw_level i (init_pins env), mismatch_scans = 0, press_latched = False\<rparr>) [0, 1],
      gpio_calls := gpio_calls s @ [XGpioPs_WritePin 7 0, XGpioPs_SetDirectionPin 7 1,
        XGpioPs_SetOutputEnablePin 7 1, XGpioPs_SetDirectionPin 50 0, XGpioPs_SetDirectionPin 51 0]\<rparr>,
    init_hw io h)"
proof -
  obtain a b where ab: "s_btn_state s = [a, b]"
    using assms(3) by (auto simp: numeral_2_eq_2 length_Suc_conv)
  show ?thesis
    using assms(1,2) ab
    by (simp add: gpio_drv_init_def upt_2 gpio_init_btn_def read_raw_eq gpio_mio_set_pullup_def s_btn_hw_def
        gpio_call_def BOARD_MIO_LED4_def BOARD_MIO_BTN4_def BOARD_MIO_BTN5_def BOARD_MIO_BTN_PULLUP_def
        init_hw_def SLCR_MIO_PIN_OFFSET_def SLCR_MIO_PIN_PULLUP_MASK_def)
qed

definition level_at :: "bool \<Rightarrow> bool list \<Rightarrow> nat \<Rightarrow> bool" where
  "level_at d raws n = ref_level d (rev (take n raws))"

section \<open>Properties\<close>

text \<open>The driver of the examples: just initialised with nothing pressed.\<close>

definition gpio_idle :: gpio_state where
  "gpio_idle = \<lparr>s_gpio_ready = True, s_led_on = False,
     s_btn_state = replicate 2 \<lparr>is_down = False, mismatch_scans = 0, press_latched = False\<rparr>,
     gpio_calls = []\<rparr>"

text \<open>
  Initialisation puts LD4 low before its output is enabled, makes both button pins inputs,
  clears exactly the pull-up bit of the two pads and no other register, and seeds both buttons
  with their present level and no press; if the driver cannot be looked up or initialised
  nothing is written and the driver stays unusable.
\<close>

theorem gpio_init_correct:
  assumes "slcr_registers R io" "mio_pads \<subseteq> R" "length (s_btn_state s) = 2"
    and "gpio_drv_init io env s h = res"
  shows "\<exists>status s' h'. res = Some (status, s', h') \<and>
    (s_gpio_ready s' \<longleftrightarrow> status = GPIO_DRV_OK) \<and>
    (status = GPIO_DRV_OK \<longleftrightarrow> XGpioPs_LookupConfig_ok env \<and> XGpioPs_CfgInitialize_ok env) \<and>
    (status \<noteq> GPIO_DRV_OK \<longrightarrow> h' = h \<and> gpio_calls s' = gpio_calls s) \<and>
    (status = GPIO_DRV_OK \<longrightarrow>
       gpio_wf s' \<and> \<not> s_led_on s' \<and>
       gpio_calls s' = gpio_calls s @ [XGpioPs_WritePin 7 0, XGpioPs_SetDirectionPin 7 1,
         XGpioPs_SetOutputEnablePin 7 1, XGpioPs_SetDirectionPin 50 0, XGpioPs_SetDirectionPin 51 0] \<and>
       gpio_drv_btn_is_down GPIO_BTN4 s' = Some (init_pins env 50 \<noteq> 0) \<and>
       gpio_drv_btn_is_down GPIO_BTN5 s' = Some (init_pins env 51 \<noteq> 0) \<and>
       (\<forall>r\<in>mio_pads. slcr_read io r h' = slcr_read io r h AND NOT 0x1000) \<and>
       (\<forall>q. slcr_plain q \<and> q \<notin> mio_pads \<longrightarrow> slcr_read io q h' = slcr_read io q h) \<and>
       slcr_locked io h' = slcr_locked io h)"
proof (cases "XGpioPs_LookupConfig_ok env \<and> XGpioPs_CfgInitialize_ok env")
  case False
  then show ?thesis using assms(4) by (auto simp: gpio_drv_init_def Let_def)
next
  case True
  have pads: "mio_pads = {0x7C8, 0x7CC}"
    by (simp add: mio_pads_def SLCR_MIO_PIN_OFFSET_def BOARD_MIO_BTN4_def BOARD_MIO_BTN5_def)
  then have R: "0x7C8 \<in> R" "0x7CC \<in> R" using assms(2) by auto
  note [simp] = slcr_modify_eq [OF assms(1) R(1)] slcr_modify_eq [OF assms(1) R(2)]
    slcr_registersD(1) [OF assms(1) R(1)] slcr_registersD(1) [OF assms(1) R(2)]
  show ?thesis
    using True assms(4)
    by (auto simp: gpio_drv_init_ok assms(3) gpio_wf_def is_down_eq raw_level_def pads init_hw_def
        GPIO_DRV_DEBOUNCE_SCANS_def)
qed

lemma gpio_init_correct_witness:
  "\<exists>s' h'. gpio_drv_init slcr_bank
     \<lparr>XGpioPs_LookupConfig_ok = True, XGpioPs_CfgInitialize_ok = True, init_pins = \<lambda>p. if p = 50 then 1 else 0\<rparr>
     (gpio_idle\<lparr>s_gpio_ready := False\<rparr>) (True, \<lambda>_. 0x1600) = Some (GPIO_DRV_OK, s', h') \<and>
   gpio_drv_btn_is_down GPIO_BTN4 s' = Some True \<and> gpio_drv_btn_is_down GPIO_BTN5 s' = Some False \<and>
   slcr_read slcr_bank 0x7C8 h' = 0x600 \<and> slcr_locked slcr_bank h'"
proof -
  have pads: "mio_pads = {0x7C8, 0x7CC}"
    by (simp add: mio_pads_def SLCR_MIO_PIN_OFFSET_def BOARD_MIO_BTN4_def BOARD_MIO_BTN5_def)
  have plain: "\<forall>r\<in>mio_pads. slcr_plain r"
    by (simp add: pads slcr_plain_def SLCR_LOCK_OFFSET_def SLCR_UNLOCK_OFFSET_def SLCR_LOCKSTA_OFFSET_def)
  show ?thesis
    using gpio_init_correct [OF slcr_bank_registers [OF plain] order_refl _ refl,
        of "gpio_idle\<lparr>s_gpio_ready := False\<rparr>"
          "\<lparr>XGpioPs_LookupConfig_ok = True, XGpioPs_CfgInitialize_ok = True,
             init_pins = \<lambda>p. if p = 50 then 1 else 0\<rparr>" "(True, \<lambda>_. 0x1600)"] plain
    by (auto simp: gpio_idle_def pads slcr_bank_read)
qed

text \<open>
  C24: After any sequence of scans a button's debounced level is the reference level of its
  history of raw levels: it changes exactly when the newest three scans agree on the other
  level, and every bounce back before that starts the count again.
\<close>

theorem gpio_debounce_three_scans:
  assumes "s_gpio_ready s" "gpio_wf s" "btn \<noteq> GPIO_BTN_COUNT"
    and "mismatch_scans (s_btn_state s ! gpio_btn_index btn) = 0"
  shows "\<exists>s'. scan_run pinss s = Some s' \<and> gpio_wf s' \<and>
    gpio_drv_btn_is_down btn s' =
      Some (ref_level (is_down (s_btn_state s ! gpio_btn_index btn))
              (rev (map (raw_level (gpio_btn_index btn)) pinss)))"
proof -
  note run = scan_run_eq [OF assms(1) gpio_wf_length [OF assms(2)], of pinss]
  have "gpio_wf (fold scan_next pinss s)"
    using assms(2) by (induction pinss arbitrary: s) (simp_all add: scan_next_wf)
  then show ?thesis
    using run debounce_history [OF assms(4), of "map (raw_level (gpio_btn_index btn)) pinss"]
    by (simp add: is_down_eq [OF assms(3)] fold_scan_btn btn_index_less [OF assms(3)])
qed

lemma gpio_debounce_three_scans_witness:
  "\<exists>s'. scan_run (map (\<lambda>b _. b) [1, 1, 0, 1, 1, 1, 0, 0]) gpio_idle = Some s' \<and>
     gpio_drv_btn_is_down GPIO_BTN4 s' = Some True"
  using gpio_debounce_three_scans [of gpio_idle GPIO_BTN4 "map (\<lambda>b _. b) [1, 1, 0, 1, 1, 1, 0, 0]"]
  by (auto simp: gpio_idle_def gpio_wf_def GPIO_DRV_DEBOUNCE_SCANS_def raw_level_def)

text \<open>
  C25: Taking a button's press after every scan, as the UI task does, reports a press at exactly
  the scans at which the debounced level rises: no press is missed and none is seen twice, and
  a button held through initialisation is no press.
\<close>

theorem gpio_press_once:
  assumes "s_gpio_ready s" "gpio_wf s" "btn \<noteq> GPIO_BTN_COUNT"
    and "s_btn_state s ! gpio_btn_index btn = \<lparr>is_down = d, mismatch_scans = 0, press_latched = False\<rparr>"
    and "level = level_at d (map (raw_level (gpio_btn_index btn)) pinss)"
  shows "\<exists>s'. press_run btn pinss s = Some (map (\<lambda>n. level (Suc n) \<and> \<not> level n) [0..<length pinss], s')"
proof -
  have "follows btn d [] s"
    using assms(1,2,4) by (simp add: follows_def gpio_wf_length disagreeing_def)
  from press_run_follows [OF assms(3) this, of pinss] show ?thesis
    by (simp add: assms(5) level_at_def del: ref_level.simps)
qed

lemma gpio_press_once_witness:
  "\<exists>s'. press_run GPIO_BTN5 (map (\<lambda>b _. b) [1, 1, 1, 1, 0, 0, 0, 1, 1, 1]) gpio_idle =
     Some ([False, False, True, False, False, False, False, False, False, True], s')"
proof -
  have "[0..<10] = [0, 1, 2, 3, 4, 5, 6, 7, 8, 9::nat]" by (simp add: upt_rec)
  then show ?thesis
    using gpio_press_once [of gpio_idle GPIO_BTN5 False _ "map (\<lambda>b _. b) [1, 1, 1, 1, 0, 0, 0, 1, 1, 1]",
        OF _ _ _ _ refl]
    by (simp add: level_at_def gpio_idle_def gpio_wf_def GPIO_DRV_DEBOUNCE_SCANS_def raw_level_def)
qed

end
