(* ===== verification/Uart.thy ===== *)
theory Uart
  imports Prelude
begin

text \<open>
  \<open>drivers/uart_drv.c\<close>: the polled console UART. The calls that change the hardware are
  recorded, in order, in \<open>uart_calls\<close>; register reads and the Xilinx driver's results are
  arguments, a list of answers where the code reads in a loop. A \<open>char\<close> is a byte. The register
  bits, which the vendor headers define, are the record \<open>uart_bits\<close>.
\<close>

section \<open>The code\<close>

datatype uart_drv_status_t =
  UART_DRV_OK | UART_DRV_ERR_LOOKUP | UART_DRV_ERR_INIT | UART_DRV_ERR_FORMAT

datatype uart_reg = XUARTPS_ISR_OFFSET | XUARTPS_SR_OFFSET | XUARTPS_FIFO_OFFSET

datatype uart_call =
    XUartPs_CfgInitialize u32
  | XUartPs_SetDataFormat_8N1 u32
  | XUartPs_SetOperMode_normal
  | XUartPs_SetInterruptMask u32
  | XUartPs_WriteReg u32 uart_reg u32
  | XUartPs_SendByte u32 char

record uart_bits =
  XUARTPS_IXR_OVER :: u32
  XUARTPS_IXR_FRAMING :: u32
  XUARTPS_IXR_PARITY :: u32
  XUARTPS_SR_TXEMPTY :: u32
  XUARTPS_SR_TACTIVE :: u32

record uart_drv_err_counters_t =
  rx_overrun :: u32
  rx_framing :: u32
  rx_parity :: u32

record uart_state =
  s_uart_base :: u32
  s_uart_ready :: bool
  s_err_counters :: uart_drv_err_counters_t
  uart_calls :: "uart_call list"

record uart_init_env =
  XUartPs_LookupConfig :: "u32 option"
  sr_answers :: "u32 list"
  XUartPs_CfgInitialize_ok :: bool
  XUartPs_SetDataFormat_ok :: bool
  isr_answer :: u32

definition uart_call :: "uart_call \<Rightarrow> uart_state \<Rightarrow> uart_state" where
  "uart_call c s = s\<lparr>uart_calls := uart_calls s @ [c]\<rparr>"

definition UART_RX_LINE_ERR_MASK :: "uart_bits \<Rightarrow> u32" where
  "UART_RX_LINE_ERR_MASK b = XUARTPS_IXR_OVER b OR XUARTPS_IXR_FRAMING b OR XUARTPS_IXR_PARITY b"

definition uart_collect_line_errors :: "uart_bits \<Rightarrow> u32 \<Rightarrow> uart_state \<Rightarrow> uart_state" where
  "uart_collect_line_errors b isr s =
     (let pending = isr AND UART_RX_LINE_ERR_MASK b
      in if pending = 0 then s
      else let e = s_err_counters s;
               e = (if pending AND XUARTPS_IXR_OVER b \<noteq> 0
                    then e\<lparr>rx_overrun := rx_overrun e + 1\<rparr> else e);
               e = (if pending AND XUARTPS_IXR_FRAMING b \<noteq> 0
                    then e\<lparr>rx_framing := rx_framing e + 1\<rparr> else e);
               e = (if pending AND XUARTPS_IXR_PARITY b \<noteq> 0
                    then e\<lparr>rx_parity := rx_parity e + 1\<rparr> else e)
      in uart_call (XUartPs_WriteReg (s_uart_base s) XUARTPS_ISR_OFFSET pending)
           (s\<lparr>s_err_counters := e\<rparr>))"

text \<open>\<open>None\<close>: still waiting for the FIFO to drain.\<close>

definition uart_drv_init ::
  "uart_bits \<Rightarrow> uart_init_env \<Rightarrow> u32 \<Rightarrow> uart_state \<Rightarrow> (uart_drv_status_t \<times> uart_state) option" where
  "uart_drv_init b env baud_rate s =
     (let s = s\<lparr>s_uart_ready := False\<rparr>
      in case XUartPs_LookupConfig env of
        None \<Rightarrow> Some (UART_DRV_ERR_LOOKUP, s)
      | Some base \<Rightarrow> do {
          _ \<leftarrow> poll_until (\<lambda>sr. sr AND XUARTPS_SR_TXEMPTY b \<noteq> 0) (sr_answers env);
          let s = uart_call (XUartPs_CfgInitialize base) s;
          if \<not> XUartPs_CfgInitialize_ok env then Some (UART_DRV_ERR_INIT, s)
          else do {
            let s = s\<lparr>s_uart_base := base\<rparr>;
            let s = uart_call (XUartPs_SetDataFormat_8N1 baud_rate) s;
            if \<not> XUartPs_SetDataFormat_ok env then Some (UART_DRV_ERR_FORMAT, s)
            else do {
              let s = uart_call XUartPs_SetOperMode_normal s;
              let s = uart_call (XUartPs_SetInterruptMask 0) s;
              let s = uart_call (XUartPs_WriteReg base XUARTPS_ISR_OFFSET (isr_answer env)) s;
              let s = s\<lparr>s_err_counters := \<lparr>rx_overrun = 0, rx_framing = 0, rx_parity = 0\<rparr>\<rparr>;
              Some (UART_DRV_OK, s\<lparr>s_uart_ready := True\<rparr>)
            }
          }
        })"

definition uart_drv_put_char :: "char \<Rightarrow> uart_state \<Rightarrow> uart_state" where
  "uart_drv_put_char ch s =
     (if \<not> s_uart_ready s then s else uart_call (XUartPs_SendByte (s_uart_base s) ch) s)"

function uart_write_from :: "char list \<Rightarrow> nat \<Rightarrow> nat \<Rightarrow> uart_state \<Rightarrow> uart_state option" where
  "uart_write_from data len idx s =
     (if idx < len
      then do {
        ch \<leftarrow> arr_get data idx;
        uart_write_from data len (Suc idx) (uart_drv_put_char ch s)
      }
      else Some s)"
  by pat_completeness auto
termination
  by (relation "measure (\<lambda>(data, len, idx, s). len - idx)") auto

declare uart_write_from.simps [simp del]

definition uart_drv_write :: "char list option \<Rightarrow> u32 \<Rightarrow> uart_state \<Rightarrow> uart_state option" where
  "uart_drv_write data len s =
     (case data of None \<Rightarrow> Some s | Some d \<Rightarrow> uart_write_from d (unat len) 0 s)"

text \<open>\<open>isr\<close>, \<open>has_data\<close> and \<open>fifo\<close> are what the registers read, if they are read.\<close>

definition uart_drv_try_get_char ::
  "uart_bits \<Rightarrow> u32 \<Rightarrow> bool \<Rightarrow> char \<Rightarrow> char option \<Rightarrow> uart_state
     \<Rightarrow> bool \<times> char option \<times> uart_state" where
  "uart_drv_try_get_char b isr has_data fifo ch_out s =
     (if \<not> s_uart_ready s \<or> ch_out = None then (False, ch_out, s)
      else let s = uart_collect_line_errors b isr s
      in if \<not> has_data then (False, ch_out, s) else (True, Some fifo, s))"

text \<open>The state does not change; the result is whether the wait is over after these answers.\<close>

definition uart_drv_wait_tx_idle :: "uart_bits \<Rightarrow> u32 list \<Rightarrow> uart_state \<Rightarrow> u32 list option" where
  "uart_drv_wait_tx_idle b srs s =
     (if \<not> s_uart_ready s then Some srs
      else poll_until (\<lambda>status. \<not> (status AND XUARTPS_SR_TXEMPTY b = 0
                                   \<or> status AND XUARTPS_SR_TACTIVE b \<noteq> 0)) srs)"

definition uart_drv_get_err_counters ::
  "uart_state \<Rightarrow> uart_drv_err_counters_t option \<Rightarrow> uart_drv_err_counters_t option" where
  "uart_drv_get_err_counters s counters_out =
     (if counters_out = None then None else Some (s_err_counters s))"

section \<open>What has been sent\<close>

fun sent_byte :: "uart_call \<Rightarrow> char list" where
  "sent_byte (XUartPs_SendByte base ch) = [ch]"
| "sent_byte _ = []"

definition sent :: "uart_state \<Rightarrow> char list" where
  "sent s = concat (map sent_byte (uart_calls s))"

text \<open>Sending a text on a UART that is up appends its bytes and changes nothing else.\<close>

definition send_all :: "char list \<Rightarrow> uart_state \<Rightarrow> uart_state" where
  "send_all cs s = s\<lparr>uart_calls := uart_calls s @ map (XUartPs_SendByte (s_uart_base s)) cs\<rparr>"

lemma sent_send_all [simp]: "sent (send_all cs s) = sent s @ cs"
  by (simp add: sent_def send_all_def comp_def)

lemma send_all_fields [simp]:
  "s_uart_ready (send_all cs s) = s_uart_ready s" "s_uart_base (send_all cs s) = s_uart_base s"
  "s_err_counters (send_all cs s) = s_err_counters s"
  by (simp_all add: send_all_def)

lemma send_all_send_all [simp]: "send_all ds (send_all cs s) = send_all (cs @ ds) s"
  by (simp add: send_all_def)

lemma send_all_Nil [simp]: "send_all [] s = s"
  by (simp add: send_all_def)

lemma put_char_ready: "s_uart_ready s \<Longrightarrow> uart_drv_put_char ch s = send_all [ch] s"
  by (simp add: uart_drv_put_char_def uart_call_def send_all_def)

lemma put_char_not_ready [simp]: "\<not> s_uart_ready s \<Longrightarrow> uart_drv_put_char ch s = s"
  by (simp add: uart_drv_put_char_def)

lemma uart_write_from_eq:
  "s_uart_ready s \<Longrightarrow> len \<le> length data \<Longrightarrow>
     uart_write_from data len idx s = Some (send_all (drop idx (take len data)) s)"
proof (induction data len idx s rule: uart_write_from.induct)
  case (1 data len idx s)
  show ?case
  proof (cases "idx < len")
    case True
    then have "drop idx (take len data) = data ! idx # drop (Suc idx) (take len data)"
      using "1.prems"(2) by (simp flip: Cons_nth_drop_Suc)
    then show ?thesis
      using True "1.prems" "1.IH" [OF True, of "data ! idx"]
      by (subst uart_write_from.simps) (simp add: put_char_ready)
  next
    case False
    then show ?thesis by (subst uart_write_from.simps) simp
  qed
qed

section \<open>Properties\<close>

text \<open>
  The wait for an idle transmitter ends at the first status reading that shows both an empty
  FIFO and an idle shift register, and not before; on a UART that is not up it does not wait.
\<close>

theorem uart_wait_tx_idle_exact:
  "uart_drv_wait_tx_idle b srs s = Some rest \<longleftrightarrow>
     (if s_uart_ready s
      then \<exists>busy sr. srs = busy @ sr # rest \<and>
             sr AND XUARTPS_SR_TXEMPTY b \<noteq> 0 \<and> sr AND XUARTPS_SR_TACTIVE b = 0 \<and>
             (\<forall>x\<in>set busy. x AND XUARTPS_SR_TXEMPTY b = 0 \<or> x AND XUARTPS_SR_TACTIVE b \<noteq> 0)
      else rest = srs)"
  by (auto simp: uart_drv_wait_tx_idle_def poll_until_Some)

lemma uart_wait_tx_idle_exact_witness:
  "\<exists>b s. s_uart_ready s \<and> uart_drv_wait_tx_idle b [0, 0x808, 0x8, 0x1] s = Some [1]"
proof -
  let ?b = "\<lparr>XUARTPS_IXR_OVER = 0x20, XUARTPS_IXR_FRAMING = 0x40, XUARTPS_IXR_PARITY = 0x80,
    XUARTPS_SR_TXEMPTY = 0x8, XUARTPS_SR_TACTIVE = 0x800\<rparr>"
  let ?s = "\<lparr>s_uart_base = 0xE0001000, s_uart_ready = True,
    s_err_counters = \<lparr>rx_overrun = 0, rx_framing = 0, rx_parity = 0\<rparr>, uart_calls = []\<rparr>"
  have "uart_drv_wait_tx_idle ?b [0, 0x808, 0x8, 0x1] ?s = Some [1]"
    by (subst uart_wait_tx_idle_exact)
       (auto intro!: exI [of _ "[0, 0x808]"] exI [of _ "0x8"])
  then show ?thesis by (intro exI [of _ ?b] exI [of _ ?s]) simp
qed

lemma pending_bit:
  "(isr AND UART_RX_LINE_ERR_MASK b) AND XUARTPS_IXR_OVER b = isr AND XUARTPS_IXR_OVER b"
  "(isr AND UART_RX_LINE_ERR_MASK b) AND XUARTPS_IXR_FRAMING b = isr AND XUARTPS_IXR_FRAMING b"
  "(isr AND UART_RX_LINE_ERR_MASK b) AND XUARTPS_IXR_PARITY b = isr AND XUARTPS_IXR_PARITY b"
  by (auto simp: UART_RX_LINE_ERR_MASK_def bit_eq_iff bit_and_iff bit_or_iff)

lemma no_pending_bit:
  "isr AND UART_RX_LINE_ERR_MASK b = 0 \<Longrightarrow>
     isr AND XUARTPS_IXR_OVER b = 0 \<and> isr AND XUARTPS_IXR_FRAMING b = 0 \<and>
     isr AND XUARTPS_IXR_PARITY b = 0"
  using pending_bit [of isr b] by simp

text \<open>
  One poll of the receiver counts every latched line error once, each in its own counter,
  acknowledges exactly the error bits that were latched in one register write (none if none
  was), delivers the received byte if there is one and leaves the caller's byte alone otherwise.
\<close>

theorem uart_poll_counts_errors:
  assumes "s_uart_ready s"
    and "uart_drv_try_get_char b isr has_data fifo (Some ch) s = (got, out, s')"
  shows "got = has_data \<and> out = Some (if has_data then fifo else ch) \<and>
    rx_overrun (s_err_counters s') = rx_overrun (s_err_counters s)
      + (if isr AND XUARTPS_IXR_OVER b \<noteq> 0 then 1 else 0) \<and>
    rx_framing (s_err_counters s') = rx_framing (s_err_counters s)
      + (if isr AND XUARTPS_IXR_FRAMING b \<noteq> 0 then 1 else 0) \<and>
    rx_parity (s_err_counters s') = rx_parity (s_err_counters s)
      + (if isr AND XUARTPS_IXR_PARITY b \<noteq> 0 then 1 else 0) \<and>
    uart_calls s' = uart_calls s @
      (if isr AND UART_RX_LINE_ERR_MASK b = 0 then []
       else [XUartPs_WriteReg (s_uart_base s) XUARTPS_ISR_OFFSET (isr AND UART_RX_LINE_ERR_MASK b)])"
proof (cases "isr AND UART_RX_LINE_ERR_MASK b = 0")
  case True
  then show ?thesis
    using assms no_pending_bit [OF True]
    by (auto simp: uart_drv_try_get_char_def uart_collect_line_errors_def Let_def split: if_splits)
next
  case False
  then show ?thesis
    using assms
    by (auto simp: uart_drv_try_get_char_def uart_collect_line_errors_def uart_call_def Let_def
        pending_bit split: if_splits)
qed

lemma uart_poll_counts_errors_witness:
  "\<exists>b s s'. uart_drv_try_get_char b 0x60 True CHR ''d'' (Some CHR ''x'') s = (True, Some CHR ''d'', s') \<and>
     s_err_counters s' = \<lparr>rx_overrun = 1, rx_framing = 8, rx_parity = 9\<rparr>"
proof -
  let ?b = "\<lparr>XUARTPS_IXR_OVER = 0x20, XUARTPS_IXR_FRAMING = 0x40, XUARTPS_IXR_PARITY = 0x80,
    XUARTPS_SR_TXEMPTY = 0x8, XUARTPS_SR_TACTIVE = 0x800\<rparr>"
  let ?s = "\<lparr>s_uart_base = 0xE0001000, s_uart_ready = True,
    s_err_counters = \<lparr>rx_overrun = 0, rx_framing = 7, rx_parity = 9\<rparr>, uart_calls = []\<rparr>"
  obtain got out s' where *:
    "uart_drv_try_get_char ?b 0x60 True CHR ''d'' (Some CHR ''x'') ?s = (got, out, s')"
    using prod_cases3 by blast
  have "got = True \<and> out = Some CHR ''d'' \<and> rx_overrun (s_err_counters s') = 1 \<and>
    rx_framing (s_err_counters s') = 8 \<and> rx_parity (s_err_counters s') = 9"
    using uart_poll_counts_errors [OF _ *] by simp
  then have "s_err_counters s' = \<lparr>rx_overrun = 1, rx_framing = 8, rx_parity = 9\<rparr>" by simp
  with * \<open>got = True \<and> _\<close> show ?thesis by blast
qed

end
