(* ===== verification/Console.thy ===== *)
theory Console
  imports Uart
begin

text \<open>
  \<open>system/console.c\<close>: the text layer over the UART, and what it uses of the C library's
  formatted output. A C string is the memory from its pointer on; running off its end is
  \<open>None\<close>. The first section models the conversions of \<open>printf\<close> that the program uses (flags
  \<open>-\<close> and \<open>0\<close>, a width or \<open>*\<close>, the length \<open>l\<close>, and \<open>u\<close>, \<open>X\<close> on the 32-bit
  target, and \<open>c\<close> and \<open>s\<close>), so that the format strings of the code are the format strings of the model.
  What an earlier call left in the format buffer lies behind the terminator and is not read.
\<close>

section \<open>Formatted output of the C library\<close>

definition digit_char :: "nat \<Rightarrow> char" where
  "digit_char n = char_of (48 + n)"

definition digit_val :: "char \<Rightarrow> nat" where
  "digit_val c = of_char c - 48"

definition is_digit :: "char \<Rightarrow> bool" where
  "is_digit c \<longleftrightarrow> 48 \<le> (of_char c :: nat) \<and> (of_char c :: nat) \<le> 57"

fun dec_str :: "nat \<Rightarrow> string" where
  "dec_str n = (if n < 10 then [digit_char n] else dec_str (n div 10) @ [digit_char (n mod 10)])"

declare dec_str.simps [simp del]

definition hex_digit_char :: "nat \<Rightarrow> char" where
  "hex_digit_char n = (if n < 10 then char_of (48 + n) else char_of (55 + n))"

fun hex_str :: "nat \<Rightarrow> string" where
  "hex_str n = (if n < 16 then [hex_digit_char n] else hex_str (n div 16) @ [hex_digit_char (n mod 16)])"

declare hex_str.simps [simp del]

datatype printf_arg = UInt u32 | SInt int | Str string | Chr char

datatype printf_mode = Plain | Directive bool bool nat

definition pad_field :: "bool \<Rightarrow> char \<Rightarrow> nat \<Rightarrow> string \<Rightarrow> string" where
  "pad_field left fill w t =
     (if left then t @ replicate (w - length t) CHR '' '' else replicate (w - length t) fill @ t)"

definition num_fill :: "bool \<Rightarrow> char" where
  "num_fill zero = (if zero then CHR ''0'' else CHR '' '')"

text \<open>\<open>None\<close>: the arguments do not fit the format, which C leaves undefined.\<close>

fun printf_go :: "printf_mode \<Rightarrow> string \<Rightarrow> printf_arg list \<Rightarrow> string option" where
  "printf_go Plain [] args = Some []"
| "printf_go Plain (c # cs) args =
     (if c = CHR ''%'' then printf_go (Directive False False 0) cs args
      else map_option (\<lambda>t. c # t) (printf_go Plain cs args))"
| "printf_go (Directive left zero w) [] args = None"
| "printf_go (Directive left zero w) (c # cs) args =
     (if c = CHR ''-'' then printf_go (Directive True zero w) cs args
      else if c = CHR ''0'' \<and> w = 0 then printf_go (Directive left True w) cs args
      else if is_digit c
        then printf_go (Directive left zero (10 * w + digit_val c)) cs args
      else if c = CHR ''*''
        then (case args of
                SInt n # args \<Rightarrow> printf_go (Directive (left \<or> n < 0) zero (nat \<bar>n\<bar>)) cs args
              | _ \<Rightarrow> None)
      else if c = CHR ''l'' then printf_go (Directive left zero w) cs args
      else case args of
          UInt v # args \<Rightarrow>
            if c = CHR ''u'' then map_option (\<lambda>t. pad_field left (num_fill zero) w (dec_str (unat v)) @ t)
                                    (printf_go Plain cs args)
            else if c = CHR ''X'' then map_option (\<lambda>t. pad_field left (num_fill zero) w (hex_str (unat v)) @ t)
                                         (printf_go Plain cs args)
            else None
        | Str v # args \<Rightarrow>
            if c = CHR ''s'' then map_option (\<lambda>t. pad_field left CHR '' '' w v @ t)
                                    (printf_go Plain cs args)
            else None
        | Chr v # args \<Rightarrow>
            if c = CHR ''c'' then map_option (\<lambda>t. pad_field left CHR '' '' w [v] @ t)
                                    (printf_go Plain cs args)
            else None
        | _ \<Rightarrow> None)"

definition printf_text :: "string \<Rightarrow> printf_arg list \<Rightarrow> string option" where
  "printf_text fmt args = printf_go Plain fmt args"

definition NUL :: char where "NUL = CHR 0x00"
definition CR :: char where "CR = CHR 0x0D"
definition LF :: char where "LF = CHR 0x0A"

text \<open>
  \<open>snprintf\<close>: the result in the buffer, cut to \<open>n - 1\<close> characters and terminated, and the
  length the whole text has (negative if it does not fit an \<open>int\<close>).
\<close>

definition snprintf :: "char list \<Rightarrow> nat \<Rightarrow> string \<Rightarrow> printf_arg list \<Rightarrow> (int \<times> char list) option" where
  "snprintf buf n fmt args = do {
     t \<leftarrow> printf_text fmt args;
     if 2147483647 < length t then Some (-1, buf)
     else if n = 0 then Some (int (length t), buf)
     else let w = take (n - 1) t @ [NUL]
          in if length w \<le> length buf then Some (int (length t), w @ drop (length w) buf) else None
   }"

text \<open>The memory of a string literal, and the text that a pointer to a terminated string is.\<close>

definition lit :: "string \<Rightarrow> char list option" where
  "lit t = Some (t @ [NUL])"

definition c_string :: "char list \<Rightarrow> string" where
  "c_string m = takeWhile (\<lambda>c. c \<noteq> NUL) m"

section \<open>The code\<close>

definition CONSOLE_FMT_BUF_LEN :: nat where "CONSOLE_FMT_BUF_LEN = 256"
definition CONSOLE_MAX_DECIMALS :: u32 where "CONSOLE_MAX_DECIMALS = 3"

fun console_write_from :: "char list \<Rightarrow> uart_state \<Rightarrow> uart_state option" where
  "console_write_from [] s = None"
| "console_write_from (c # text) s =
     (if c \<noteq> NUL
      then let s = (if c = LF then uart_drv_put_char CR s else s)
           in console_write_from text (uart_drv_put_char c s)
      else Some s)"

definition console_write :: "char list option \<Rightarrow> uart_state \<Rightarrow> uart_state option" where
  "console_write text s = (case text of None \<Rightarrow> Some s | Some t \<Rightarrow> console_write_from t s)"

fun write_dec_loop :: "char list \<Rightarrow> nat \<Rightarrow> u32 \<Rightarrow> (char list \<times> nat) option" where
  "write_dec_loop digits 0 value = None"
| "write_dec_loop digits (Suc cursor) value = do {
     digits \<leftarrow> arr_set digits cursor (char_of (unat (48 + value mod 10)));
     let value = value div 10;
     if value \<noteq> 0 then write_dec_loop digits cursor value else Some (digits, cursor)
   }"

text \<open>\<open>digits\<close> is the array on the stack with whatever it holds.\<close>

definition console_write_dec_in :: "char list \<Rightarrow> u32 \<Rightarrow> uart_state \<Rightarrow> uart_state option" where
  "console_write_dec_in digits value s = do {
     let cursor = length digits - 1;
     digits \<leftarrow> arr_set digits cursor NUL;
     (digits, cursor) \<leftarrow> write_dec_loop digits cursor value;
     console_write (Some (drop cursor digits)) s
   }"

definition console_write_dec :: "u32 \<Rightarrow> uart_state \<Rightarrow> uart_state option" where
  "console_write_dec value s = console_write_dec_in (replicate 11 CHR 0xFF) value s"

definition console_printf :: "string \<Rightarrow> printf_arg list \<Rightarrow> uart_state \<Rightarrow> uart_state option" where
  "console_printf fmt args s = do {
     (needed_len, s_fmt_buf) \<leftarrow> snprintf (replicate CONSOLE_FMT_BUF_LEN NUL) CONSOLE_FMT_BUF_LEN fmt args;
     if needed_len < 0 then Some s
     else do {
       s \<leftarrow> console_write (Some s_fmt_buf) s;
       if nat needed_len \<ge> CONSOLE_FMT_BUF_LEN then console_write (lit ''~\<newline>'') s else Some s
     }
   }"

definition pow10_table :: "u32 list" where
  "pow10_table = [1, 10, 100, 1000]"

text \<open>The memory the result points to, and the buffer afterwards.\<close>

definition console_fmt_milli ::
  "char list option \<Rightarrow> nat \<Rightarrow> int \<Rightarrow> u32 \<Rightarrow> (char list \<times> char list option) option" where
  "console_fmt_milli buf buf_len milli_value decimals =
     (case buf of None \<Rightarrow> Some ([NUL], buf)
      | Some b \<Rightarrow>
          if buf_len = 0 then Some ([NUL], buf)
          else do {
            let decimals = (if decimals > CONSOLE_MAX_DECIMALS then CONSOLE_MAX_DECIMALS else decimals);
            let (sign, magnitude) =
              (if milli_value < 0 then (''-'', (word_of_int (- (milli_value + 1)) :: u32) + 1)
               else ('''', word_of_int milli_value));
            drop_divisor \<leftarrow> arr_get pow10_table (unat (CONSOLE_MAX_DECIMALS - decimals));
            let magnitude = (magnitude + drop_divisor div 2) div drop_divisor;
            frac_unit \<leftarrow> arr_get pow10_table (unat decimals);
            let sign = (if magnitude = 0 then '''' else sign);
            (_, b) \<leftarrow>
              (if decimals = 0 then snprintf b buf_len ''%s%lu'' [Str sign, UInt magnitude]
               else snprintf b buf_len ''%s%lu.%0*lu''
                      [Str sign, UInt (magnitude div frac_unit), SInt (sint decimals),
                       UInt (magnitude mod frac_unit)]);
            Some (b, Some b)
          })"

section \<open>What reaches the terminal\<close>

definition crlf :: "string \<Rightarrow> string" where
  "crlf t = concat (map (\<lambda>c. if c = LF then [CR, LF] else [c]) t)"

lemma crlf_simps [simp]:
  "crlf [] = []" "crlf (c # t) = (if c = LF then [CR, LF] else [c]) @ crlf t"
  "crlf (t @ u) = crlf t @ crlf u"
  by (simp_all add: crlf_def)

definition console_text :: "string \<Rightarrow> uart_state \<Rightarrow> uart_state" where
  "console_text t s = (if s_uart_ready s then send_all (crlf t) s else s)"

lemma console_text_fields [simp]:
  "s_uart_ready (console_text t s) = s_uart_ready s" "s_uart_base (console_text t s) = s_uart_base s"
  "s_err_counters (console_text t s) = s_err_counters s"
  by (simp_all add: console_text_def)

lemma console_text_append [simp]: "console_text u (console_text t s) = console_text (t @ u) s"
  by (simp add: console_text_def)

lemma console_text_Nil [simp]: "console_text [] s = s"
  by (simp add: console_text_def)

lemma sent_console_text:
  "s_uart_ready s \<Longrightarrow> sent (console_text t s) = sent s @ crlf t"
  by (simp add: console_text_def)

lemma console_write_from_eq:
  "NUL \<notin> set t \<Longrightarrow> console_write_from (t @ NUL # rest) s = Some (console_text t s)"
  by (induction t arbitrary: s)
     (auto simp: console_text_def put_char_ready Let_def)

lemma console_write_lit: "NUL \<notin> set t \<Longrightarrow> console_write (lit t) s = Some (console_text t s)"
  by (simp add: console_write_def lit_def console_write_from_eq)

lemma wait_tx_idle_text [simp]:
  "uart_drv_wait_tx_idle bits srs (console_text t u) = uart_drv_wait_tx_idle bits srs u"
  by (simp add: uart_drv_wait_tx_idle_def)

section \<open>Reading numerals back\<close>

definition dec_value :: "string \<Rightarrow> nat" where
  "dec_value t = foldl (\<lambda>a c. 10 * a + digit_val c) 0 t"

text \<open>
  A decimal numeral: optional minus sign, digits, and a point with more digits if there is a
  fraction. The result is the value in units of the last digit and the number of digits after
  the point.
\<close>

definition read_decimal :: "string \<Rightarrow> (int \<times> nat) option" where
  "read_decimal t =
     (let neg = (take 1 t = ''-''); u = (if neg then drop 1 t else t);
          ip = takeWhile is_digit u; rest = dropWhile is_digit u; fp = drop 1 rest
      in if ip \<noteq> [] \<and> (rest = [] \<or> take 1 rest = ''.'' \<and> fp \<noteq> [] \<and> list_all is_digit fp)
         then Some (if neg then - int (dec_value (ip @ fp)) else int (dec_value (ip @ fp)), length fp)
         else None)"

lemma foldl_dec: "foldl (\<lambda>a c. 10 * a + digit_val c) n t = n * 10 ^ length t + dec_value t"
proof (induction t arbitrary: n)
  case Nil
  then show ?case by (simp add: dec_value_def)
next
  case (Cons c t)
  have "dec_value (c # t) = digit_val c * 10 ^ length t + dec_value t"
    using Cons [of "digit_val c"] by (simp add: dec_value_def)
  then show ?case using Cons [of "10 * n + digit_val c"] by (simp add: algebra_simps)
qed

lemma dec_value_append: "dec_value (t @ u) = dec_value t * 10 ^ length u + dec_value u"
  unfolding dec_value_def foldl_append by (rule foldl_dec [unfolded dec_value_def])

lemma dec_value_Nil [simp]: "dec_value [] = 0"
  by (simp add: dec_value_def)

lemma digit_val_char [simp]: "n < 10 \<Longrightarrow> digit_val (digit_char n) = n"
  by (simp add: digit_val_def digit_char_def)

lemma is_digit_char [simp]: "n < 10 \<Longrightarrow> is_digit (digit_char n)"
  by (simp add: is_digit_def digit_char_def)

lemma dec_value_single [simp]: "dec_value [c] = digit_val c"
  by (simp add: dec_value_def)

lemma dec_value_dec_str [simp]: "dec_value (dec_str n) = n"
  by (induction n rule: dec_str.induct) (subst dec_str.simps, simp add: dec_value_append)

lemma dec_str_digits: "c \<in> set (dec_str n) \<Longrightarrow> is_digit c"
proof (induction n rule: dec_str.induct)
  case (1 n)
  then show ?case by (subst (asm) (2) dec_str.simps) (auto split: if_splits)
qed

lemma dec_str_not_Nil [simp]: "dec_str n \<noteq> []"
  by (subst dec_str.simps) simp

lemma dec_str_no_leading_zero: "0 < n \<Longrightarrow> hd (dec_str n) \<noteq> CHR ''0''"
proof (induction n rule: dec_str.induct)
  case (1 n)
  show ?case
  proof (cases "n < 10")
    case True
    have "digit_val (digit_char n) \<noteq> digit_val CHR ''0''"
      using True "1.prems" by (simp add: digit_val_def [of "CHR ''0''"])
    then have "digit_char n \<noteq> CHR ''0''" by metis
    with True show ?thesis by (subst dec_str.simps) simp
  next
    case False
    then have "hd (dec_str (n div 10)) \<noteq> CHR ''0''" by (intro "1.IH") simp_all
    with False show ?thesis by (subst dec_str.simps) simp
  qed
qed

lemma length_dec_str: "n < 10 ^ k \<Longrightarrow> 0 < k \<Longrightarrow> length (dec_str n) \<le> k"
proof (induction n arbitrary: k rule: dec_str.induct)
  case (1 n)
  show ?case
  proof (cases "n < 10")
    case True
    with "1.prems" show ?thesis by (subst dec_str.simps) simp
  next
    case False
    then obtain j where j: "k = Suc j" "0 < j"
      using "1.prems" by (cases k; cases "k - 1") auto
    have "n div 10 < 10 ^ j"
      using "1.prems"(1) j by (simp add: less_mult_imp_div_less mult.commute)
    then have "length (dec_str (n div 10)) \<le> j" using False j(2) by (intro "1.IH") simp_all
    with False j show ?thesis by (subst dec_str.simps) simp
  qed
qed

lemma not_digit [simp]: "\<not> is_digit NUL" "\<not> is_digit LF" "\<not> is_digit CR" "\<not> is_digit CHR ''.''"
  "\<not> is_digit CHR ''-''" "is_digit CHR ''0''" "digit_val CHR ''0'' = 0"
  by (simp_all add: is_digit_def digit_val_def NUL_def LF_def CR_def)

lemma NUL_dec_str [simp]: "NUL \<notin> set (dec_str n)"
  using dec_str_digits not_digit(1) by blast

section \<open>Writing\<close>

lemma dec_char: "char_of (unat (48 + v mod 10 :: u32)) = digit_char (unat v mod 10)"
proof -
  have "unat (v mod 10) = unat v mod 10" by (simp add: unat_mod)
  then have "unat (48 + v mod 10) = 48 + unat v mod 10" by (simp add: unat_u32_add)
  then show ?thesis by (simp add: digit_char_def)
qed

lemma write_dec_loop_eq:
  assumes "length (dec_str (unat v)) \<le> cursor" and "cursor \<le> length ds"
  shows "write_dec_loop ds cursor v =
    Some (take (cursor - length (dec_str (unat v))) ds @ dec_str (unat v) @ drop cursor ds,
          cursor - length (dec_str (unat v)))"
  using assms
proof (induction ds cursor v rule: write_dec_loop.induct)
  case (1 ds v)
  then show ?case by simp
next
  case (2 ds cursor v)
  let ?c = "digit_char (unat v mod 10)"
  have in_array: "cursor < length ds" using "2.prems" by simp
  have v10: "unat (v div 10) = unat v div 10" by (simp add: unat_div)
  have split: "drop cursor (ds[cursor := ?c]) = ?c # drop (Suc cursor) ds"
    using in_array by (simp add: Cons_nth_drop_Suc [symmetric])
  show ?case
  proof (cases "v div 10 = 0")
    case True
    then have "unat v < 10" using v10 by auto
    then have "dec_str (unat v) = [?c]" by (subst dec_str.simps) simp
    moreover have "ds[cursor := ?c] = take cursor ds @ ?c # drop (Suc cursor) ds"
      using in_array by (simp add: upd_conv_take_nth_drop)
    ultimately show ?thesis using True in_array by (simp add: dec_char)
  next
    case False
    then have big: "\<not> unat v < 10" using v10 unat_0_iff [of "v div 10"] by auto
    then have ds: "dec_str (unat v) = dec_str (unat (v div 10)) @ [?c]"
      by (subst dec_str.simps) (simp add: v10)
    have "write_dec_loop (ds[cursor := ?c]) cursor (v div 10) =
        Some (take (cursor - length (dec_str (unat (v div 10)))) (ds[cursor := ?c])
               @ dec_str (unat (v div 10)) @ drop cursor (ds[cursor := ?c]),
              cursor - length (dec_str (unat (v div 10))))"
      using "2.IH" [of "ds[cursor := ?c]" "v div 10"] "2.prems" in_array False ds
      by (simp add: dec_char)
    then show ?thesis
      using False in_array ds by (simp add: dec_char split take_update_cancel)
  qed
qed

lemma console_write_dec_in_eq:
  assumes "length ds = 11"
  shows "console_write_dec_in ds v s = Some (console_text (dec_str (unat v)) s)"
proof -
  have len: "length (dec_str (unat v)) \<le> 10"
    by (rule length_dec_str) (simp_all add: order_less_trans [OF unat_u32_lt])
  have upd: "drop 10 (ds[10 := NUL]) = [NUL]"
    using assms by (simp add: drop_update_swap Cons_nth_drop_Suc [symmetric])
  show ?thesis
    using assms len
    by (simp add: console_write_dec_in_def write_dec_loop_eq console_write_def upd
        console_write_from_eq [of _ "[]", simplified])
qed

lemma console_write_dec_eq: "console_write_dec v s = Some (console_text (dec_str (unat v)) s)"
  by (simp add: console_write_dec_def console_write_dec_in_eq)

section \<open>The fixed-point formatter\<close>

definition round_milli :: "int \<Rightarrow> nat \<Rightarrow> nat" where
  "round_milli x k = (nat \<bar>x\<bar> + 10 ^ (3 - k) div 2) div 10 ^ (3 - k)"

definition milli_text :: "int \<Rightarrow> nat \<Rightarrow> string" where
  "milli_text x k =
     (let m = round_milli x k
      in (if x < 0 \<and> m \<noteq> 0 then ''-'' else '''') @ dec_str (m div 10 ^ k) @
         (if k = 0 then '''' else CHR ''.'' # pad_field False CHR ''0'' k (dec_str (m mod 10 ^ k))))"

lemma unat_word_of_int_u32: "0 \<le> y \<Longrightarrow> y < 4294967296 \<Longrightarrow> unat (word_of_int y :: u32) = nat y"
proof -
  assume "0 \<le> y" "y < 4294967296"
  then have "take_bit 32 y = y" by (intro take_bit_int_eq_self) simp_all
  then have "uint (word_of_int y :: u32) = y" by (simp add: uint_word_of_int_eq)
  then show ?thesis by (simp only: unat_eq_nat_uint)
qed

lemma milli_magnitude:
  "- 2147483648 \<le> x \<Longrightarrow> x < 0 \<Longrightarrow> unat ((word_of_int (- (x + 1)) :: u32) + 1) = nat (- x)"
  "0 \<le> x \<Longrightarrow> x < 2147483648 \<Longrightarrow> unat (word_of_int x :: u32) = nat x"
proof -
  have "(word_of_int (- (x + 1)) :: u32) + 1 = word_of_int (- (x + 1) + 1)"
    by (simp only: wi_hom_add word_1_wi)
  also have "- (x + 1) + 1 = - x" by simp
  finally have eq: "(word_of_int (- (x + 1)) :: u32) + 1 = word_of_int (- x)" .
  show "- 2147483648 \<le> x \<Longrightarrow> x < 0 \<Longrightarrow> unat ((word_of_int (- (x + 1)) :: u32) + 1) = nat (- x)"
    unfolding eq by (rule unat_word_of_int_u32) simp_all
  show "0 \<le> x \<Longrightarrow> x < 2147483648 \<Longrightarrow> unat (word_of_int x :: u32) = nat x"
    by (rule unat_word_of_int_u32) simp_all
qed

lemma unat_round:
  "unat w \<le> 2147483648 \<Longrightarrow> unat d \<le> 1000 \<Longrightarrow>
     unat ((w + d div 2) div d :: u32) = (unat w + unat d div 2) div unat d"
  by (simp add: unat_div unat_u32_add)

lemma round_milli_le: "round_milli x k \<le> nat \<bar>x\<bar> + 500"
proof -
  have "(10::nat) ^ (3 - k) \<le> 10 ^ 3" by (rule power_increasing) simp_all
  then have "(10::nat) ^ (3 - k) div 2 \<le> 500" by simp
  then show ?thesis unfolding round_milli_def by (meson add_left_mono div_le_dividend order_trans)
qed

lemma printf_milli:
  "printf_text ''%s%lu'' [Str sign, UInt m] = Some (sign @ dec_str (unat m))"
  "0 \<le> k \<Longrightarrow> printf_text ''%s%lu.%0*lu'' [Str sign, UInt i, SInt k, UInt f] =
     Some (sign @ dec_str (unat i) @ CHR ''.'' # pad_field False CHR ''0'' (nat k) (dec_str (unat f)))"
  by (simp_all add: printf_text_def pad_field_def is_digit_def num_fill_def)

lemma le3_cases: "k \<le> 3 \<Longrightarrow> k = 0 \<or> k = 1 \<or> k = 2 \<or> k = 3" for k :: nat
  by arith

lemma milli_whole:
  assumes "k \<le> 3" "\<bar>x\<bar> \<le> 2147483648"
  shows "round_milli x k div 10 ^ k < 10 ^ 7"
proof -
  have "nat \<bar>x\<bar> \<le> 2147483648" using assms(2) by simp
  then have "(nat \<bar>x\<bar> + h) div 1000 < 10 ^ 7" if "h \<le> 500" for h
    using that by (simp add: div_less_iff_less_mult)
  moreover have "(10::nat) ^ (3 - k) * 10 ^ k = 1000"
    using assms(1) by (simp flip: power_add)
  moreover have "(10::nat) ^ (3 - k) div 2 \<le> 500"
    using le3_cases [OF assms(1)] by auto
  ultimately show ?thesis
    by (simp add: round_milli_def div_mult2_eq [symmetric])
qed

lemma length_frac: "0 < k \<Longrightarrow> length (pad_field False c k (dec_str (m mod 10 ^ k))) = k"
proof -
  assume "0 < k"
  then have "length (dec_str (m mod 10 ^ k)) \<le> k" by (intro length_dec_str) simp_all
  then show ?thesis by (simp add: pad_field_def)
qed

lemma length_milli_text:
  assumes "k \<le> 3" "\<bar>x\<bar> \<le> 2147483648"
  shows "length (milli_text x k) \<le> 12"
proof -
  have "length (dec_str (round_milli x k div 10 ^ k)) \<le> 7"
    by (rule length_dec_str [OF milli_whole [OF assms]]) simp
  then show ?thesis
    using assms(1) length_frac [of k "CHR ''0''" "round_milli x k"]
    by (cases "k = 0") (simp_all add: milli_text_def Let_def)
qed

lemma snprintf_fits:
  assumes "printf_text fmt args = Some t" "length t < n" "n \<le> length b" "length t \<le> 2147483647"
  shows "snprintf b n fmt args = Some (int (length t), t @ NUL # drop (Suc (length t)) b)"
  using assms by (simp add: snprintf_def)

lemma decimals_cases:
  fixes d :: u32
  defines "d' \<equiv> if d > CONSOLE_MAX_DECIMALS then CONSOLE_MAX_DECIMALS else d"
  shows "d' = of_nat (min (unat d) 3)"
proof (cases "d > 3")
  case True
  then have "3 < unat d" by (simp add: word_less_nat_alt)
  with True show ?thesis by (simp add: d'_def CONSOLE_MAX_DECIMALS_def min_def)
next
  case False
  then have "unat d \<le> 3" by (simp add: word_less_nat_alt)
  with False show ?thesis by (simp add: d'_def CONSOLE_MAX_DECIMALS_def min_def)
qed

lemma console_fmt_milli_eq:
  assumes x: "- 2147483648 \<le> x" "x < 2147483648" and n: "13 \<le> n" "n \<le> length b"
    and k: "k = min (unat d) 3" and t: "t = milli_text x k"
  shows "console_fmt_milli (Some b) n x d =
    Some (t @ NUL # drop (Suc (length t)) b, Some (t @ NUL # drop (Suc (length t)) b))"
proof -
  define sg where "sg = (if x < 0 then ''-'' else '''')"
  define w where "w = (if x < 0 then (word_of_int (- (x + 1)) :: u32) + 1 else word_of_int x)"
  have uw: "unat w = nat \<bar>x\<bar>"
    using x milli_magnitude [of x] by (cases "x < 0") (simp_all add: w_def)
  then have w: "unat w \<le> 2147483648" using x by arith
  have sw: "(if x < 0 then (''-'', (word_of_int (- (x + 1)) :: u32) + 1) else ('''', word_of_int x)) = (sg, w)"
    by (simp add: sg_def w_def)
  have k3: "k \<le> 3" using k by simp
  have tlen: "length t \<le> 12" using x unfolding t by (intro length_milli_text k3) arith
  have dd: "unat (pow10_table ! (3 - k)) = 10 ^ (3 - k)"
    using le3_cases [OF k3] by (auto simp: pow10_table_def)
  have dd_le: "(10::nat) ^ (3 - k) \<le> 1000" using le3_cases [OF k3] by auto
  have fu: "unat (pow10_table ! k) = 10 ^ k"
    using le3_cases [OF k3] by (auto simp: pow10_table_def)
  have tab: "arr_get pow10_table (unat (CONSOLE_MAX_DECIMALS - of_nat k)) = Some (pow10_table ! (3 - k))"
      "arr_get pow10_table (unat (of_nat k :: u32)) = Some (pow10_table ! k)"
      "sint (of_nat k :: u32) = int k" "(of_nat k :: u32) = 0 \<longleftrightarrow> k = 0"
    using le3_cases [OF k3] by (auto simp: pow10_table_def CONSOLE_MAX_DECIMALS_def)
  define m where "m = (w + pow10_table ! (3 - k) div 2) div pow10_table ! (3 - k)"
  have um: "unat m = round_milli x k"
    using w by (simp add: m_def unat_round dd dd_le uw round_milli_def)
  have m0: "m = 0 \<longleftrightarrow> round_milli x k = 0" using um unat_0_iff [of m] by simp
  have fits: "snprintf b n fmt args = Some (int (length t), t @ NUL # drop (Suc (length t)) b)"
    if "printf_text fmt args = Some t" for fmt args
    using that tlen n by (intro snprintf_fits) simp_all
  have sgm: "(if m = 0 then '''' else sg) = (if x < 0 \<and> round_milli x k \<noteq> 0 then ''-'' else '''')"
    by (simp add: m0 sg_def)
  have tx0: "printf_text ''%s%lu'' [Str (if m = 0 then '''' else sg), UInt m] = Some t" if "k = 0"
    using that by (simp only: printf_milli sgm um t milli_text_def Let_def) simp
  have tx1: "printf_text ''%s%lu.%0*lu'' [Str (if m = 0 then '''' else sg),
      UInt (m div pow10_table ! k), SInt (int k), UInt (m mod pow10_table ! k)] = Some t" if "k \<noteq> 0"
    using that
    by (simp only: printf_milli of_nat_0_le_iff sgm um t milli_text_def Let_def unat_div unat_mod fu nat_int) simp
  have "0 < n" using n by simp
  with fits [OF tx0] fits [OF tx1] show ?thesis
    unfolding console_fmt_milli_def option.case decimals_cases k [symmetric] Let_def sw prod.case tab bind.bind_lunit
      m_def [symmetric]
    by (cases "k = 0") simp_all
qed

lemma takeWhile_digits:
  "list_all is_digit t \<Longrightarrow> takeWhile is_digit (t @ u) = t @ takeWhile is_digit u"
  "list_all is_digit t \<Longrightarrow> dropWhile is_digit (t @ u) = dropWhile is_digit u"
  by (induction t) simp_all

lemma dec_str_all [simp]: "list_all is_digit (dec_str n)"
  using dec_str_digits by (auto simp: list_all_iff)

lemma pad_all: "list_all is_digit t \<Longrightarrow> list_all is_digit (pad_field False CHR ''0'' k t)"
  by (auto simp: pad_field_def list_all_iff)

lemma dec_value_zeros: "dec_value (replicate n CHR ''0'') = 0"
  by (induction n) (simp_all add: replicate_append_same [symmetric] dec_value_append del: replicate_Suc,
      simp add: replicate_append_same [symmetric] dec_value_append)

lemma dec_value_pad [simp]: "dec_value (pad_field False CHR ''0'' k t) = dec_value t"
  by (simp add: pad_field_def dec_value_append dec_value_zeros)

lemma hd_dec_str: "take 1 (dec_str n @ u) \<noteq> ''-''"
proof -
  have "hd (dec_str n) \<noteq> CHR ''-''"
    using dec_str_digits [OF hd_in_set [OF dec_str_not_Nil]] not_digit(5) by metis
  then show ?thesis by (cases "dec_str n") (simp_all add: dec_str_not_Nil [simplified])
qed

lemma read_milli_text:
  "read_decimal (milli_text x k) =
     Some (if x < 0 then - int (round_milli x k) else int (round_milli x k), k)"
proof -
  let ?m = "round_milli x k"
  let ?ip = "dec_str (?m div 10 ^ k)" and ?fp = "pad_field False CHR ''0'' k (dec_str (?m mod 10 ^ k))"
  define u where "u = ?ip @ (if k = 0 then '''' else CHR ''.'' # ?fp)"
  have split: "takeWhile is_digit u = ?ip"
      "dropWhile is_digit u = (if k = 0 then '''' else CHR ''.'' # ?fp)"
    by (simp_all add: u_def takeWhile_digits)
  have fp: "list_all is_digit ?fp" by (simp add: pad_all)
  have val: "dec_value (?ip @ (if k = 0 then '''' else ?fp)) = ?m"
    by (simp add: dec_value_append length_frac [simplified] div_mult_mod_eq mult.commute)
  have dig: "k = 0 \<Longrightarrow> c \<in> set u \<Longrightarrow> is_digit c" for c
    by (simp add: u_def dec_str_digits)
  have "take 1 u \<noteq> ''-''" unfolding u_def by (rule hd_dec_str)
  moreover have "milli_text x k = (if x < 0 \<and> ?m \<noteq> 0 then ''-'' else '''') @ u"
    by (simp add: milli_text_def u_def Let_def)
  ultimately show ?thesis
    using fp val length_frac [of k "CHR ''0''" ?m]
    by (cases "k = 0") (auto simp: read_decimal_def Let_def split intro: dig simp flip: length_greater_0_conv)
qed

lemma crlf_id: "LF \<notin> set t \<Longrightarrow> crlf t = t"
  by (induction t) auto

lemma crlf_drop_CR: "filter (\<lambda>c. c \<noteq> CR) (crlf t) = filter (\<lambda>c. c \<noteq> CR) t"
  by (induction t) (auto simp: CR_def LF_def)

lemma crlf_pairs: "i < length (crlf t) \<Longrightarrow> crlf t ! i = LF \<Longrightarrow> 0 < i \<and> crlf t ! (i - 1) = CR"
proof (induction t arbitrary: i)
  case Nil
  then show ?case by simp
next
  case (Cons c t)
  show ?case
  proof (cases "c = LF")
    case True
    show ?thesis
    proof (cases i)
      case 0
      with True Cons.prems show ?thesis by (simp add: CR_def LF_def)
    next
      case (Suc j)
      with True Cons.prems Cons.IH [of "j - 1"] show ?thesis
        by (cases j; cases "j - 1") auto
    qed
  next
    case False
    with Cons.prems show ?thesis
      using Cons.IH [of "i - 1"] by (cases i; cases "i - 1") auto
  qed
qed

lemma LF_dec_str [simp]: "LF \<notin> set (dec_str n)"
  using dec_str_digits not_digit(2) by blast

lemma console_printf_eq:
  assumes "printf_text fmt args = Some t" "NUL \<notin> set t" "length t \<le> 2147483647"
  shows "console_printf fmt args s =
    Some (console_text (if length t < 256 then t else take 255 t @ ''~\<newline>'') s)"
proof -
  have "NUL \<notin> set (take 255 t)" using assms(2) by (meson in_set_takeD)
  then have "console_write (Some (take 255 t @ NUL # rest)) s = Some (console_text (take 255 t) s)" for rest
    by (simp add: console_write_def console_write_from_eq)
  moreover have "console_write (lit ''~\<newline>'') s' = Some (console_text ''~\<newline>'' s')" for s'
    by (rule console_write_lit) (simp add: NUL_def)
  ultimately show ?thesis
    using assms(1,3)
    by (auto simp: console_printf_def snprintf_def CONSOLE_FMT_BUF_LEN_def)
qed

section \<open>Code that only prints\<close>

text \<open>
  What a printing function must be for its caller to come back: it returns, and all it did was to
  send some text. The rules follow the structure of the code, so that for each function only the
  fit of formats and arguments is left to compute.
\<close>

definition prints :: "uart_state \<Rightarrow> uart_state option \<Rightarrow> bool" where
  "prints u r \<longleftrightarrow> (\<exists>t. r = Some (console_text t u))"

lemma prints_Some [intro, simp]: "prints u (Some u)"
  unfolding prints_def by (rule exI [of _ "[]"]) simp

lemma prints_text [intro, simp]: "prints u (Some (console_text t u))"
  by (auto simp: prints_def)

lemma printsE:
  assumes "prints u r"
  obtains t where "r = Some (console_text t u)"
  using assms by (auto simp: prints_def)

lemma prints_lit: "NUL \<notin> set t \<Longrightarrow> prints u (console_write (lit t) u)"
  by (simp add: console_write_lit)

lemma console_write_from_prints: "NUL \<in> set m \<Longrightarrow> prints u (console_write_from m u)"
proof -
  assume "NUL \<in> set m"
  then obtain t rest where "m = t @ NUL # rest" "NUL \<notin> set t" by (meson split_list_first)
  then show ?thesis by (simp add: console_write_from_eq)
qed

lemma prints_bind:
  assumes "prints u r" "\<And>t. prints (console_text t u) (f (console_text t u))"
  shows "prints u (r \<bind> f)"
proof -
  obtain t where t: "r = Some (console_text t u)" using assms(1) by (rule printsE)
  obtain t' where "f (console_text t u) = Some (console_text t' (console_text t u))"
    using assms(2) by (rule printsE)
  with t show ?thesis by simp
qed

lemma prints_printf:
  assumes "printf_text fmt args \<noteq> None"
  shows "prints u (console_printf fmt args u)"
proof -
  obtain t where t: "printf_text fmt args = Some t" using assms by blast
  have wr: "prints u' (console_write (Some (take 255 t @ NUL # rest)) u')" for u' rest
    by (simp add: console_write_def console_write_from_prints)
  have mark: "console_write (lit ''~\<newline>'') u' = Some (console_text ''~\<newline>'' u')" for u'
    by (rule console_write_lit) (simp add: NUL_def)
  show ?thesis
  proof (cases "length t \<le> 2147483647")
    case True
    obtain x where "console_write (Some (take 255 t @ NUL # drop (Suc (min (length t) 255)) (replicate 256 NUL))) u
        = Some (console_text x u)"
      using wr by (rule printsE)
    then show ?thesis
      using t True mark by (simp add: console_printf_def snprintf_def CONSOLE_FMT_BUF_LEN_def)
  next
    case False
    then show ?thesis
      using t by (simp add: console_printf_def snprintf_def CONSOLE_FMT_BUF_LEN_def)
  qed
qed

lemma prints_for_each:
  "(\<And>x u. x \<in> set xs \<Longrightarrow> prints u (body x u)) \<Longrightarrow> prints u (for_each body xs u)"
proof (induction xs arbitrary: u)
  case Nil
  then show ?case by simp
next
  case (Cons x xs)
  show ?case
    using Cons by (simp only: for_each.simps) (rule prints_bind, simp_all)
qed

lemma prints_if: "(c \<Longrightarrow> prints u a) \<Longrightarrow> (\<not> c \<Longrightarrow> prints u b) \<Longrightarrow> prints u (if c then a else b)"
  by simp

lemmas printf_eval = printf_text_def is_digit_def digit_val_def

text \<open>The UART of the examples: up, nothing sent yet.\<close>

definition uart_up :: uart_state where
  "uart_up = \<lparr>s_uart_base = 0xE0001000, s_uart_ready = True,
     s_err_counters = \<lparr>rx_overrun = 0, rx_framing = 0, rx_parity = 0\<rparr>, uart_calls = []\<rparr>"

lemma uart_up_simps [simp]: "s_uart_ready uart_up" "sent uart_up = []"
  by (simp_all add: uart_up_def sent_def)

lemma NUL_milli_text [simp]: "NUL \<notin> set (milli_text x k)"
  using not_digit(1) by (auto simp: milli_text_def Let_def pad_field_def NUL_def [symmetric] simp del: not_digit)
    (auto simp: NUL_def)

lemma takeWhile_append2': "x \<notin> set t \<Longrightarrow> takeWhile (\<lambda>c. c \<noteq> x) (t @ x # u) = t"
  by (induction t) auto

lemma nearest_multiple:
  fixes a q :: int
  assumes "0 < q"
  shows "2 * \<bar>(a + q div 2) div q * q - a\<bar> \<le> q"
proof -
  define r where "r = (a + q div 2) mod q"
  have "(a + q div 2) div q * q = a + q div 2 - r"
    by (simp add: r_def minus_mod_eq_div_mult)
  moreover have "0 \<le> r" "r < q" using assms by (simp_all add: r_def)
  ultimately show ?thesis by (simp only:) arith
qed

lemma round_milli_nearest:
  "2 * \<bar>(if x < 0 then - int (round_milli x k) else int (round_milli x k)) * 10 ^ (3 - k) - x\<bar>
    \<le> 10 ^ (3 - k)"
proof -
  have "int (round_milli x k) = (\<bar>x\<bar> + 10 ^ (3 - k) div 2) div 10 ^ (3 - k)"
    by (simp add: round_milli_def zdiv_int)
  then have "2 * \<bar>int (round_milli x k) * 10 ^ (3 - k) - \<bar>x\<bar>\<bar> \<le> 10 ^ (3 - k)"
    using nearest_multiple [of "10 ^ (3 - k)" "\<bar>x\<bar>"] by simp
  then show ?thesis by (cases "x < 0") (simp_all add: abs_if split: if_splits)
qed

lemma hd_milli_text:
  "hd (milli_text x k) = CHR ''-'' \<longleftrightarrow>
     (if x < 0 then - int (round_milli x k) else int (round_milli x k)) < 0"
proof -
  have "hd (dec_str n @ u) \<noteq> CHR ''-''" for n u
    using dec_str_digits [OF hd_in_set [OF dec_str_not_Nil]] not_digit(5) by (metis dec_str_not_Nil hd_append2)
  then show ?thesis by (auto simp: milli_text_def Let_def)
qed

section \<open>Properties\<close>

text \<open>
  Writing a terminated string on a UART that is up stops exactly at the terminator and
  sends the text's characters in order, adding nothing but carriage returns, and every line
  feed on the wire comes right after a carriage return.
\<close>

theorem console_write_translates:
  assumes "s_uart_ready s" "NUL \<notin> set t"
  shows "\<exists>s' out. console_write (Some (t @ NUL # rest)) s = Some s' \<and> sent s' = sent s @ out \<and>
    filter (\<lambda>c. c \<noteq> CR) out = filter (\<lambda>c. c \<noteq> CR) t \<and>
    list_all (\<lambda>i. out ! i = LF \<longrightarrow> 0 < i \<and> out ! (i - 1) = CR) [0..<length out]"
  using assms
  using crlf_pairs [of _ t]
  by (auto simp: console_write_def console_write_from_eq sent_console_text crlf_drop_CR list_all_iff)

lemma console_write_translates_witness:
  "\<exists>s' out. console_write (Some (''a'' @ NUL # ''junk'')) uart_up = Some s' \<and> sent s' = out \<and>
     filter (\<lambda>c. c \<noteq> CR) out = ''a''"
  using console_write_translates [of uart_up "''a''" "''junk''"]
  by (auto simp: NUL_def CR_def)

text \<open>
  C36: Printing an unsigned value without \<open>printf\<close> never leaves its 11-character buffer, for
  every 32-bit value and whatever the stack held, and sends the canonical decimal numeral of
  the value: digits only, at most ten, no leading zero.
\<close>

theorem console_write_dec_numeral:
  assumes "s_uart_ready s" "length ds = 11"
  shows "\<exists>s' num. console_write_dec_in ds v s = Some s' \<and> sent s' = sent s @ num \<and>
    dec_value num = unat v \<and> list_all is_digit num \<and> num \<noteq> [] \<and> length num \<le> 10 \<and>
    (v \<noteq> 0 \<longrightarrow> hd num \<noteq> CHR ''0'')"
proof -
  have "length (dec_str (unat v)) \<le> 10"
    by (rule length_dec_str) (simp_all add: order_less_trans [OF unat_u32_lt])
  moreover have "v \<noteq> 0 \<longrightarrow> hd (dec_str (unat v)) \<noteq> CHR ''0''"
    using dec_str_no_leading_zero [of "unat v"] by (simp add: unat_gt_0)
  ultimately show ?thesis
    using assms by (simp add: console_write_dec_in_eq sent_console_text crlf_id)
qed

lemma console_write_dec_numeral_witness:
  "\<exists>s' num. console_write_dec_in (replicate 11 CHR ''x'') 0xFFFFFFFF uart_up = Some s' \<and>
     sent s' = num \<and> dec_value num = 4294967295"
  using console_write_dec_numeral [of uart_up "replicate 11 CHR ''x''" "0xFFFFFFFF"] by auto

text \<open>
  C28: The fixed-point formatter, for every \<open>int32_t\<close> (the most negative one included) and every
  number of decimals, writes a decimal numeral with that many digits after the point (at most
  3), whose value is a multiple of the last digit nearest to the given value, with a minus sign
  only if the printed value is negative; it takes at most 12 characters, so the callers'
  16-byte buffers hold it with its terminator.
\<close>

theorem console_fmt_milli_nearest:
  assumes "- 2147483648 \<le> x" "x < 2147483648" "13 \<le> n" "n \<le> length b"
    and "k = min (unat d) 3"
  shows "\<exists>m v. console_fmt_milli (Some b) n x d = Some (m, Some m) \<and> length m = length b \<and>
    read_decimal (c_string m) = Some (v, k) \<and> 2 * \<bar>v * 10 ^ (3 - k) - x\<bar> \<le> 10 ^ (3 - k) \<and>
    (hd (c_string m) = CHR ''-'' \<longleftrightarrow> v < 0) \<and> length (c_string m) \<le> 12"
proof -
  have k3: "k \<le> 3" using assms(5) by simp
  define t where "t = milli_text x k"
  define v where "v = (if x < 0 then - int (round_milli x k) else int (round_milli x k))"
  have len: "length t \<le> 12" using assms(1,2) unfolding t_def by (intro length_milli_text k3) arith
  have "c_string (t @ NUL # drop (Suc (length t)) b) = t"
    unfolding c_string_def using NUL_milli_text [of x k] by (simp add: t_def takeWhile_append2')
  moreover have "read_decimal t = Some (v, k)" unfolding t_def v_def by (rule read_milli_text)
  moreover have "2 * \<bar>v * 10 ^ (3 - k) - x\<bar> \<le> 10 ^ (3 - k)"
    unfolding v_def by (rule round_milli_nearest)
  moreover have "hd t = CHR ''-'' \<longleftrightarrow> v < 0" unfolding t_def v_def by (rule hd_milli_text)
  ultimately show ?thesis
    using console_fmt_milli_eq [OF assms t_def] len assms(3,4) by auto
qed

lemma console_fmt_milli_nearest_witness:
  "\<exists>m v. console_fmt_milli (Some (replicate 16 CHR ''x'')) 16 (- 2147483648) 2 = Some (m, Some m) \<and>
     read_decimal (c_string m) = Some (v, 2) \<and> 2 * \<bar>v * 10 + 2147483648\<bar> \<le> 10"
  using console_fmt_milli_nearest [of "- 2147483648" 16 "replicate 16 CHR ''x''" 2 2] by auto

text \<open>
  C37: \<open>console_printf\<close> sends the whole formatted text when it fits the 256-byte buffer, and
  otherwise its first 255 characters followed by a visible mark and a line feed; it writes
  nothing outside the buffer.
\<close>

theorem console_printf_marks_truncation:
  assumes "s_uart_ready s" "printf_text fmt args = Some t" "NUL \<notin> set t" "length t \<le> 2147483647"
  shows "\<exists>s'. console_printf fmt args s = Some s' \<and>
    sent s' = sent s @ crlf (if length t < 256 then t else take 255 t @ ''~\<newline>'')"
  unfolding console_printf_eq [OF assms(2-4)]
  by (intro exI conjI, rule refl, rule sent_console_text [OF assms(1)])

lemma console_printf_marks_truncation_witness:
  "\<exists>s'. console_printf ''%s'' [Str (replicate 300 CHR ''a'')] uart_up = Some s' \<and>
     sent s' = replicate 255 CHR ''a'' @ [CHR ''~'', CR, LF]"
proof -
  have "printf_text ''%s'' [Str (replicate 300 CHR ''a'')] = Some (replicate 300 CHR ''a'')"
    by (simp add: printf_text_def is_digit_def pad_field_def)
  from console_printf_marks_truncation [of uart_up, OF _ this] show ?thesis
    by (simp add: NUL_def crlf_id LF_def CR_def)
qed

end
