(* ===== verification/Wdt.thy ===== *)
theory Wdt
  imports Prelude
begin

text \<open>
  \<open>drivers/wdt_drv.c\<close>: the system watchdog. The static variables are \<open>wdt_state\<close>, the calls to
  the Xilinx driver are recorded in \<open>wdt_calls\<close>; what that driver answers and the watchdog clock
  (from the configuration table or the board header, depending on the build flow) are the
  arguments in \<open>wdt_init_env\<close>.
\<close>

section \<open>The code\<close>

datatype wdt_drv_status_t = WDT_DRV_OK | WDT_DRV_ERR_LOOKUP | WDT_DRV_ERR_INIT | WDT_DRV_ERR_RANGE

datatype wdt_ccr =
    XWDTPS_CCR_PSCALE_0008 | XWDTPS_CCR_PSCALE_0064 | XWDTPS_CCR_PSCALE_0512 | XWDTPS_CCR_PSCALE_4096

datatype wdt_call =
    XWdtPs_Stop
  | XWdtPs_SetControlValue_CLK_PRESCALE wdt_ccr
  | XWdtPs_SetControlValue_COUNTER_RESET u32
  | XWdtPs_EnableOutput_RESET
  | XWdtPs_DisableOutput_IRQ
  | XWdtPs_Start
  | XWdtPs_RestartWdt

record wdt_prescaler_t =
  ccr_value :: wdt_ccr
  divider :: u32

record wdt_state =
  s_wdt_ready :: bool
  s_wdt_running :: bool
  s_timeout_ms :: u32
  wdt_calls :: "wdt_call list"

record wdt_init_env =
  XWdtPs_LookupConfig_ok :: bool
  XWdtPs_CfgInitialize_ok :: bool
  wdt_clock_hz :: u32

definition WDT_CRV_MAX :: u64 where "WDT_CRV_MAX = 0xFFF"
definition WDT_CRV_SHIFT :: nat where "WDT_CRV_SHIFT = 12"

definition s_prescalers :: "wdt_prescaler_t list" where
  "s_prescalers =
     [\<lparr>ccr_value = XWDTPS_CCR_PSCALE_0008, divider = 8\<rparr>,
      \<lparr>ccr_value = XWDTPS_CCR_PSCALE_0064, divider = 64\<rparr>,
      \<lparr>ccr_value = XWDTPS_CCR_PSCALE_0512, divider = 512\<rparr>,
      \<lparr>ccr_value = XWDTPS_CCR_PSCALE_4096, divider = 4096\<rparr>]"

definition wdt_call :: "wdt_call \<Rightarrow> wdt_state \<Rightarrow> wdt_state" where
  "wdt_call c s = s\<lparr>wdt_calls := wdt_calls s @ [c]\<rparr>"

text \<open>The search loop over the prescaler table, from some entry on.\<close>

fun wdt_find_prescaler ::
  "u32 \<Rightarrow> u64 \<Rightarrow> wdt_prescaler_t list \<Rightarrow> wdt_state \<Rightarrow> wdt_drv_status_t \<times> wdt_state" where
  "wdt_find_prescaler timeout_ms clock_hz [] s = (WDT_DRV_ERR_RANGE, s)"
| "wdt_find_prescaler timeout_ms clock_hz (p # ps) s =
     (let counts = (ucast timeout_ms * clock_hz) div (1000 * ucast (divider p));
          crv = drop_bit WDT_CRV_SHIFT counts
      in if crv > WDT_CRV_MAX then wdt_find_prescaler timeout_ms clock_hz ps s
      else let s = wdt_call (XWdtPs_SetControlValue_CLK_PRESCALE (ccr_value p)) s;
               s = wdt_call (XWdtPs_SetControlValue_COUNTER_RESET (ucast crv)) s;
               s = wdt_call XWdtPs_EnableOutput_RESET s;
               s = wdt_call XWdtPs_DisableOutput_IRQ s;
               s = s\<lparr>s_timeout_ms :=
                       ucast ((push_bit WDT_CRV_SHIFT (crv + 1) * ucast (divider p) * 1000) div clock_hz)\<rparr>
           in (WDT_DRV_OK, s\<lparr>s_wdt_ready := True\<rparr>))"

definition wdt_drv_init :: "wdt_init_env \<Rightarrow> u32 \<Rightarrow> wdt_state \<Rightarrow> wdt_drv_status_t \<times> wdt_state" where
  "wdt_drv_init env timeout_ms s =
     (let s = s\<lparr>s_wdt_ready := False\<rparr>
      in if timeout_ms = 0 then (WDT_DRV_ERR_RANGE, s)
      else if \<not> XWdtPs_LookupConfig_ok env then (WDT_DRV_ERR_LOOKUP, s)
      else if \<not> XWdtPs_CfgInitialize_ok env then (WDT_DRV_ERR_INIT, s)
      else let clock_hz = (ucast (wdt_clock_hz env) :: u64)
      in if clock_hz = 0 then (WDT_DRV_ERR_INIT, s)
      else wdt_find_prescaler timeout_ms clock_hz s_prescalers (wdt_call XWdtPs_Stop s))"

definition wdt_drv_start :: "wdt_state \<Rightarrow> wdt_state" where
  "wdt_drv_start s =
     (if \<not> s_wdt_ready s then s
      else (wdt_call XWdtPs_RestartWdt (wdt_call XWdtPs_Start s))\<lparr>s_wdt_running := True\<rparr>)"

definition wdt_drv_kick :: "wdt_state \<Rightarrow> wdt_state" where
  "wdt_drv_kick s = (if s_wdt_running s then wdt_call XWdtPs_RestartWdt s else s)"

definition wdt_drv_is_running :: "wdt_state \<Rightarrow> bool" where
  "wdt_drv_is_running s = s_wdt_running s"

definition wdt_drv_timeout_ms :: "wdt_state \<Rightarrow> u32" where
  "wdt_drv_timeout_ms s = (if s_wdt_running s then s_timeout_ms s else 0)"

section \<open>The timeout arithmetic\<close>

text \<open>Over the naturals: the counter reload value for a divider, and the period it gives.\<close>

definition crv_for :: "nat \<Rightarrow> nat \<Rightarrow> nat \<Rightarrow> nat" where
  "crv_for timeout clock d = timeout * clock div (1000 * d) div 4096"

definition period_ms :: "nat \<Rightarrow> nat \<Rightarrow> nat \<Rightarrow> nat" where
  "period_ms clock crv d = (crv + 1) * 4096 * d * 1000 div clock"

definition dividers :: "nat list" where
  "dividers = [8, 64, 512, 4096]"

lemma unat_u64_mult: "unat a * unat b < 18446744073709551616 \<Longrightarrow> unat (a * b :: u64) = unat a * unat b"
  by (simp add: unat_word_ariths)

lemma unat_ucast_64 [simp]: "unat (ucast (w :: u32) :: u64) = unat w"
  by (simp add: unsigned_ucast_eq take_bit_nat_eq_self order_less_trans [OF unat_u32_lt])

lemma unat_u32_le: "unat (w :: u32) \<le> 4294967295"
  using unat_u32_lt [of w] by linarith

lemma u32_product: "unat (a :: u32) * unat (b :: u32) < 18446744073709551616"
proof -
  have "unat a * unat b \<le> 4294967295 * 4294967295"
    by (intro mult_mono unat_u32_le) simp_all
  then show ?thesis by simp
qed

lemma unat_numeral_64: "unat (1000 :: u64) = 1000"
  by simp

lemma crv_exact:
  assumes "unat d \<le> 4096"
  shows "unat (drop_bit WDT_CRV_SHIFT ((ucast (t :: u32) * ucast (c :: u32)) div (1000 * ucast (d :: u32)) :: u64))
    = crv_for (unat t) (unat c) (unat d)"
proof -
  have "unat (1000 * ucast d :: u64) = 1000 * unat d"
    using assms by (subst unat_u64_mult) simp_all
  moreover have "unat (ucast t * ucast c :: u64) = unat t * unat c"
    using u32_product [of t c] by (subst unat_u64_mult) simp_all
  ultimately show ?thesis
    by (simp add: crv_for_def WDT_CRV_SHIFT_def unsigned_drop_bit_eq drop_bit_eq_div unat_div)
qed

lemma period_below:
  assumes "crv \<le> 4095" "d \<le> 4096" "16000 < c"
  shows "period_ms c crv d < 4294967296"
proof -
  have le: "(crv + 1) * 4096 * d \<le> 4096 * 4096 * 4096"
    using assms(1,2) by (intro mult_mono) simp_all
  have "n * 1000 < 4294967296 * k" if "n \<le> 4096 * 4096 * 4096" "16000 < k" for n k :: nat
    using that by linarith
  from this [OF le assms(3)] show ?thesis
    using assms(3) by (simp add: period_ms_def div_less_iff_less_mult)
qed

lemma period_exact:
  assumes "crv \<le> 4095" "unat (v :: u64) = crv" "unat d \<le> 4096" "16000 < unat c"
  shows "unat (ucast ((push_bit WDT_CRV_SHIFT (v + 1) * ucast (d :: u32) * 1000) div ucast (c :: u32) :: u64) :: u32)
    = period_ms (unat c) crv (unat d)"
proof -
  have s: "unat (push_bit WDT_CRV_SHIFT (v + 1)) = (crv + 1) * 4096"
  proof -
    have "unat (v + 1) = crv + 1" using assms(1,2) by (simp add: unat_word_ariths)
    moreover have "push_bit WDT_CRV_SHIFT (v + 1) = (v + 1) * 4096"
      by (simp add: WDT_CRV_SHIFT_def push_bit_eq_mult)
    ultimately show ?thesis
      using assms(1) by (simp only: unat_u64_mult) (subst unat_u64_mult, simp_all)
  qed
  have le: "(crv + 1) * 4096 * unat d \<le> 4096 * 4096 * 4096"
    using assms(1,3) by (intro mult_mono) simp_all
  then have m1: "unat (push_bit WDT_CRV_SHIFT (v + 1) * ucast d) = (crv + 1) * 4096 * unat d"
    by (subst unat_u64_mult) (simp_all add: s)
  have m2: "unat (push_bit WDT_CRV_SHIFT (v + 1) * ucast d * 1000) = (crv + 1) * 4096 * unat d * 1000"
  proof -
    have "n * 1000 < 18446744073709551616" if "n \<le> 4096 * 4096 * 4096" for n :: nat
      using that by simp
    from this [OF le] show ?thesis
      by (subst unat_u64_mult) (simp_all only: m1 unat_numeral_64)
  qed
  have "period_ms (unat c) crv (unat d) < 4294967296"
    using assms(1,3,4) by (rule period_below)
  then show ?thesis
    by (simp add: unsigned_ucast_eq take_bit_eq_mod unat_div m2 period_ms_def)
qed

lemma crv_fits_iff: "0 < d \<Longrightarrow> crv_for t c d \<le> 4095 \<longleftrightarrow> t * c < 16777216000 * d"
proof -
  assume "0 < d"
  have "crv_for t c d = t * c div (4096000 * d)"
    by (simp add: crv_for_def div_mult2_eq [symmetric] mult.commute)
  moreover have "x \<le> 4095 \<longleftrightarrow> x < 4096" for x :: nat by arith
  ultimately show ?thesis
    using \<open>0 < d\<close> by (simp add: div_less_iff_less_mult mult.commute)
qed

lemma crv_bounds:
  assumes "0 < d"
  shows "crv_for t c d * 4096 * d * 1000 \<le> t * c" and "t * c < (crv_for t c d + 1) * 4096 * d * 1000"
proof -
  have *: "crv_for t c d = t * c div (4096000 * d)"
    by (simp add: crv_for_def div_mult2_eq [symmetric] mult.commute)
  show "crv_for t c d * 4096 * d * 1000 \<le> t * c"
    using div_times_less_eq_dividend [of "t * c" "4096000 * d"] by (simp add: * ac_simps)
  have "0 < 4096000 * d" using assms by simp
  then have "t * c < 4096000 * d + t * c div (4096000 * d) * (4096000 * d)"
    by (rule dividend_less_div_times)
  then show "t * c < (crv_for t c d + 1) * 4096 * d * 1000"
    by (simp add: * algebra_simps)
qed

lemma prescalers_bounded: "p \<in> set s_prescalers \<Longrightarrow> 0 < unat (divider p) \<and> unat (divider p) \<le> 4096"
  by (auto simp: s_prescalers_def)

section \<open>The search\<close>

definition wdt_programmed :: "u32 \<Rightarrow> u32 \<Rightarrow> wdt_prescaler_t \<Rightarrow> wdt_state \<Rightarrow> wdt_state" where
  "wdt_programmed t c p s =
     (let crv = crv_for (unat t) (unat c) (unat (divider p))
      in s\<lparr>s_timeout_ms := of_nat (period_ms (unat c) crv (unat (divider p))), s_wdt_ready := True,
           wdt_calls := wdt_calls s @ [XWdtPs_SetControlValue_CLK_PRESCALE (ccr_value p),
             XWdtPs_SetControlValue_COUNTER_RESET (of_nat crv),
             XWdtPs_EnableOutput_RESET, XWdtPs_DisableOutput_IRQ]\<rparr>)"

lemma ucast_of_unat: "unat (v :: u64) = n \<Longrightarrow> (ucast v :: u32) = of_nat n"
  by (metis of_nat_unat)

lemma wdt_find_prescaler_eq:
  assumes "16000 < unat c" "\<forall>p\<in>set ps. unat (divider p) \<le> 4096"
  shows "wdt_find_prescaler t (ucast c) ps s =
    (case find (\<lambda>p. crv_for (unat t) (unat c) (unat (divider p)) \<le> 4095) ps of
       None \<Rightarrow> (WDT_DRV_ERR_RANGE, s)
     | Some p \<Rightarrow> (WDT_DRV_OK, wdt_programmed t c p s))"
  using assms(2)
proof (induction ps)
  case Nil
  then show ?case by simp
next
  case (Cons p ps)
  let ?crv = "drop_bit WDT_CRV_SHIFT ((ucast t * ucast c) div (1000 * ucast (divider p)) :: u64)"
  have d: "unat (divider p) \<le> 4096" using Cons.prems by simp
  have crv: "unat ?crv = crv_for (unat t) (unat c) (unat (divider p))" by (rule crv_exact [OF d])
  then have gt: "?crv > WDT_CRV_MAX \<longleftrightarrow> \<not> crv_for (unat t) (unat c) (unat (divider p)) \<le> 4095"
    by (simp add: WDT_CRV_MAX_def word_less_nat_alt not_le)
  show ?case
  proof (cases "crv_for (unat t) (unat c) (unat (divider p)) \<le> 4095")
    case True
    have "(ucast ((push_bit WDT_CRV_SHIFT (?crv + 1) * ucast (divider p) * 1000) div ucast c) :: u32) =
        of_nat (period_ms (unat c) (crv_for (unat t) (unat c) (unat (divider p))) (unat (divider p)))"
      using period_exact [OF True crv d assms(1)] by (metis of_nat_unat ucast_id)
    then show ?thesis
      using True gt crv
      by (simp add: Let_def wdt_call_def wdt_programmed_def ucast_of_unat [OF crv])
  next
    case False
    then show ?thesis using gt Cons by (simp add: Let_def)
  qed
qed

lemma wdt_programmed_ok:
  assumes p: "p \<in> set s_prescalers" "unat t * unat c < 16777216000 * unat (divider p)" "16000 < unat c"
    and s': "s' = wdt_programmed t c p s"
  shows "s_wdt_ready s'" "s_wdt_running s' = s_wdt_running s"
    and "\<exists>crv\<le>4095. wdt_calls s' = wdt_calls s @ [XWdtPs_SetControlValue_CLK_PRESCALE (ccr_value p),
           XWdtPs_SetControlValue_COUNTER_RESET (of_nat crv), XWdtPs_EnableOutput_RESET,
           XWdtPs_DisableOutput_IRQ] \<and>
         crv * 4096 * unat (divider p) * 1000 \<le> unat t * unat c \<and>
         unat t * unat c < (crv + 1) * 4096 * unat (divider p) * 1000 \<and>
         unat (s_timeout_ms s') = (crv + 1) * 4096 * unat (divider p) * 1000 div unat c \<and>
         t \<le> s_timeout_ms s'"
proof -
  let ?d = "unat (divider p)"
  let ?crv = "crv_for (unat t) (unat c) ?d"
  have d: "0 < ?d" "?d \<le> 4096" using prescalers_bounded [OF p(1)] by auto
  have crv: "?crv \<le> 4095" using p(2) by (simp add: crv_fits_iff d)
  have low: "?crv * 4096 * ?d * 1000 \<le> unat t * unat c"
    and high: "unat t * unat c < (?crv + 1) * 4096 * ?d * 1000"
    using crv_bounds [OF d(1)] by simp_all
  have ms: "unat (s_timeout_ms s') = (?crv + 1) * 4096 * ?d * 1000 div unat c"
    using period_below [OF crv d(2) p(3)]
    by (simp add: s' wdt_programmed_def Let_def unat_of_nat_u32 period_ms_def)
  have "unat t \<le> (?crv + 1) * 4096 * ?d * 1000 div unat c"
    using high p(3) by (subst less_eq_div_iff_mult_less_eq) simp_all
  then have "t \<le> s_timeout_ms s'" using ms by (simp add: word_le_nat_alt)
  then show "\<exists>crv\<le>4095. wdt_calls s' = wdt_calls s @ [XWdtPs_SetControlValue_CLK_PRESCALE (ccr_value p),
           XWdtPs_SetControlValue_COUNTER_RESET (of_nat crv), XWdtPs_EnableOutput_RESET,
           XWdtPs_DisableOutput_IRQ] \<and>
         crv * 4096 * ?d * 1000 \<le> unat t * unat c \<and> unat t * unat c < (crv + 1) * 4096 * ?d * 1000 \<and>
         unat (s_timeout_ms s') = (crv + 1) * 4096 * ?d * 1000 div unat c \<and> t \<le> s_timeout_ms s'"
    using crv low high ms by (intro exI [of _ ?crv]) (simp add: s' wdt_programmed_def Let_def)
  show "s_wdt_ready s'" "s_wdt_running s' = s_wdt_running s"
    by (simp_all add: s' wdt_programmed_def Let_def)
qed

lemma wdt_init_search:
  assumes "t \<noteq> 0" "XWdtPs_LookupConfig_ok env" "XWdtPs_CfgInitialize_ok env"
    and "16000 < unat (wdt_clock_hz env)"
  shows "wdt_drv_init env t s =
    (case find (\<lambda>p. unat t * unat (wdt_clock_hz env) < 16777216000 * unat (divider p)) s_prescalers of
       None \<Rightarrow> (WDT_DRV_ERR_RANGE, wdt_call XWdtPs_Stop (s\<lparr>s_wdt_ready := False\<rparr>))
     | Some p \<Rightarrow> (WDT_DRV_OK,
         wdt_programmed t (wdt_clock_hz env) p (wdt_call XWdtPs_Stop (s\<lparr>s_wdt_ready := False\<rparr>))))"
proof -
  have "(ucast (wdt_clock_hz env) :: u64) \<noteq> 0"
    using assms(4) unat_ucast_64 [of "wdt_clock_hz env"] by (metis less_zeroE unat_0)
  then have "wdt_drv_init env t s = wdt_find_prescaler t (ucast (wdt_clock_hz env)) s_prescalers
      (wdt_call XWdtPs_Stop (s\<lparr>s_wdt_ready := False\<rparr>))"
    using assms(1-3) by (simp add: wdt_drv_init_def Let_def)
  moreover have "find (\<lambda>p. crv_for (unat t) (unat (wdt_clock_hz env)) (unat (divider p)) \<le> 4095) s_prescalers
      = find (\<lambda>p. unat t * unat (wdt_clock_hz env) < 16777216000 * unat (divider p)) s_prescalers"
    by (rule find_cong) (simp_all add: crv_fits_iff prescalers_bounded)
  ultimately show ?thesis
    using wdt_find_prescaler_eq [OF assms(4), of s_prescalers] prescalers_bounded by simp
qed

lemma find_prescaler:
  assumes "find (\<lambda>p. x < 16777216000 * unat (divider p)) s_prescalers = r"
  shows "r = None \<longleftrightarrow> 68719476736000 \<le> x"
    and "r = Some p \<Longrightarrow> p \<in> set s_prescalers \<and> x < 16777216000 * unat (divider p) \<and>
           (\<forall>q\<in>set s_prescalers. divider q < divider p \<longrightarrow> 16777216000 * unat (divider q) \<le> x)"
  using assms by (auto simp: s_prescalers_def split: if_splits)

lemma wdt_init_timeout:
  assumes "wdt_drv_init env t s = (WDT_DRV_OK, s')" "16000 < unat (wdt_clock_hz env)"
  shows "t \<le> s_timeout_ms s'"
proof -
  let ?s1 = "wdt_call XWdtPs_Stop (s\<lparr>s_wdt_ready := False\<rparr>)"
  have "t \<noteq> 0" "XWdtPs_LookupConfig_ok env" "XWdtPs_CfgInitialize_ok env"
    using assms(1) by (auto simp: wdt_drv_init_def Let_def split: if_splits)
  note search = wdt_init_search [OF this assms(2), of s]
  then obtain p where p: "find (\<lambda>p. unat t * unat (wdt_clock_hz env) < 16777216000 * unat (divider p)) s_prescalers = Some p"
    using assms(1) by (auto split: option.splits)
  then have s': "s' = wdt_programmed t (wdt_clock_hz env) p ?s1" using search assms(1) by simp
  show ?thesis
    using wdt_programmed_ok(3) [OF _ _ assms(2) s'] find_prescaler(2) [OF p refl] by auto
qed

section \<open>Any sequence of driver calls\<close>

datatype wdt_op = WdtInit wdt_init_env u32 | WdtStart | WdtKick

fun wdt_step :: "wdt_op \<Rightarrow> wdt_state \<Rightarrow> wdt_state" where
  "wdt_step (WdtInit env t) s = snd (wdt_drv_init env t s)"
| "wdt_step WdtStart s = wdt_drv_start s"
| "wdt_step WdtKick s = wdt_drv_kick s"

text \<open>Every restart of the counter comes after a start of it.\<close>

definition restarts_after_start :: "wdt_call list \<Rightarrow> bool" where
  "restarts_after_start cs \<longleftrightarrow> (\<forall>pre post. cs = pre @ XWdtPs_RestartWdt # post \<longrightarrow> XWdtPs_Start \<in> set pre)"

lemma restarts_after_start_append:
  "restarts_after_start cs \<Longrightarrow> XWdtPs_RestartWdt \<notin> set ds \<or> XWdtPs_Start \<in> set cs \<Longrightarrow>
     restarts_after_start (cs @ ds)"
  by (auto simp: restarts_after_start_def append_eq_append_conv2 append_eq_Cons_conv Cons_eq_append_conv)

definition wdt_wf :: "wdt_state \<Rightarrow> bool" where
  "wdt_wf s \<longleftrightarrow> restarts_after_start (wdt_calls s) \<and> (s_wdt_running s \<longleftrightarrow> XWdtPs_Start \<in> set (wdt_calls s))"

lemma wdt_find_calls:
  "\<exists>new. wdt_calls (snd (wdt_find_prescaler t c ps s)) = wdt_calls s @ new \<and> XWdtPs_RestartWdt \<notin> set new \<and>
     XWdtPs_Start \<notin> set new"
  "s_wdt_running (snd (wdt_find_prescaler t c ps s)) = s_wdt_running s"
  by (induction t c ps s rule: wdt_find_prescaler.induct) (auto simp: Let_def wdt_call_def)

lemma wdt_init_calls:
  "\<exists>new. wdt_calls (snd (wdt_drv_init env t s)) = wdt_calls s @ new \<and> XWdtPs_RestartWdt \<notin> set new \<and>
     XWdtPs_Start \<notin> set new"
  "s_wdt_running (snd (wdt_drv_init env t s)) = s_wdt_running s"
proof -
  show "s_wdt_running (snd (wdt_drv_init env t s)) = s_wdt_running s"
    by (simp add: wdt_drv_init_def Let_def wdt_find_calls(2) wdt_call_def)
  obtain new where "wdt_calls (snd (wdt_find_prescaler t (ucast (wdt_clock_hz env)) s_prescalers
      (wdt_call XWdtPs_Stop (s\<lparr>s_wdt_ready := False\<rparr>)))) = wdt_calls s @ XWdtPs_Stop # new"
      "XWdtPs_RestartWdt \<notin> set new" "XWdtPs_Start \<notin> set new"
    using wdt_find_calls(1) [of t "ucast (wdt_clock_hz env)" s_prescalers
        "wdt_call XWdtPs_Stop (s\<lparr>s_wdt_ready := False\<rparr>)"]
    by (auto simp: wdt_call_def)
  then show "\<exists>new. wdt_calls (snd (wdt_drv_init env t s)) = wdt_calls s @ new \<and> XWdtPs_RestartWdt \<notin> set new \<and>
     XWdtPs_Start \<notin> set new"
    by (auto simp: wdt_drv_init_def Let_def intro: exI [of _ "XWdtPs_Stop # new"])
qed

lemma wdt_step_wf [wf_intros]:
  assumes "wdt_wf s"
  shows "wdt_wf (wdt_step op s)"
proof (cases op)
  case (WdtInit env t)
  then show ?thesis
    using assms wdt_init_calls [of env t s] by (auto simp: wdt_wf_def intro: restarts_after_start_append)
next
  case WdtStart
  have "restarts_after_start (wdt_calls s @ [XWdtPs_Start] @ [XWdtPs_RestartWdt])"
    using assms restarts_after_start_append [of "wdt_calls s" "[XWdtPs_Start]"]
      restarts_after_start_append [of "wdt_calls s @ [XWdtPs_Start]" "[XWdtPs_RestartWdt]"]
    by (simp add: wdt_wf_def)
  then show ?thesis
    using WdtStart assms by (simp add: wdt_wf_def wdt_drv_start_def wdt_call_def)
next
  case WdtKick
  then show ?thesis
    using assms restarts_after_start_append [of "wdt_calls s" "[XWdtPs_RestartWdt]"]
    by (auto simp: wdt_wf_def wdt_drv_kick_def wdt_call_def)
qed

definition wdt_reset :: wdt_state where
  "wdt_reset = \<lparr>s_wdt_ready = False, s_wdt_running = False, s_timeout_ms = 0, wdt_calls = []\<rparr>"

section \<open>Properties\<close>

text \<open>
  C26: For a watchdog clock above 16 kHz, initialisation succeeds exactly when the requested
  timeout is within the longest period of the 24-bit counter; it then programs the smallest
  prescaler the timeout fits, a reload value that fits its 12-bit field and whose period is
  longer than the requested timeout by at most one block of 4096 prescaled clocks; it selects
  the reset output and not the interrupt, stops the counter first, does not start it, and the
  timeout it will report is that period, never less than the requested one. Otherwise the
  driver stays unusable.
\<close>

theorem wdt_init_correct:
  assumes "t \<noteq> 0" "XWdtPs_LookupConfig_ok env" "XWdtPs_CfgInitialize_ok env"
    and "16000 < unat (wdt_clock_hz env)" "wdt_drv_init env t s = (status, s')"
    and "c = unat (wdt_clock_hz env)"
  shows "s_wdt_running s' = s_wdt_running s \<and> (s_wdt_ready s' \<longleftrightarrow> status = WDT_DRV_OK) \<and>
    (status = WDT_DRV_OK \<longleftrightarrow> unat t * c < 2 ^ 24 * 4096 * 1000) \<and>
    (status \<noteq> WDT_DRV_OK \<longrightarrow> status = WDT_DRV_ERR_RANGE \<and> wdt_calls s' = wdt_calls s @ [XWdtPs_Stop]) \<and>
    (status = WDT_DRV_OK \<longrightarrow> (\<exists>p\<in>set s_prescalers. \<exists>crv\<le>4095.
       wdt_calls s' = wdt_calls s @ [XWdtPs_Stop, XWdtPs_SetControlValue_CLK_PRESCALE (ccr_value p),
         XWdtPs_SetControlValue_COUNTER_RESET (of_nat crv), XWdtPs_EnableOutput_RESET,
         XWdtPs_DisableOutput_IRQ] \<and>
       crv * 4096 * unat (divider p) * 1000 \<le> unat t * c \<and>
       unat t * c < (crv + 1) * 4096 * unat (divider p) * 1000 \<and>
       (\<forall>q\<in>set s_prescalers. divider q < divider p \<longrightarrow>
          2 ^ 24 * unat (divider q) * 1000 \<le> unat t * c) \<and>
       unat (s_timeout_ms s') = (crv + 1) * 4096 * unat (divider p) * 1000 div c \<and>
       t \<le> s_timeout_ms s'))"
proof -
  let ?s1 = "wdt_call XWdtPs_Stop (s\<lparr>s_wdt_ready := False\<rparr>)"
  let ?r = "find (\<lambda>p. unat t * c < 16777216000 * unat (divider p)) s_prescalers"
  have res: "(status, s') = (case ?r of None \<Rightarrow> (WDT_DRV_ERR_RANGE, ?s1)
      | Some p \<Rightarrow> (WDT_DRV_OK, wdt_programmed t (wdt_clock_hz env) p ?s1))"
    using wdt_init_search [OF assms(1-4), of s] assms(5,6) by simp
  show ?thesis
  proof (cases ?r)
    case None
    then show ?thesis using res find_prescaler(1) [OF None] by (simp add: wdt_call_def)
  next
    case (Some p)
    have s': "status = WDT_DRV_OK" "s' = wdt_programmed t (wdt_clock_hz env) p ?s1"
      using res Some by simp_all
    have p: "p \<in> set s_prescalers" "unat t * c < 16777216000 * unat (divider p)"
        "\<forall>q\<in>set s_prescalers. divider q < divider p \<longrightarrow> 16777216000 * unat (divider q) \<le> unat t * c"
        "unat t * c < 68719476736000"
      using find_prescaler [OF Some] by auto
    note ok = wdt_programmed_ok [OF p(1) p(2) [unfolded assms(6)] assms(4) s'(2), folded assms(6)]
    show ?thesis
      using ok p s'(1) by (auto simp: wdt_call_def)
  qed
qed

lemma wdt_init_correct_witness:
  "\<exists>s'. wdt_drv_init \<lparr>XWdtPs_LookupConfig_ok = True, XWdtPs_CfgInitialize_ok = True,
     wdt_clock_hz = 111111115\<rparr> 2000 wdt_reset = (WDT_DRV_OK, s') \<and>
     XWdtPs_SetControlValue_CLK_PRESCALE XWDTPS_CCR_PSCALE_0064 \<in> set (wdt_calls s') \<and>
     XWdtPs_SetControlValue_COUNTER_RESET 847 \<in> set (wdt_calls s') \<and> 2000 \<le> s_timeout_ms s'"
proof -
  let ?env = "\<lparr>XWdtPs_LookupConfig_ok = True, XWdtPs_CfgInitialize_ok = True, wdt_clock_hz = 111111115\<rparr>"
  obtain status s' where run: "wdt_drv_init ?env 2000 wdt_reset = (status, s')" by fastforce
  note main = wdt_init_correct [OF _ _ _ _ run refl]
  have ok: "status = WDT_DRV_OK" using main by simp
  then obtain p crv where p: "p \<in> set s_prescalers" "crv \<le> 4095"
      "wdt_calls s' = [XWdtPs_Stop, XWdtPs_SetControlValue_CLK_PRESCALE (ccr_value p),
         XWdtPs_SetControlValue_COUNTER_RESET (of_nat crv), XWdtPs_EnableOutput_RESET,
         XWdtPs_DisableOutput_IRQ]"
      "crv * 4096 * unat (divider p) * 1000 \<le> 222222230000"
      "222222230000 < (crv + 1) * 4096 * unat (divider p) * 1000"
      "\<forall>q\<in>set s_prescalers. divider q < divider p \<longrightarrow> 2 ^ 24 * unat (divider q) * 1000 \<le> 222222230000"
      "2000 \<le> s_timeout_ms s'"
    using main by (auto simp: wdt_reset_def)
  have "p = \<lparr>ccr_value = XWDTPS_CCR_PSCALE_0064, divider = 64\<rparr>"
    using p(1,2,5,6) by (auto simp: s_prescalers_def)
  moreover from this have "crv = 847" using p(4,5) by simp
  ultimately show ?thesis using run ok p(3,7) by simp
qed

text \<open>
  C27: Whatever sequence of calls the driver sees from reset on, the counter is never restarted
  before it was started, and the driver says it runs exactly if it was started.
\<close>

theorem wdt_never_kicks_early:
  "restarts_after_start (wdt_calls (fold wdt_step ops wdt_reset)) \<and>
   (s_wdt_running (fold wdt_step ops wdt_reset) \<longleftrightarrow>
      XWdtPs_Start \<in> set (wdt_calls (fold wdt_step ops wdt_reset)))"
proof -
  have "wdt_wf s \<Longrightarrow> wdt_wf (fold wdt_step ops s)" for s
    by (induction ops arbitrary: s) (simp_all add: wdt_step_wf)
  moreover have "wdt_wf wdt_reset" by (simp add: wdt_wf_def wdt_reset_def restarts_after_start_def)
  ultimately show ?thesis by (simp add: wdt_wf_def)
qed

end
