(* ===== verification/Watchdog_Task.thy ===== *)
theory Watchdog_Task
  imports Sensor_Record Console Wdt
begin

text \<open>
  \<open>tasks/task_watchdog.c\<close>: the supervisor. Its static variables are \<open>wdog_state\<close>; the loop's own
  variable \<open>kicking\<close>, the watchdog driver and the console's UART are the other components of
  \<open>wdog_task_state\<close>. The tick count read in one pass and the kernel's tick rate
  \<open>configTICK_RATE_HZ\<close> are arguments. A call that never returns is \<open>None\<close>.
\<close>

section \<open>The kernel\<close>

text \<open>\<open>vTaskDelayUntil\<close> as its documentation has it: the wake time advances by the period, however late the call.\<close>

definition delay_law :: "(u32 \<Rightarrow> u32 \<Rightarrow> u32) \<Rightarrow> bool" where
  "delay_law vTaskDelayUntil \<longleftrightarrow> (\<forall>last_wake period. vTaskDelayUntil last_wake period = last_wake + period)"

section \<open>The code\<close>

datatype wdog_client_t =
  WDOG_CLIENT_PRODUCER | WDOG_CLIENT_UI | WDOG_CLIENT_CONSUMER | WDOG_CLIENT_COUNT

fun wdog_client_index :: "wdog_client_t \<Rightarrow> nat" where
  "wdog_client_index WDOG_CLIENT_PRODUCER = 0"
| "wdog_client_index WDOG_CLIENT_UI = 1"
| "wdog_client_index WDOG_CLIENT_CONSUMER = 2"
| "wdog_client_index WDOG_CLIENT_COUNT = 3"

definition wdog_client_of :: "nat \<Rightarrow> wdog_client_t" where
  "wdog_client_of n =
     (if n = 0 then WDOG_CLIENT_PRODUCER else if n = 1 then WDOG_CLIENT_UI
      else if n = 2 then WDOG_CLIENT_CONSUMER else WDOG_CLIENT_COUNT)"

definition wdog_client_count :: nat where
  "wdog_client_count = wdog_client_index WDOG_CLIENT_COUNT"

record wdog_client_state_t =
  client_name :: string
  limit_ms :: u32
  last_checkin_tick :: u32
  hang_requested :: bool

record wdog_stats_t =
  wdog_timeout_ms :: u32
  kicks :: u32
  worst_silence_ms :: "u32 list"

record wdog_state =
  s_clients :: "wdog_client_state_t list"
  s_wdog_stats :: wdog_stats_t

record wdog_task_state =
  kicking :: bool
  wdog :: wdog_state
  wdog_wdt :: wdt_state
  wdog_uart :: uart_state

definition wdog_boot :: wdog_state where
  "wdog_boot = \<lparr>s_clients =
       [\<lparr>client_name = ''producer'', limit_ms = APP_WDT_LIMIT_PRODUCER_MS, last_checkin_tick = 0, hang_requested = False\<rparr>,
        \<lparr>client_name = ''ui'', limit_ms = APP_WDT_LIMIT_UI_MS, last_checkin_tick = 0, hang_requested = False\<rparr>,
        \<lparr>client_name = ''consumer'', limit_ms = APP_WDT_LIMIT_CONSUMER_MS, last_checkin_tick = 0, hang_requested = False\<rparr>],
     s_wdog_stats = \<lparr>wdog_timeout_ms = 0, kicks = 0, worst_silence_ms = [0, 0, 0]\<rparr>\<rparr>"

definition wdog_ticks_to_ms :: "u32 \<Rightarrow> u32 \<Rightarrow> u32" where
  "wdog_ticks_to_ms tick_hz ticks = ucast ((ucast ticks * 1000 :: u64) div ucast tick_hz)"

text \<open>Whichever way the client hangs, the call does not come back.\<close>

definition wdog_test_hang :: "wdog_client_t \<Rightarrow> 'a option" where
  "wdog_test_hang client = None"

definition wdog_report_late :: "wdog_client_t \<Rightarrow> u32 \<Rightarrow> wdog_state \<Rightarrow> wdt_state \<Rightarrow> uart_state \<Rightarrow> uart_state option" where
  "wdog_report_late client silence_ms w wdt u = do {
     u \<leftarrow> console_write (lit ''\<newline>\<newline>WATCHDOG: '') u;
     c \<leftarrow> arr_get (s_clients w) (wdog_client_index client);
     u \<leftarrow> console_write (lit (client_name c)) u;
     u \<leftarrow> console_write (lit '' has not checked in for '') u;
     u \<leftarrow> console_write_dec silence_ms u;
     if wdt_drv_is_running wdt
     then do {
       u \<leftarrow> console_write (lit '' ms, no more kicks - SWDT reset in '') u;
       u \<leftarrow> console_write_dec (wdt_drv_timeout_ms wdt) u;
       console_write (lit '' ms or less\<newline>'') u
     }
     else console_write (lit '' ms (SWDT not running, no reset)\<newline>'') u
   }"

text \<open>One round of the loop over the clients: the module's state, \<open>late_client\<close> and \<open>late_ms\<close>.\<close>

definition wdog_check_client ::
  "u32 \<Rightarrow> u32 \<Rightarrow> nat \<Rightarrow> wdog_state \<times> wdog_client_t \<times> u32 \<Rightarrow> (wdog_state \<times> wdog_client_t \<times> u32) option" where
  "wdog_check_client tick_hz now_tick idx st = do {
     let (w, late_client, late_ms) = st;
     c \<leftarrow> arr_get (s_clients w) idx;
     let silence_ms = wdog_ticks_to_ms tick_hz (now_tick - last_checkin_tick c);
     worst \<leftarrow> arr_get (worst_silence_ms (s_wdog_stats w)) idx;
     ws \<leftarrow> (if silence_ms > worst then arr_set (worst_silence_ms (s_wdog_stats w)) idx silence_ms
            else Some (worst_silence_ms (s_wdog_stats w)));
     let w = w\<lparr>s_wdog_stats := (s_wdog_stats w)\<lparr>worst_silence_ms := ws\<rparr>\<rparr>;
     if silence_ms > limit_ms c \<and> late_client = WDOG_CLIENT_COUNT
     then Some (w, wdog_client_of idx, silence_ms)
     else Some (w, late_client, late_ms)
   }"

text \<open>One pass of the task's loop, after the delay has ended at \<open>now_tick\<close>.\<close>

definition wdog_pass :: "u32 \<Rightarrow> u32 \<Rightarrow> wdog_task_state \<Rightarrow> wdog_task_state option" where
  "wdog_pass tick_hz now_tick s = do {
     (w, late_client, late_ms) \<leftarrow>
       for_each (wdog_check_client tick_hz now_tick) [0..<wdog_client_count] (wdog s, WDOG_CLIENT_COUNT, 0);
     let s = s\<lparr>wdog := w\<rparr>;
     if \<not> kicking s then Some s
     else if late_client = WDOG_CLIENT_COUNT
     then if wdt_drv_is_running (wdog_wdt s)
          then let s = s\<lparr>wdog_wdt := wdt_drv_kick (wdog_wdt s)\<rparr>
               in Some (s\<lparr>wdog := (wdog s)\<lparr>s_wdog_stats := (s_wdog_stats (wdog s))
                                       \<lparr>kicks := kicks (s_wdog_stats (wdog s)) + 1\<rparr>\<rparr>\<rparr>)
          else Some s
     else do {
       let s = s\<lparr>kicking := False\<rparr>;
       u \<leftarrow> wdog_report_late late_client late_ms (wdog s) (wdog_wdt s) (wdog_uart s);
       Some (s\<lparr>wdog_uart := u\<rparr>)
     }
   }"

definition task_watchdog_checkin :: "u32 \<Rightarrow> wdog_client_t \<Rightarrow> wdog_state \<Rightarrow> wdog_state option" where
  "task_watchdog_checkin now_tick client w =
     (if wdog_client_index client \<ge> wdog_client_count then Some w
      else do {
        c \<leftarrow> arr_get (s_clients w) (wdog_client_index client);
        if hang_requested c then wdog_test_hang client
        else do {
          cs \<leftarrow> arr_set (s_clients w) (wdog_client_index client) (c\<lparr>last_checkin_tick := now_tick\<rparr>);
          Some (w\<lparr>s_clients := cs\<rparr>)
        }
      })"

definition task_watchdog_get_stats :: "wdog_state \<Rightarrow> wdt_state \<Rightarrow> wdog_stats_t option \<Rightarrow> wdog_stats_t option" where
  "task_watchdog_get_stats w wdt stats_out =
     (if stats_out = None then None
      else Some ((s_wdog_stats w)\<lparr>wdog_timeout_ms := wdt_drv_timeout_ms wdt\<rparr>))"

definition task_watchdog_client_name :: "wdog_state \<Rightarrow> wdog_client_t \<Rightarrow> string option" where
  "task_watchdog_client_name w client =
     (if wdog_client_index client < wdog_client_count
      then map_option client_name (arr_get (s_clients w) (wdog_client_index client))
      else Some ''?'')"

definition task_watchdog_inject_hang :: "wdog_client_t \<Rightarrow> wdog_state \<Rightarrow> wdog_state option" where
  "task_watchdog_inject_hang client w =
     (if wdog_client_index client < wdog_client_count
      then do {
        c \<leftarrow> arr_get (s_clients w) (wdog_client_index client);
        cs \<leftarrow> arr_set (s_clients w) (wdog_client_index client) (c\<lparr>hang_requested := True\<rparr>);
        Some (w\<lparr>s_clients := cs\<rparr>)
      }
      else Some w)"

section \<open>One pass\<close>

definition wdog_wf :: "wdog_state \<Rightarrow> bool" where
  "wdog_wf w \<longleftrightarrow> length (s_clients w) = 3 \<and> length (worst_silence_ms (s_wdog_stats w)) = 3 \<and>
     (\<forall>c\<in>set (s_clients w). NUL \<notin> set (client_name c))"

lemma wdog_client_count_3 [simp]: "wdog_client_count = 3"
  by (simp add: wdog_client_count_def)

lemma wdog_boot_wf [simp]: "wdog_wf wdog_boot"
  by (simp add: wdog_wf_def wdog_boot_def NUL_def)

text \<open>How long a client has been silent, as the code computes it and in unbounded milliseconds.\<close>

definition silence_ms_of :: "u32 \<Rightarrow> u32 \<Rightarrow> wdog_state \<Rightarrow> nat \<Rightarrow> u32" where
  "silence_ms_of hz now w i = wdog_ticks_to_ms hz (now - last_checkin_tick (s_clients w ! i))"

definition silence :: "u32 \<Rightarrow> u32 \<Rightarrow> wdog_state \<Rightarrow> nat \<Rightarrow> nat" where
  "silence hz now w i = unat (now - last_checkin_tick (s_clients w ! i)) * 1000 div unat hz"

definition in_time :: "u32 \<Rightarrow> u32 \<Rightarrow> wdog_state \<Rightarrow> nat \<Rightarrow> bool" where
  "in_time hz now w i \<longleftrightarrow> silence_ms_of hz now w i \<le> limit_ms (s_clients w ! i)"

lemma unat_ticks_to_ms:
  assumes "unat t * 1000 div unat hz < 4294967296"
  shows "unat (wdog_ticks_to_ms hz t) = unat t * 1000 div unat hz"
proof -
  have "unat t * 1000 < 18446744073709551616"
    using unat_u32_lt [of t] by linarith
  then have "unat (ucast t * 1000 :: u64) = unat t * 1000"
    using unat_u64_mult [of "ucast t" 1000] by simp
  then have "unat ((ucast t * 1000 :: u64) div ucast hz) = unat t * 1000 div unat hz"
    by (simp add: unat_div)
  then show ?thesis
    using assms by (simp add: wdog_ticks_to_ms_def unsigned_ucast_eq take_bit_eq_mod)
qed

lemma silence_exact:
  "silence hz now w i < 4294967296 \<Longrightarrow> unat (silence_ms_of hz now w i) = silence hz now w i"
  by (simp add: silence_ms_of_def silence_def unat_ticks_to_ms)

lemma in_time_exact:
  "silence hz now w i < 4294967296 \<Longrightarrow>
     in_time hz now w i \<longleftrightarrow> silence hz now w i \<le> unat (limit_ms (s_clients w ! i))"
  by (simp add: in_time_def word_le_nat_alt silence_exact)

definition set_worst :: "nat \<Rightarrow> u32 \<Rightarrow> wdog_state \<Rightarrow> wdog_state" where
  "set_worst i ms w = w\<lparr>s_wdog_stats := (s_wdog_stats w)\<lparr>worst_silence_ms :=
     (worst_silence_ms (s_wdog_stats w))[i := max (worst_silence_ms (s_wdog_stats w) ! i) ms]\<rparr>\<rparr>"

lemma set_worst_simps [simp]:
  "s_clients (set_worst i ms w) = s_clients w"
  "kicks (s_wdog_stats (set_worst i ms w)) = kicks (s_wdog_stats w)"
  "wdog_timeout_ms (s_wdog_stats (set_worst i ms w)) = wdog_timeout_ms (s_wdog_stats w)"
  "wdog_wf (set_worst i ms w) = wdog_wf w"
  "silence_ms_of hz now (set_worst i ms w) = silence_ms_of hz now w"
  by (simp_all add: set_worst_def wdog_wf_def silence_ms_of_def fun_eq_iff)

lemma wdog_check_client_eq:
  assumes "wdog_wf w" "i < 3"
  shows "wdog_check_client hz now i (w, lc, lm) =
    Some (set_worst i (silence_ms_of hz now w i) w,
      if silence_ms_of hz now w i > limit_ms (s_clients w ! i) \<and> lc = WDOG_CLIENT_COUNT
      then (wdog_client_of i, silence_ms_of hz now w i) else (lc, lm))"
proof -
  have len: "length (s_clients w) = 3" "length (worst_silence_ms (s_wdog_stats w)) = 3"
    using assms(1) by (simp_all add: wdog_wf_def)
  show ?thesis
    using assms(2) len
    by (auto simp: wdog_check_client_def set_worst_def silence_ms_of_def Let_def max_def not_less
        list_update_id)
qed

definition all_worst :: "u32 \<Rightarrow> u32 \<Rightarrow> wdog_state \<Rightarrow> wdog_state" where
  "all_worst hz now w = set_worst 2 (silence_ms_of hz now w 2)
     (set_worst 1 (silence_ms_of hz now w 1) (set_worst 0 (silence_ms_of hz now w 0) w))"

lemma all_worst_simps [simp]:
  "s_clients (all_worst hz now w) = s_clients w"
  "kicks (s_wdog_stats (all_worst hz now w)) = kicks (s_wdog_stats w)"
  "wdog_wf (all_worst hz now w) = wdog_wf w"
  by (simp_all add: all_worst_def)

lemma all_worst_nth:
  "wdog_wf w \<Longrightarrow> i < 3 \<Longrightarrow>
     worst_silence_ms (s_wdog_stats (all_worst hz now w)) ! i =
       max (worst_silence_ms (s_wdog_stats w) ! i) (silence_ms_of hz now w i)"
  by (auto simp: all_worst_def set_worst_def wdog_wf_def nth_list_update less_Suc_eq numeral_3_eq_3)

text \<open>The first late client, if there is one.\<close>

definition first_late :: "u32 \<Rightarrow> u32 \<Rightarrow> wdog_state \<Rightarrow> nat option" where
  "first_late hz now w = find (\<lambda>i. \<not> in_time hz now w i) [0..<3]"

lemma upt_3: "[0..<3] = [0, 1, 2]"
  by (simp add: upt_rec)

lemma wdog_checks_eq:
  assumes "wdog_wf w"
  shows "for_each (wdog_check_client hz now) [0..<wdog_client_count] (w, WDOG_CLIENT_COUNT, 0) =
    Some (all_worst hz now w,
      case first_late hz now w of
        None \<Rightarrow> (WDOG_CLIENT_COUNT, 0)
      | Some i \<Rightarrow> (wdog_client_of i, silence_ms_of hz now w i))"
  using assms
  by (simp add: upt_3 first_late_def in_time_def wdog_check_client_eq all_worst_def
      wdog_client_of_def not_le)

lemma first_late_None: "first_late hz now w = None \<longleftrightarrow> list_all (in_time hz now w) [0..<3]"
  by (auto simp: first_late_def find_None_iff list_all_iff)

lemma first_late_Some:
  "first_late hz now w = Some i \<Longrightarrow> i < 3 \<and> \<not> in_time hz now w i \<and> (\<forall>j<i. in_time hz now w j)"
  by (auto simp: first_late_def upt_3 less_Suc_eq numeral_2_eq_2 split: if_splits)

text \<open>The line the supervisor prints.\<close>

definition late_text :: "string \<Rightarrow> nat \<Rightarrow> wdt_state \<Rightarrow> string" where
  "late_text name ms wdt =
     ''\<newline>\<newline>WATCHDOG: '' @ name @ '' has not checked in for '' @ dec_str ms @
     (if s_wdt_running wdt
      then '' ms, no more kicks - SWDT reset in '' @ dec_str (unat (s_timeout_ms wdt)) @ '' ms or less\<newline>''
      else '' ms (SWDT not running, no reset)\<newline>'')"

lemma wdog_report_late_eq:
  assumes "wdog_wf w" "i < 3"
  shows "wdog_report_late (wdog_client_of i) ms w wdt u =
    Some (console_text (late_text (client_name (s_clients w ! i)) (unat ms) wdt) u)"
proof -
  have i: "wdog_client_index (wdog_client_of i) = i"
    using assms(2) by (auto simp: wdog_client_of_def less_Suc_eq numeral_3_eq_3)
  have c: "arr_get (s_clients w) i = Some (s_clients w ! i)" "NUL \<notin> set (client_name (s_clients w ! i))"
    using assms by (simp_all add: wdog_wf_def)
  show ?thesis
    unfolding wdog_report_late_def i c(1) late_text_def wdt_drv_is_running_def wdt_drv_timeout_ms_def
    using c(2) by (simp add: console_write_lit console_write_dec_eq NUL_def)
qed

definition pass_next :: "u32 \<Rightarrow> u32 \<Rightarrow> wdog_task_state \<Rightarrow> wdog_task_state" where
  "pass_next hz now s =
     (let w = all_worst hz now (wdog s)
      in case first_late hz now (wdog s) of
        None \<Rightarrow>
          if kicking s \<and> s_wdt_running (wdog_wdt s)
          then s\<lparr>wdog := w\<lparr>s_wdog_stats := (s_wdog_stats w)\<lparr>kicks := kicks (s_wdog_stats w) + 1\<rparr>\<rparr>,
                 wdog_wdt := wdt_call XWdtPs_RestartWdt (wdog_wdt s)\<rparr>
          else s\<lparr>wdog := w\<rparr>
      | Some i \<Rightarrow>
          if kicking s
          then s\<lparr>wdog := w, kicking := False,
                 wdog_uart := console_text (late_text (client_name (s_clients (wdog s) ! i))
                   (unat (silence_ms_of hz now (wdog s) i)) (wdog_wdt s)) (wdog_uart s)\<rparr>
          else s\<lparr>wdog := w\<rparr>)"

lemma wdog_pass_eq:
  assumes "wdog_wf (wdog s)"
  shows "wdog_pass hz now s = Some (pass_next hz now s)"
proof (cases "first_late hz now (wdog s)")
  case None
  then show ?thesis
    by (simp add: wdog_pass_def wdog_checks_eq [OF assms, unfolded wdog_client_count_3] pass_next_def wdt_drv_is_running_def
        wdt_drv_kick_def Let_def)
next
  case (Some i)
  note late = first_late_Some [OF Some]
  have "wdog_client_of i \<noteq> WDOG_CLIENT_COUNT"
    using late by (auto simp: wdog_client_of_def less_Suc_eq numeral_3_eq_3)
  then show ?thesis
    using Some late assms
    by (simp add: wdog_pass_def wdog_checks_eq [OF assms, unfolded wdog_client_count_3] pass_next_def wdog_report_late_eq Let_def)
qed

lemma pass_next_simps [simp]:
  "s_clients (wdog (pass_next hz now s)) = s_clients (wdog s)"
  "wdog_wf (wdog (pass_next hz now s)) = wdog_wf (wdog s)"
  "s_wdt_running (wdog_wdt (pass_next hz now s)) = s_wdt_running (wdog_wdt s)"
  by (simp_all add: pass_next_def Let_def wdt_call_def wdog_wf_def all_worst_def set_worst_def
      split: option.split)

lemma pass_next_kicking:
  "kicking (pass_next hz now s) \<longleftrightarrow> kicking s \<and> list_all (in_time hz now (wdog s)) [0..<3]"
  unfolding first_late_None [symmetric] by (simp add: pass_next_def Let_def split: option.split)

lemma pass_next_calls:
  "wdt_calls (wdog_wdt (pass_next hz now s)) = wdt_calls (wdog_wdt s) @
     (if kicking (pass_next hz now s) \<and> s_wdt_running (wdog_wdt s) then [XWdtPs_RestartWdt] else [])"
  unfolding pass_next_kicking first_late_None [symmetric]
  by (auto simp: pass_next_def Let_def wdt_call_def split: option.split)

section \<open>Runs\<close>

text \<open>
  What happens to the supervisor over time: a client checks in, a hang is injected, or the
  supervisor makes a pass, each at its tick count. A client that hangs at its check-in never
  comes back, which leaves the module as it was.
\<close>

datatype wdog_event = CheckIn wdog_client_t u32 | Inject wdog_client_t | Pass u32

definition wdog_event_step :: "u32 \<Rightarrow> wdog_event \<Rightarrow> wdog_task_state \<Rightarrow> wdog_task_state option" where
  "wdog_event_step hz e s =
     (case e of
        CheckIn c now \<Rightarrow>
          (case task_watchdog_checkin now c (wdog s) of
             None \<Rightarrow> Some s | Some w \<Rightarrow> Some (s\<lparr>wdog := w\<rparr>))
      | Inject c \<Rightarrow> map_option (\<lambda>w. s\<lparr>wdog := w\<rparr>) (task_watchdog_inject_hang c (wdog s))
      | Pass now \<Rightarrow> wdog_pass hz now s)"

definition wdog_run :: "u32 \<Rightarrow> wdog_event list \<Rightarrow> wdog_task_state \<Rightarrow> wdog_task_state option" where
  "wdog_run hz es s = for_each (wdog_event_step hz) es s"

definition set_client :: "nat \<Rightarrow> wdog_client_state_t \<Rightarrow> wdog_task_state \<Rightarrow> wdog_task_state" where
  "set_client i c s = s\<lparr>wdog := (wdog s)\<lparr>s_clients := (s_clients (wdog s))[i := c]\<rparr>\<rparr>"

definition event_next :: "u32 \<Rightarrow> wdog_event \<Rightarrow> wdog_task_state \<Rightarrow> wdog_task_state" where
  "event_next hz e s =
     (case e of
        CheckIn c now \<Rightarrow>
          (let i = wdog_client_index c; st = s_clients (wdog s) ! i
           in if c = WDOG_CLIENT_COUNT \<or> hang_requested st then s
              else set_client i (st\<lparr>last_checkin_tick := now\<rparr>) s)
      | Inject c \<Rightarrow>
          (let i = wdog_client_index c; st = s_clients (wdog s) ! i
           in if c = WDOG_CLIENT_COUNT then s else set_client i (st\<lparr>hang_requested := True\<rparr>) s)
      | Pass now \<Rightarrow> pass_next hz now s)"

lemma client_index_less: "wdog_client_index c < 3 \<longleftrightarrow> c \<noteq> WDOG_CLIENT_COUNT"
  by (cases c) simp_all

lemma wdog_event_step_eq:
  assumes "wdog_wf (wdog s)"
  shows "wdog_event_step hz e s = Some (event_next hz e s)"
proof -
  have len: "length (s_clients (wdog s)) = 3" using assms by (simp add: wdog_wf_def)
  show ?thesis
  proof (cases e)
    case (CheckIn c now)
    then show ?thesis
      using len client_index_less [of c]
      by (cases "c = WDOG_CLIENT_COUNT")
         (simp_all add: wdog_event_step_def event_next_def task_watchdog_checkin_def wdog_test_hang_def
          set_client_def Let_def)
  next
    case (Inject c)
    then show ?thesis
      using len client_index_less [of c]
      by (cases "c = WDOG_CLIENT_COUNT")
         (simp_all add: wdog_event_step_def event_next_def task_watchdog_inject_hang_def set_client_def Let_def)
  next
    case (Pass now)
    then show ?thesis using assms by (simp add: wdog_event_step_def event_next_def wdog_pass_eq)
  qed
qed

lemma set_client_wf:
  "wdog_wf (wdog s) \<Longrightarrow> NUL \<notin> set (client_name c) \<Longrightarrow> wdog_wf (wdog (set_client i c s))"
  by (auto simp: wdog_wf_def set_client_def dest!: set_update_subset_insert [THEN subsetD])

lemma client_name_ok:
  "wdog_wf w \<Longrightarrow> c \<noteq> WDOG_CLIENT_COUNT \<Longrightarrow> NUL \<notin> set (client_name (s_clients w ! wdog_client_index c))"
  by (simp add: wdog_wf_def client_index_less)

lemma event_next_wf [wf_intros]: "wdog_wf (wdog s) \<Longrightarrow> wdog_wf (wdog (event_next hz e s))"
  by (auto simp: event_next_def Let_def intro!: set_client_wf
      simp: client_name_ok split: wdog_event.split)

lemma wdog_run_eq: "wdog_wf (wdog s) \<Longrightarrow>
    wdog_run hz es s = Some (fold (event_next hz) es s) \<and> wdog_wf (wdog (fold (event_next hz) es s))"
  unfolding wdog_run_def
  by (rule for_each_total [where P = "\<lambda>s. wdog_wf (wdog s)"])
     (simp_all add: wdog_event_step_eq event_next_wf)

text \<open>One client's entry.\<close>

definition client_update :: "wdog_client_t \<Rightarrow> (wdog_client_state_t \<Rightarrow> wdog_client_state_t) \<Rightarrow> wdog_state \<Rightarrow> wdog_state" where
  "client_update c f w = (let i = wdog_client_index c in w\<lparr>s_clients := (s_clients w)[i := f (s_clients w ! i)]\<rparr>)"

abbreviation hangs :: "wdog_client_t \<Rightarrow> wdog_state \<Rightarrow> bool" where
  "hangs c w \<equiv> hang_requested (s_clients w ! wdog_client_index c)"

lemma checkin_eq:
  "wdog_wf w \<Longrightarrow> c \<noteq> WDOG_CLIENT_COUNT \<Longrightarrow> task_watchdog_checkin now c w =
     (if hangs c w then None else Some (client_update c (\<lambda>st. st\<lparr>last_checkin_tick := now\<rparr>) w))"
  using client_index_less [of c]
  by (simp add: task_watchdog_checkin_def wdog_wf_def wdog_test_hang_def client_update_def Let_def)

lemma inject_eq:
  "wdog_wf w \<Longrightarrow> c \<noteq> WDOG_CLIENT_COUNT \<Longrightarrow> task_watchdog_inject_hang c w =
     Some (client_update c (\<lambda>st. st\<lparr>hang_requested := True\<rparr>) w)"
  using client_index_less [of c]
  by (simp add: task_watchdog_inject_hang_def wdog_wf_def client_update_def Let_def)

lemma client_update_wf [wf_intros]:
  assumes "wdog_wf w" "c \<noteq> WDOG_CLIENT_COUNT" "client_name (f (s_clients w ! wdog_client_index c)) = client_name (s_clients w ! wdog_client_index c)"
  shows "wdog_wf (client_update c f w)"
  using assms client_name_ok [OF assms(1,2)]
  by (auto simp: wdog_wf_def client_update_def Let_def dest!: set_update_subset_insert [THEN subsetD])

lemma checkin_wf:
  "wdog_wf w \<Longrightarrow> c \<noteq> WDOG_CLIENT_COUNT \<Longrightarrow> task_watchdog_checkin now c w = Some w' \<Longrightarrow> wdog_wf w'"
  by (auto simp: checkin_eq split: if_splits intro!: client_update_wf)

text \<open>What no event but a pass changes, and what no event changes.\<close>

lemma set_client_simps [simp]:
  "kicking (set_client i c s) = kicking s" "wdog_wdt (set_client i c s) = wdog_wdt s"
  "wdog_uart (set_client i c s) = wdog_uart s"
  by (simp_all add: set_client_def)

lemma event_next_running [simp]: "s_wdt_running (wdog_wdt (event_next hz e s)) = s_wdt_running (wdog_wdt s)"
  by (simp add: event_next_def Let_def split: wdog_event.split)

lemma event_next_limit [simp]:
  "limit_ms (s_clients (wdog (event_next hz e s)) ! i) = limit_ms (s_clients (wdog s) ! i)"
  by (simp add: event_next_def Let_def set_client_def update_keeps split: wdog_event.split)

lemma not_kicking_stays:
  "\<not> kicking s \<Longrightarrow> \<not> kicking (event_next hz e s) \<and> wdt_calls (wdog_wdt (event_next hz e s)) = wdt_calls (wdog_wdt s)"
  by (simp add: event_next_def Let_def pass_next_kicking pass_next_calls split: wdog_event.split)

lemma not_kicking_run:
  "\<not> kicking s \<Longrightarrow> \<not> kicking (fold (event_next hz) es s) \<and>
     wdt_calls (wdog_wdt (fold (event_next hz) es s)) = wdt_calls (wdog_wdt s)"
  by (induction es arbitrary: s) (simp_all add: not_kicking_stays)

text \<open>A client that does not check in, or hangs when it does, keeps its last check-in.\<close>

definition checks_in :: "wdog_client_t \<Rightarrow> wdog_event \<Rightarrow> bool" where
  "checks_in c e \<longleftrightarrow> (case e of CheckIn d _ \<Rightarrow> d = c | _ \<Rightarrow> False)"

lemma client_index_inj: "wdog_client_index c = wdog_client_index d \<longleftrightarrow> c = d"
  by (cases c; cases d) simp_all

lemma silent_step:
  assumes "wdog_wf (wdog s)" "c \<noteq> WDOG_CLIENT_COUNT"
    and "\<not> checks_in c e \<or> hang_requested (s_clients (wdog s) ! wdog_client_index c)"
  shows "last_checkin_tick (s_clients (wdog (event_next hz e s)) ! wdog_client_index c) =
      last_checkin_tick (s_clients (wdog s) ! wdog_client_index c) \<and>
    (hang_requested (s_clients (wdog s) ! wdog_client_index c) \<longrightarrow>
       hang_requested (s_clients (wdog (event_next hz e s)) ! wdog_client_index c))"
proof -
  have "length (s_clients (wdog s)) = 3" using assms(1) by (simp add: wdog_wf_def)
  then show ?thesis
    using assms(2,3)
    by (auto simp: event_next_def Let_def set_client_def checks_in_def nth_list_update
        client_index_inj client_index_less update_keeps split: wdog_event.splits)
qed

lemma silent_run:
  assumes "wdog_wf (wdog s)" "c \<noteq> WDOG_CLIENT_COUNT"
    and "list_all (\<lambda>e. \<not> checks_in c e) es \<or> hang_requested (s_clients (wdog s) ! wdog_client_index c)"
  shows "last_checkin_tick (s_clients (wdog (fold (event_next hz) es s)) ! wdog_client_index c) =
      last_checkin_tick (s_clients (wdog s) ! wdog_client_index c) \<and>
    limit_ms (s_clients (wdog (fold (event_next hz) es s)) ! wdog_client_index c) =
      limit_ms (s_clients (wdog s) ! wdog_client_index c)"
  using assms(1,3)
proof (induction es arbitrary: s)
  case Nil
  then show ?case by simp
next
  case (Cons e es)
  then show ?case
    using silent_step [OF Cons.prems(1) assms(2), of e hz] by (auto simp: event_next_wf)
qed

section \<open>Properties\<close>

text \<open>A supervisor just started, with the watchdog running.\<close>

definition wdog_started :: wdog_task_state where
  "wdog_started = \<lparr>kicking = True, wdog = wdog_boot,
     wdog_wdt = \<lparr>s_wdt_ready = True, s_wdt_running = True, s_timeout_ms = 2000, wdt_calls = []\<rparr>,
     wdog_uart = uart_up\<rparr>"

lemma wdog_started_simps [simp]:
  "wdog_wf (wdog wdog_started)" "kicking wdog_started" "s_wdt_running (wdog_wdt wdog_started)"
  "wdt_calls (wdog_wdt wdog_started) = []"
  by (simp_all add: wdog_started_def)

lemma boot_clients:
  "limit_ms (s_clients (wdog wdog_started) ! 0) = 500" "limit_ms (s_clients (wdog wdog_started) ! 1) = 500"
  "limit_ms (s_clients (wdog wdog_started) ! Suc 0) = 500"
  "limit_ms (s_clients (wdog wdog_started) ! 2) = 2000" "last_checkin_tick (s_clients (wdog wdog_started) ! 0) = 0"
  "last_checkin_tick (s_clients (wdog wdog_started) ! 1) = 0" "last_checkin_tick (s_clients (wdog wdog_started) ! 2) = 0"
  "last_checkin_tick (s_clients (wdog wdog_started) ! Suc 0) = 0"
  "client_name (s_clients (wdog wdog_started) ! 0) = ''producer''"
  by (simp_all add: wdog_started_def wdog_boot_def app_config)

lemma pass_next_worst:
  assumes "wdog_wf (wdog s)" "i < 3" "silence hz now (wdog s) i < 4294967296"
  shows "unat (worst_silence_ms (s_wdog_stats (wdog (pass_next hz now s))) ! i) =
    max (unat (worst_silence_ms (s_wdog_stats (wdog s)) ! i)) (silence hz now (wdog s) i)"
proof -
  have "worst_silence_ms (s_wdog_stats (wdog (pass_next hz now s))) =
      worst_silence_ms (s_wdog_stats (all_worst hz now (wdog s)))"
    by (simp add: pass_next_def Let_def split: option.split)
  then show ?thesis
    using all_worst_nth [OF assms(1,2), of hz now] silence_exact [OF assms(3)]
    by (simp add: max_def word_le_nat_alt)
qed

lemma pass_next_reports:
  assumes "kicking s" "\<not> kicking (pass_next hz now s)"
  obtains i where "i < 3" "\<not> in_time hz now (wdog s) i" "\<forall>j<i. in_time hz now (wdog s) j"
    "wdog_uart (pass_next hz now s) = console_text (late_text (client_name (s_clients (wdog s) ! i))
       (unat (silence_ms_of hz now (wdog s) i)) (wdog_wdt s)) (wdog_uart s)"
proof -
  have "first_late hz now (wdog s) \<noteq> None"
    using assms by (simp only: pass_next_kicking first_late_None) blast
  then obtain i where i: "first_late hz now (wdog s) = Some i" by blast
  show thesis
    using first_late_Some [OF i] i assms(1) by (intro that [of i]) (simp_all add: pass_next_def Let_def)
qed

lemma pass_next_quiet:
  "kicking (pass_next hz now s) \<or> \<not> kicking s \<Longrightarrow> wdog_uart (pass_next hz now s) = wdog_uart s"
  by (auto simp: pass_next_def Let_def split: option.split)

lemma pass_next_count:
  "kicks (s_wdog_stats (wdog (pass_next hz now s))) = kicks (s_wdog_stats (wdog s)) +
     (if kicking (pass_next hz now s) \<and> s_wdt_running (wdog_wdt s) then 1 else 0)"
  by (simp add: pass_next_def Let_def split: option.split)

text \<open>
  C23: One pass of the supervisor, as long as no silence exceeds 32 bits of milliseconds: it keeps
  kicking exactly if it did before and every client's silence is within its limit; it restarts
  the counter and counts a kick exactly then, if the watchdog runs at all; every client's worst
  silence becomes the larger of the old one and the present one; and when a client is late for
  the first time it prints one message, naming the first late client and how long it was
  silent, and nothing otherwise.
\<close>

theorem wdog_pass_correct:
  assumes "wdog_wf (wdog s)" "list_all (\<lambda>i. silence hz now (wdog s) i < 4294967296) [0..<3]"
    and "timely = (\<lambda>i. silence hz now (wdog s) i \<le> unat (limit_ms (s_clients (wdog s) ! i)))"
  shows "\<exists>s'. wdog_pass hz now s = Some s' \<and> wdog_wf (wdog s') \<and>
    (kicking s' \<longleftrightarrow> kicking s \<and> list_all timely [0..<3]) \<and>
    wdt_calls (wdog_wdt s') = wdt_calls (wdog_wdt s) @
      (if kicking s' \<and> s_wdt_running (wdog_wdt s) then [XWdtPs_RestartWdt] else []) \<and>
    kicks (s_wdog_stats (wdog s')) = kicks (s_wdog_stats (wdog s)) +
      (if kicking s' \<and> s_wdt_running (wdog_wdt s) then 1 else 0) \<and>
    list_all (\<lambda>i. unat (worst_silence_ms (s_wdog_stats (wdog s')) ! i) =
      max (unat (worst_silence_ms (s_wdog_stats (wdog s)) ! i)) (silence hz now (wdog s) i)) [0..<3] \<and>
    (kicking s \<longrightarrow> kicking s' \<longrightarrow> wdog_uart s' = wdog_uart s) \<and> (\<not> kicking s \<longrightarrow> wdog_uart s' = wdog_uart s) \<and>
    (kicking s \<longrightarrow> \<not> kicking s' \<longrightarrow>
       (\<exists>i<3. \<not> timely i \<and> (\<forall>j<i. timely j) \<and>
          wdog_uart s' = console_text (late_text (client_name (s_clients (wdog s) ! i))
            (silence hz now (wdog s) i) (wdog_wdt s)) (wdog_uart s)))"
proof -
  have fits: "silence hz now (wdog s) i < 4294967296" if "i < 3" for i
    using assms(2) that by (simp add: list_all_iff)
  have timely: "in_time hz now (wdog s) i \<longleftrightarrow> timely i" if "i < 3" for i
    using in_time_exact [OF fits [OF that]] assms(3) by simp
  then have kk: "kicking (pass_next hz now s) \<longleftrightarrow> kicking s \<and> list_all timely [0..<3]"
    by (simp add: pass_next_kicking list_all_iff)
  have worst: "list_all (\<lambda>i. unat (worst_silence_ms (s_wdog_stats (wdog (pass_next hz now s))) ! i) =
      max (unat (worst_silence_ms (s_wdog_stats (wdog s)) ! i)) (silence hz now (wdog s) i)) [0..<3]"
    using pass_next_worst [OF assms(1) _ fits] by (simp add: list_all_iff)
  have late: "\<exists>i<3. \<not> timely i \<and> (\<forall>j<i. timely j) \<and>
      wdog_uart (pass_next hz now s) = console_text (late_text (client_name (s_clients (wdog s) ! i))
        (silence hz now (wdog s) i) (wdog_wdt s)) (wdog_uart s)"
    if late: "kicking s" "\<not> kicking (pass_next hz now s)"
  proof -
    obtain i where i: "i < 3" "\<not> in_time hz now (wdog s) i" "\<forall>j<i. in_time hz now (wdog s) j"
        "wdog_uart (pass_next hz now s) = console_text (late_text (client_name (s_clients (wdog s) ! i))
           (unat (silence_ms_of hz now (wdog s) i)) (wdog_wdt s)) (wdog_uart s)"
      using late by (rule pass_next_reports)
    then show ?thesis
      using timely silence_exact [OF fits [OF i(1)]] by (intro exI [of _ i]) auto
  qed
  show ?thesis
    using wdog_pass_eq [OF assms(1), of hz now] assms(1) worst late
    by (intro exI [of _ "pass_next hz now s"]) (simp add: pass_next_quiet pass_next_count kk pass_next_calls)
qed

lemma wdog_pass_correct_witness:
  "\<exists>s'. wdog_pass 1000 600 wdog_started = Some s' \<and> \<not> kicking s' \<and>
     wdog_uart s' = console_text (late_text ''producer'' 600 (wdog_wdt wdog_started)) uart_up"
proof -
  have fits: "list_all (\<lambda>i. silence 1000 600 (wdog wdog_started) i < 4294967296) [0..<3]"
    by (simp add: upt_3 silence_def boot_clients)
  from wdog_pass_correct [OF _ fits refl] obtain s' i where
    s': "wdog_pass 1000 600 wdog_started = Some s'" "\<not> kicking s'" "i < 3"
      "\<forall>j<i. silence 1000 600 (wdog wdog_started) j \<le> unat (limit_ms (s_clients (wdog wdog_started) ! j))"
      "wdog_uart s' = console_text (late_text (client_name (s_clients (wdog wdog_started) ! i))
         (silence 1000 600 (wdog wdog_started) i) (wdog_wdt wdog_started)) (wdog_uart wdog_started)"
    by (auto simp: upt_3 silence_def boot_clients)
  have "i = 0" using s'(4) by (rule_tac ccontr) (auto simp: silence_def boot_clients dest: spec [of _ 0])
  with s' have "wdog_uart s' = console_text (late_text ''producer'' 600 (wdog_wdt wdog_started)) uart_up"
    by (simp add: silence_def boot_clients) (simp add: wdog_started_def)
  with s' show ?thesis by blast
qed

text \<open>
  C5: A client that stops checking in ends the kicking for good. Whatever the other clients do
  and whatever hangs are injected, if a client neither checks in during \<open>before\<close> nor is able to
  (because a hang was injected), a pass at which its silence exceeds its limit does not kick, and
  no later event, not even that client's own check-in, makes the supervisor kick again.
\<close>

theorem wdog_hang_stops_kicks:
  assumes "wdog_wf (wdog s)" "c \<noteq> WDOG_CLIENT_COUNT"
    and "list_all (\<lambda>e. \<not> checks_in c e) before \<or> hang_requested (s_clients (wdog s) ! wdog_client_index c)"
    and "unat (limit_ms (s_clients (wdog s) ! wdog_client_index c)) < silence hz now (wdog s) (wdog_client_index c)"
    and "silence hz now (wdog s) (wdog_client_index c) < 4294967296"
  shows "\<exists>s1 s2. wdog_run hz before s = Some s1 \<and> wdog_run hz (before @ Pass now # after) s = Some s2 \<and>
    wdt_calls (wdog_wdt s2) = wdt_calls (wdog_wdt s1) \<and> \<not> kicking s2"
proof -
  let ?i = "wdog_client_index c"
  let ?s1 = "fold (event_next hz) before s"
  have same: "last_checkin_tick (s_clients (wdog ?s1) ! ?i) = last_checkin_tick (s_clients (wdog s) ! ?i)"
      "limit_ms (s_clients (wdog ?s1) ! ?i) = limit_ms (s_clients (wdog s) ! ?i)"
    using silent_run [OF assms(1-3)] by simp_all
  have "silence hz now (wdog ?s1) ?i = silence hz now (wdog s) ?i"
    by (simp add: silence_def same)
  then have "\<not> in_time hz now (wdog ?s1) ?i"
    using assms(4,5) in_time_exact [of hz now "wdog ?s1" ?i] same(2) by simp
  moreover have "?i < 3" using assms(2) by (simp add: client_index_less)
  ultimately have "\<not> kicking (pass_next hz now ?s1)"
    by (auto simp: pass_next_kicking list_all_iff)
  moreover from this have "wdt_calls (wdog_wdt (pass_next hz now ?s1)) = wdt_calls (wdog_wdt ?s1)"
    by (simp add: pass_next_calls)
  ultimately have "\<not> kicking (fold (event_next hz) after (pass_next hz now ?s1)) \<and>
      wdt_calls (wdog_wdt (fold (event_next hz) after (pass_next hz now ?s1))) = wdt_calls (wdog_wdt ?s1)"
    using not_kicking_run by simp
  then show ?thesis
    using wdog_run_eq [OF assms(1)] by (simp add: event_next_def)
qed

lemma wdog_hang_stops_kicks_witness:
  "\<exists>s1 s2. wdog_run 1000 [CheckIn WDOG_CLIENT_PRODUCER 400, Pass 500] wdog_started = Some s1 \<and>
     wdog_run 1000 ([CheckIn WDOG_CLIENT_PRODUCER 400, Pass 500] @ Pass 750 # [CheckIn WDOG_CLIENT_UI 760, Pass 1000])
       wdog_started = Some s2 \<and>
     wdt_calls (wdog_wdt s2) = wdt_calls (wdog_wdt s1) \<and> \<not> kicking s2"
  by (rule wdog_hang_stops_kicks [of _ WDOG_CLIENT_UI])
     (simp_all add: checks_in_def silence_def boot_clients)

text \<open>Every pass of the run finds every client in time.\<close>

fun healthy :: "u32 \<Rightarrow> wdog_event list \<Rightarrow> wdog_task_state \<Rightarrow> bool" where
  "healthy hz [] s = True"
| "healthy hz (e # es) s =
     ((case e of Pass now \<Rightarrow> list_all (in_time hz now (wdog s)) [0..<3] | _ \<Rightarrow> True) \<and>
      healthy hz es (event_next hz e s))"

definition passes :: "wdog_event list \<Rightarrow> nat" where
  "passes es = length (filter (\<lambda>e. case e of Pass _ \<Rightarrow> True | _ \<Rightarrow> False) es)"

lemma healthy_run:
  "kicking s \<Longrightarrow> s_wdt_running (wdog_wdt s) \<Longrightarrow> healthy hz es s \<Longrightarrow>
     kicking (fold (event_next hz) es s) \<and>
     wdt_calls (wdog_wdt (fold (event_next hz) es s)) =
       wdt_calls (wdog_wdt s) @ replicate (passes es) XWdtPs_RestartWdt \<and>
     wdog_uart (fold (event_next hz) es s) = wdog_uart s"
proof (induction es arbitrary: s)
  case Nil
  then show ?case by (simp add: passes_def)
next
  case (Cons e es)
  show ?case
  proof (cases e)
    case (Pass now)
    then have ok: "list_all (in_time hz now (wdog s)) [0..<3]" using Cons.prems(3) by simp
    then have "wdog_uart (pass_next hz now s) = wdog_uart s"
      unfolding first_late_None [symmetric] by (simp add: pass_next_def Let_def)
    then show ?thesis
      using Cons.IH [of "event_next hz e s"] Cons.prems Pass ok
      by (simp add: event_next_def passes_def pass_next_kicking pass_next_calls)
  qed (use Cons.IH [of "event_next hz e s"] Cons.prems in
        \<open>simp_all add: event_next_def passes_def Let_def split: if_splits\<close>)
qed

text \<open>
  As long as every pass finds every client in time the supervisor kicks the running watchdog
  at every pass, exactly once, and prints nothing: it never resets a healthy system.
\<close>

theorem wdog_healthy_kicks_every_pass:
  assumes "wdog_wf (wdog s)" "kicking s" "s_wdt_running (wdog_wdt s)" "healthy hz es s"
  shows "\<exists>s'. wdog_run hz es s = Some s' \<and> kicking s' \<and> wdog_uart s' = wdog_uart s \<and>
    wdt_calls (wdog_wdt s') = wdt_calls (wdog_wdt s) @ replicate (passes es) XWdtPs_RestartWdt"
  using wdog_run_eq [OF assms(1)] healthy_run [OF assms(2-4)] by simp

lemma wdog_healthy_kicks_every_pass_witness:
  "\<exists>s'. wdog_run 1000 [Pass 250, CheckIn WDOG_CLIENT_PRODUCER 300, CheckIn WDOG_CLIENT_UI 310, Pass 500, Pass 750]
     wdog_started = Some s' \<and> wdt_calls (wdog_wdt s') = replicate 3 XWdtPs_RestartWdt"
proof -
  have "healthy 1000 [Pass 250, CheckIn WDOG_CLIENT_PRODUCER 300, CheckIn WDOG_CLIENT_UI 310, Pass 500, Pass 750]
      wdog_started"
    by code_simp
  from wdog_healthy_kicks_every_pass [OF _ _ _ this] show ?thesis
    by (auto simp: passes_def eval_nat_numeral)
qed

end
