(* ===== verification/Messages.thy ===== *)
theory Messages
  imports Sensor_Log Xadc Gpio Watchdog_Task
begin

text \<open>
  What the tasks share: the consumer's messages and the sending side of its queue
  (\<open>task_consumer_send\<close> in \<open>tasks/task_consumer.c\<close>), and the record \<open>board\<close> of the drivers' and
  modules' states that a pass of a task works on. The FreeRTOS queue is a parameter over a
  state \<open>'q\<close>: the operations the code uses are \<open>rtos_queue\<close> (receiving is given the longest wait, and
  the queue as it is when the wait ends), and \<open>queue_laws\<close> is their documented
  behaviour, a bounded first-in first-out queue.
\<close>

section \<open>Messages\<close>

datatype consumer_msg_id_t =
    CONSUMER_MSG_DATA_READY | CONSUMER_MSG_REPORT | CONSUMER_MSG_STREAM_TOGGLE
  | CONSUMER_MSG_RATE_TOGGLE | CONSUMER_MSG_PAUSE_TOGGLE | CONSUMER_MSG_PRINT_NEWEST
  | CONSUMER_MSG_STATS | CONSUMER_MSG_HELP | CONSUMER_MSG_UNKNOWN_KEY | CONSUMER_MSG_WDT_TEST

record consumer_msg_t =
  msg_id :: consumer_msg_id_t
  msg_key :: char

record 'q rtos_queue =
  xQueueSend :: "consumer_msg_t \<Rightarrow> 'q \<Rightarrow> bool \<times> 'q"
  xQueueReceive :: "u32 \<Rightarrow> 'q \<Rightarrow> consumer_msg_t option \<times> 'q"
  uxQueueMessagesWaiting :: "'q \<Rightarrow> u32"

text \<open>The documented behaviour: \<open>contents\<close> are the waiting messages, oldest first.\<close>

definition queue_laws :: "nat \<Rightarrow> ('q \<Rightarrow> consumer_msg_t list) \<Rightarrow> 'q rtos_queue \<Rightarrow> bool" where
  "queue_laws len contents ops \<longleftrightarrow>
     (\<forall>q m. let (ok, q') = xQueueSend ops m q
            in ok = (length (contents q) < len) \<and>
               contents q' = (if ok then contents q @ [m] else contents q)) \<and>
     (\<forall>w q. case contents q of
            [] \<Rightarrow> fst (xQueueReceive ops w q) = None \<and> contents (snd (xQueueReceive ops w q)) = []
          | m # ms \<Rightarrow> fst (xQueueReceive ops w q) = Some m \<and> contents (snd (xQueueReceive ops w q)) = ms) \<and>
     (\<forall>q. uxQueueMessagesWaiting ops q = of_nat (length (contents q)))"

lemma queue_lawsD:
  assumes "queue_laws len contents ops"
  shows "fst (xQueueSend ops m q) \<longleftrightarrow> length (contents q) < len"
    and "contents (snd (xQueueSend ops m q)) =
           (if length (contents q) < len then contents q @ [m] else contents q)"
    and "contents q = [] \<Longrightarrow> fst (xQueueReceive ops w q) = None \<and> contents (snd (xQueueReceive ops w q)) = []"
    and "contents q = x # ms \<Longrightarrow> fst (xQueueReceive ops w q) = Some x \<and> contents (snd (xQueueReceive ops w q)) = ms"
    and "uxQueueMessagesWaiting ops q = of_nat (length (contents q))"
proof -
  have "let (ok, q') = xQueueSend ops m q
      in ok = (length (contents q) < len) \<and> contents q' = (if ok then contents q @ [m] else contents q)"
    using assms unfolding queue_laws_def by blast
  then show "fst (xQueueSend ops m q) \<longleftrightarrow> length (contents q) < len"
      "contents (snd (xQueueSend ops m q)) = (if length (contents q) < len then contents q @ [m] else contents q)"
    by (auto simp: Let_def split_def)
  have "case contents q of
      [] \<Rightarrow> fst (xQueueReceive ops w q) = None \<and> contents (snd (xQueueReceive ops w q)) = []
    | m # ms \<Rightarrow> fst (xQueueReceive ops w q) = Some m \<and> contents (snd (xQueueReceive ops w q)) = ms"
    using assms unfolding queue_laws_def by blast
  then show "contents q = [] \<Longrightarrow> fst (xQueueReceive ops w q) = None \<and> contents (snd (xQueueReceive ops w q)) = []"
      "contents q = x # ms \<Longrightarrow> fst (xQueueReceive ops w q) = Some x \<and> contents (snd (xQueueReceive ops w q)) = ms"
    by auto
  show "uxQueueMessagesWaiting ops q = of_nat (length (contents q))"
    using assms by (simp only: queue_laws_def)
qed

text \<open>An instance: a list.\<close>

definition list_queue :: "nat \<Rightarrow> consumer_msg_t list rtos_queue" where
  "list_queue len = \<lparr>xQueueSend = (\<lambda>m q. if length q < len then (True, q @ [m]) else (False, q)),
     xQueueReceive = (\<lambda>w q. case q of [] \<Rightarrow> (None, []) | m # ms \<Rightarrow> (Some m, ms)),
     uxQueueMessagesWaiting = (\<lambda>q. of_nat (length q))\<rparr>"

lemma list_queue_laws: "queue_laws len (\<lambda>q. q) (list_queue len)"
  by (auto simp: queue_laws_def list_queue_def split: list.split)

text \<open>The module's queue handle is \<open>None\<close> before the queue exists.\<close>

definition task_consumer_send ::
  "'q rtos_queue \<Rightarrow> consumer_msg_id_t \<Rightarrow> char \<Rightarrow> 'q option \<Rightarrow> bool \<times> 'q option" where
  "task_consumer_send ops i key s_consumer_queue =
     (let msg = \<lparr>msg_id = i, msg_key = key\<rparr>
      in case s_consumer_queue of
           None \<Rightarrow> (False, None)
         | Some q \<Rightarrow> (let (ok, q) = xQueueSend ops msg q in (ok, Some q)))"

lemma task_consumer_send_eq:
  "task_consumer_send ops i key (Some q) =
     (fst (xQueueSend ops \<lparr>msg_id = i, msg_key = key\<rparr> q),
      Some (snd (xQueueSend ops \<lparr>msg_id = i, msg_key = key\<rparr> q)))"
  by (simp add: task_consumer_send_def split_def Let_def)

section \<open>The records in the log\<close>

text \<open>
  Every element of the log's array holds a code for each sensor, so printing one stays in its array;
  and nobody holds the log's mutex.
\<close>

definition rec_ok :: "sensor_record_t \<Rightarrow> bool" where
  "rec_ok r \<longleftrightarrow> length (raw_code (sensors r)) = xadc_sensor_count"

definition log_ok :: "sensor_log_state \<Rightarrow> bool" where
  "log_ok l \<longleftrightarrow> log_wf l \<and> list_all rec_ok (ring_storage (s_ring l)) \<and> mutex_free l"

lemma rec_ok_length: "rec_ok r \<longleftrightarrow> length (raw_code (sensors r)) = 7"
  by (simp add: rec_ok_def)

lemma rec_ok_zero [simp]: "rec_ok zero_record"
  by (simp add: rec_ok_length zero_record_def zero_sample_def)

lemma log_ok_wf [simp]: "log_ok l \<Longrightarrow> log_wf l"
  by (simp add: log_ok_def)

lemma log_ok_locked [simp]: "log_ok (log_locked env w l) = log_ok l"
  by (simp add: log_ok_def)

lemma log_ok_timeout [simp]: "log_ok (log_timeout w l) = log_ok l"
  by (simp add: log_ok_def)

lemma log_ok_push [wf_intros]: "log_ok l \<Longrightarrow> rec_ok r \<Longrightarrow> log_ok (l\<lparr>s_ring := push_next r (s_ring l)\<rparr>)"
proof -
  assume ok: "log_ok l" and r: "rec_ok r"
  have "ring_storage (push_next r (s_ring l)) = (ring_storage (s_ring l))[ring_slot (s_ring l) (ring_fill (s_ring l)) := r]"
    by (simp add: push_next_def Let_def ring_storage_def)
  moreover have "list_all rec_ok (ring_storage (s_ring l))" using ok by (simp add: log_ok_def)
  ultimately have "list_all rec_ok (ring_storage (push_next r (s_ring l)))"
    using r by (auto simp: list_all_iff dest!: set_update_subset_insert [THEN subsetD])
  then show ?thesis using ok by (simp add: log_ok_def log_wf_push)
qed

lemma log_ok_pop [wf_intros]: "log_ok l \<Longrightarrow> log_ok (l\<lparr>s_ring := pop_next n (s_ring l)\<rparr>)"
  unfolding log_ok_def by (simp add: log_wf_pop) (simp add: pop_next_def ring_storage_def)

lemma log_ok_contents: "log_ok l \<Longrightarrow> r \<in> set (log_contents l) \<Longrightarrow> rec_ok r"
  by (auto simp: log_ok_def log_wf_def log_contents_def ring_contents_def list_all_iff ring_slot_in)

lemma log_ok_newest: "log_ok l \<Longrightarrow> ring_newest (s_ring l) = Some r \<Longrightarrow> rec_ok r"
proof -
  assume ok: "log_ok l" and new: "ring_newest (s_ring l) = Some r"
  have wf: "ring_wf (s_ring l)" using ok by (simp add: log_ok_def log_wf_def)
  have "unat (head (s_ring l) - 1) mod unat (capacity (s_ring l)) < length (ring_storage (s_ring l))"
    using ring_wfD(4,7) [OF wf] by (meson mod_less_divisor less_le_trans)
  with ok new show ?thesis by (auto simp: log_ok_def list_all_iff ring_newest_def split: if_splits)
qed

text \<open>The consumer's operations on the log, in one step each.\<close>

lemma sensor_log_peek_newest_eq:
  assumes "log_wf l"
  shows "sensor_log_peek_newest env (Some out) w l =
    Some (if xSemaphoreTake env w
          then (case ring_newest (s_ring l) of Some r \<Rightarrow> (True, Some r, log_locked env w l)
                | None \<Rightarrow> (False, Some out, log_locked env w l))
          else (False, Some out, log_timeout w l))"
  using assms
  by (simp add: sensor_log_peek_newest_def log_ops log_wf_def ring_buffer_peek_newest_eq log_locked_def
      log_timeout_def held_us_def max_def not_less split: option.split)

lemma sensor_log_get_stats_log:
  assumes "log_wf l"
  obtains st where "sensor_log_get_stats env (Some st0) w l =
    (xSemaphoreTake env w, Some st, if xSemaphoreTake env w then log_locked env w l else log_timeout w l)"
proof (cases "xSemaphoreTake env w")
  case True
  with assms that show ?thesis
    by (simp add: sensor_log_get_stats_def log_ops log_wf_def log_locked_def held_us_def max_def not_less)
next
  case False
  with assms that show ?thesis
    by (simp add: sensor_log_get_stats_def log_ops log_wf_def log_timeout_def)
qed

section \<open>The states a task works on\<close>

record 'q board =
  b_uart :: uart_state
  b_gpio :: gpio_state
  b_xadc :: xadc_state
  b_log :: sensor_log_state
  b_wdt :: wdt_state
  b_wdog :: wdog_state
  b_queue :: "'q option"

text \<open>The board of the examples: everything up, a log of two records, nothing waiting.\<close>

definition demo_bits :: uart_bits where
  "demo_bits = \<lparr>XUARTPS_IXR_OVER = 0x20, XUARTPS_IXR_FRAMING = 0x40, XUARTPS_IXR_PARITY = 0x80,
     XUARTPS_SR_TXEMPTY = 0x8, XUARTPS_SR_TACTIVE = 0x800\<rparr>"

definition demo_log :: sensor_log_state where
  "demo_log = \<lparr>s_ring = ring_empty2, s_lock_hold_max_us = 0, s_log_mutex = True, mutex_calls = []\<rparr>"

definition demo_board :: "consumer_msg_t list board" where
  "demo_board = \<lparr>b_uart = uart_up, b_gpio = gpio_idle, b_xadc = \<lparr>s_xadc_ready = True, xadc_calls = []\<rparr>,
     b_log = demo_log, b_wdt = wdt_reset, b_wdog = wdog_boot, b_queue = Some []\<rparr>"

lemma demo_board_simps [simp]:
  "b_uart demo_board = uart_up" "b_gpio demo_board = gpio_idle" "b_log demo_board = demo_log"
  "b_wdog demo_board = wdog_boot" "b_queue demo_board = Some []"
  by (simp_all add: demo_board_def)

lemma gpio_idle_wf [simp]: "gpio_wf gpio_idle" "s_gpio_ready gpio_idle"
  by (simp_all add: gpio_wf_def gpio_idle_def GPIO_DRV_DEBOUNCE_SCANS_def)

lemma demo_log_wf [simp]: "log_wf demo_log" "log_contents demo_log = []"
  using ring_init_cases [OF ring_init_2] by (simp_all add: demo_log_def log_wf_def log_contents_def)

end
