(* ===== verification/Sample_Timer.thy ===== *)
theory Sample_Timer
  imports Wdt
begin

text \<open>
  \<open>drivers/sample_timer.c\<close>: the timer that paces the producer. The answers of the Xilinx driver and
  of the FreeRTOS port are arguments, the calls made are recorded in \<open>ttc_calls\<close>. The callback is a
  value of any type \<open>'cb\<close> (function and context together); \<open>XTTCPS_CLK_CNTRL_PS_DISABLE\<close>, the
  interrupt identifier of the build flow and the interval interrupt mask come from vendor headers
  and are arguments. \<open>None\<close> is a shift or a division that C leaves undefined.
\<close>

section \<open>The code\<close>

datatype sample_timer_status_t =
    SAMPLE_TIMER_OK | SAMPLE_TIMER_ERR_PARAM | SAMPLE_TIMER_ERR_LOOKUP | SAMPLE_TIMER_ERR_INIT
  | SAMPLE_TIMER_ERR_RATE | SAMPLE_TIMER_ERR_IRQ | SAMPLE_TIMER_ERR_BUSY

datatype xil_status = XST_SUCCESS | XST_DEVICE_IS_STARTED | XST_FAILURE

datatype ttc_call =
    XTtcPs_CfgInitialize
  | XTtcPs_SetOptions_INTERVAL_no_wave
  | XTtcPs_SetInterval u16
  | XTtcPs_SetPrescaler u8
  | XTtcPs_DisableInterrupts_ALL
  | XTtcPs_GetInterruptStatus
  | XTtcPs_ClearInterruptStatus u32
  | xPortInstallInterruptHandler u16
  | XTtcPs_EnableInterrupts_INTERVAL
  | vPortEnableInterrupt u16
  | XTtcPs_Start
  | XTtcPs_Stop

record 'cb timer_state =
  s_tick_cb :: "'cb option"
  s_period_us :: u32
  s_timer_ready :: bool
  ttc_calls :: "ttc_call list"

record timer_init_env =
  XTtcPs_LookupConfig :: "u32 option"
  XTtcPs_CfgInitialize_status :: xil_status
  XTtcPs_SetOptions_ok :: bool
  XTtcPs_CalcIntervalFromFreq :: "u32 \<Rightarrow> u16 \<times> u8"
  install_ok :: bool
  XTTCPS_CLK_CNTRL_PS_DISABLE :: u8
  SAMPLE_TIMER_IRQ_ID :: u16

definition TTC_PRESCALER_INVALID :: u8 where "TTC_PRESCALER_INVALID = 0xFF"
definition TTC_USEC_PER_SEC :: u64 where "TTC_USEC_PER_SEC = 1000000"

definition ttc_call :: "ttc_call \<Rightarrow> 'cb timer_state \<Rightarrow> 'cb timer_state" where
  "ttc_call c s = s\<lparr>ttc_calls := ttc_calls s @ [c]\<rparr>"

text \<open>The callback that is invoked, if any, and the state; \<open>irq_status\<close> is what the register reads.\<close>

definition sample_timer_isr :: "u32 \<Rightarrow> u32 \<Rightarrow> 'cb timer_state \<Rightarrow> 'cb option \<times> 'cb timer_state" where
  "sample_timer_isr interval_mask irq_status s =
     (let s = ttc_call XTtcPs_GetInterruptStatus s;
          s = ttc_call (XTtcPs_ClearInterruptStatus irq_status) s
      in (if irq_status AND interval_mask \<noteq> 0 \<and> s_tick_cb s \<noteq> None then s_tick_cb s else None, s))"

text \<open>\<open>XTtcPs_LookupConfig\<close> is the input clock of the table entry; the interval is 16 bits.\<close>

definition sample_timer_init ::
  "timer_init_env \<Rightarrow> u32 \<Rightarrow> 'cb option \<Rightarrow> 'cb timer_state \<Rightarrow> (sample_timer_status_t \<times> 'cb timer_state) option" where
  "sample_timer_init env rate_hz tick_cb s =
     (let s = s\<lparr>s_timer_ready := False\<rparr>
      in if rate_hz = 0 \<or> tick_cb = None then Some (SAMPLE_TIMER_ERR_PARAM, s)
      else case XTtcPs_LookupConfig env of None \<Rightarrow> Some (SAMPLE_TIMER_ERR_LOOKUP, s)
      | Some input_clock_hz \<Rightarrow>
          let s = ttc_call XTtcPs_CfgInitialize s
          in if XTtcPs_CfgInitialize_status env = XST_DEVICE_IS_STARTED then Some (SAMPLE_TIMER_ERR_BUSY, s)
          else if XTtcPs_CfgInitialize_status env \<noteq> XST_SUCCESS then Some (SAMPLE_TIMER_ERR_INIT, s)
          else let s = ttc_call XTtcPs_SetOptions_INTERVAL_no_wave s
          in if \<not> XTtcPs_SetOptions_ok env then Some (SAMPLE_TIMER_ERR_INIT, s)
          else let (interval, prescaler) = XTtcPs_CalcIntervalFromFreq env rate_hz
          in if prescaler = TTC_PRESCALER_INVALID then Some (SAMPLE_TIMER_ERR_RATE, s)
          else let s = ttc_call (XTtcPs_SetInterval interval) s;
                   s = ttc_call (XTtcPs_SetPrescaler prescaler) s
          in if prescaler \<noteq> XTTCPS_CLK_CNTRL_PS_DISABLE env \<and> unat prescaler \<ge> 64 \<or> input_clock_hz = 0 then None
          else let clock_divisor = (if prescaler = XTTCPS_CLK_CNTRL_PS_DISABLE env then 1
                                    else push_bit (unat prescaler) 2 :: u64);
                   s = s\<lparr>s_period_us := ucast (((ucast interval + 1) * clock_divisor * TTC_USEC_PER_SEC)
                                                 div ucast input_clock_hz)\<rparr>;
                   s = ttc_call XTtcPs_DisableInterrupts_ALL s;
                   s = ttc_call XTtcPs_GetInterruptStatus s;
                   s = s\<lparr>s_tick_cb := tick_cb\<rparr>;
                   s = ttc_call (xPortInstallInterruptHandler (SAMPLE_TIMER_IRQ_ID env)) s
          in if \<not> install_ok env then Some (SAMPLE_TIMER_ERR_IRQ, s)
          else let s = ttc_call XTtcPs_EnableInterrupts_INTERVAL s;
                   s = ttc_call (vPortEnableInterrupt (SAMPLE_TIMER_IRQ_ID env)) s
          in Some (SAMPLE_TIMER_OK, s\<lparr>s_timer_ready := True\<rparr>))"

definition sample_timer_start :: "'cb timer_state \<Rightarrow> 'cb timer_state" where
  "sample_timer_start s = (if s_timer_ready s then ttc_call XTtcPs_Start s else s)"

definition sample_timer_stop :: "'cb timer_state \<Rightarrow> 'cb timer_state" where
  "sample_timer_stop s = (if s_timer_ready s then ttc_call XTtcPs_Stop s else s)"

definition sample_timer_period_us :: "'cb timer_state \<Rightarrow> u32" where
  "sample_timer_period_us s = s_period_us s"

section \<open>The period\<close>

lemma timer_period_exact:
  assumes "unat p \<le> 15" "1000000 < unat clk"
  shows "unat (ucast (((ucast (n :: u16) + 1) * push_bit (unat (p :: u8)) 2 * TTC_USEC_PER_SEC :: u64)
           div ucast (clk :: u32)) :: u32) = (unat n + 1) * 2 ^ Suc (unat p) * 1000000 div unat clk"
proof -
  have n1: "unat (ucast n + 1 :: u64) = unat n + 1"
  proof -
    have lt: "unat n < 65536" by simp
    have "take_bit 64 (unat n) = unat n"
      by (rule take_bit_nat_eq_self, rule order_less_trans [OF unat_u16_lt]) simp
    then have "unat (ucast n :: u64) = unat n" by (simp add: unsigned_ucast_eq)
    moreover have "unat n + 1 < 18446744073709551616" using lt by linarith
    ultimately show ?thesis by (simp add: unat_word_ariths)
  qed
  have pw: "(2::nat) ^ Suc (unat p) \<le> 2 ^ 16" using assms(1) by (intro power_increasing) simp_all
  have p2: "unat (push_bit (unat p) 2 :: u64) = 2 ^ Suc (unat p)"
  proof -
    have "push_bit (unat p) 2 = (of_nat (2 ^ Suc (unat p)) :: u64)" by (simp add: push_bit_eq_mult mult.commute)
    then show ?thesis
      using pw by (simp only: unsigned_of_nat) (simp add: take_bit_nat_eq_self)
  qed
  have le: "(unat n + 1) * 2 ^ Suc (unat p) \<le> 65536 * 65536"
    using pw unat_u16_lt [of n] by (intro mult_mono) (simp_all only: power_numeral, simp_all)
  define x where "x = (unat n + 1) * 2 ^ Suc (unat p)"
  have x: "x \<le> 4294967296" using le by (simp add: x_def)
  have m1: "unat ((ucast n + 1) * push_bit (unat p) 2 :: u64) = x"
    using unat_u64_mult [of "ucast n + 1" "push_bit (unat p) 2", unfolded n1 p2, folded x_def] x by linarith
  have "unat TTC_USEC_PER_SEC = 1000000" by (simp add: TTC_USEC_PER_SEC_def)
  then have m2: "unat ((ucast n + 1) * push_bit (unat p) 2 * TTC_USEC_PER_SEC :: u64) = x * 1000000"
    using unat_u64_mult [of "(ucast n + 1) * push_bit (unat p) 2" TTC_USEC_PER_SEC, unfolded m1] x by simp
  have "x * 1000000 < 4294967296 * k" if "1000000 < k" for k
    using x that by linarith
  then have "x * 1000000 div unat clk < 4294967296"
    using assms(2) by (simp add: div_less_iff_less_mult)
  then show ?thesis
    unfolding x_def [symmetric] by (simp add: unsigned_ucast_eq take_bit_eq_mod unat_div m2)
qed

section \<open>Properties\<close>

text \<open>A table entry and answers as on the board, and a timer never used.\<close>

definition zybo_timer_env :: timer_init_env where
  "zybo_timer_env = \<lparr>XTtcPs_LookupConfig = Some 111111115, XTtcPs_CfgInitialize_status = XST_SUCCESS,
     XTtcPs_SetOptions_ok = True, XTtcPs_CalcIntervalFromFreq = (\<lambda>_. (43401, 7)), install_ok = True,
     XTTCPS_CLK_CNTRL_PS_DISABLE = 16, SAMPLE_TIMER_IRQ_ID = 44\<rparr>"

definition timer_unused :: "nat timer_state" where
  "timer_unused = \<lparr>s_tick_cb = None, s_period_us = 0, s_timer_ready = False, ttc_calls = []\<rparr>"

text \<open>
  Initialising the sample timer either succeeds, and then the counter was configured, stale
  interrupts were cleared and the handler was installed before any interrupt was enabled, the
  counter was not started, the callback is the given one, and the reported period is the exact
  period of the chosen divider rounded down to microseconds; or it fails with its code, enabling
  no interrupt and leaving the timer unable to start. A counter that already runs is not
  reconfigured.
\<close>

theorem sample_timer_init_correct:
  assumes "XTtcPs_CalcIntervalFromFreq env rate = (interval, prescaler)"
    and "XTtcPs_LookupConfig env = Some clk" "1000000 < unat clk"
    and "prescaler \<noteq> TTC_PRESCALER_INVALID \<longrightarrow> unat prescaler \<le> 15"
    and "XTTCPS_CLK_CNTRL_PS_DISABLE env = 16"
  shows "\<exists>status s'. sample_timer_init env rate cb s = Some (status, s') \<and>
    (s_timer_ready s' \<longleftrightarrow> status = SAMPLE_TIMER_OK) \<and>
    (status = SAMPLE_TIMER_OK \<longrightarrow> rate \<noteq> 0 \<and> cb \<noteq> None \<and> s_tick_cb s' = cb \<and>
       ttc_calls s' = ttc_calls s @ [XTtcPs_CfgInitialize, XTtcPs_SetOptions_INTERVAL_no_wave,
         XTtcPs_SetInterval interval, XTtcPs_SetPrescaler prescaler, XTtcPs_DisableInterrupts_ALL,
         XTtcPs_GetInterruptStatus, xPortInstallInterruptHandler (SAMPLE_TIMER_IRQ_ID env),
         XTtcPs_EnableInterrupts_INTERVAL, vPortEnableInterrupt (SAMPLE_TIMER_IRQ_ID env)] \<and>
       unat (s_period_us s') = (unat interval + 1) * 2 ^ Suc (unat prescaler) * 1000000 div unat clk) \<and>
    (status \<noteq> SAMPLE_TIMER_OK \<longrightarrow>
       (\<exists>new. ttc_calls s' = ttc_calls s @ new \<and> XTtcPs_EnableInterrupts_INTERVAL \<notin> set new) \<and>
       ttc_calls (sample_timer_start s') = ttc_calls s') \<and>
    (XTtcPs_CfgInitialize_status env = XST_DEVICE_IS_STARTED \<and> rate \<noteq> 0 \<and> cb \<noteq> None \<longrightarrow>
       status = SAMPLE_TIMER_ERR_BUSY \<and> ttc_calls s' = ttc_calls s @ [XTtcPs_CfgInitialize])"
proof (cases "prescaler = TTC_PRESCALER_INVALID")
  case True
  then show ?thesis
    using assms(1,2) by (auto simp: sample_timer_init_def ttc_call_def sample_timer_start_def Let_def)
next
  case False
  then have p: "unat prescaler \<le> 15" using assms(4) by simp
  then have "prescaler \<noteq> XTTCPS_CLK_CNTRL_PS_DISABLE env" using assms(5) by auto
  moreover have "clk \<noteq> 0" using assms(3) by auto
  ultimately show ?thesis
    using False p assms(1,2) timer_period_exact [OF p assms(3), of interval]
    by (auto simp: sample_timer_init_def ttc_call_def sample_timer_start_def Let_def)
qed

lemma sample_timer_init_correct_witness:
  "\<exists>s'. sample_timer_init zybo_timer_env 10 (Some 7) timer_unused = Some (SAMPLE_TIMER_OK, s') \<and>
     s_period_us s' = 99998 \<and> s_timer_ready s'"
proof -
  obtain status s' where
    res: "sample_timer_init zybo_timer_env 10 (Some 7) timer_unused = Some (status, s')"
    and ok: "status = SAMPLE_TIMER_OK \<longrightarrow> unat (s_period_us s') = 43402 * 2 ^ 8 * 1000000 div 111111115"
      "s_timer_ready s' \<longleftrightarrow> status = SAMPLE_TIMER_OK"
    using sample_timer_init_correct [of zybo_timer_env 10 43401 7 111111115 "Some 7" timer_unused]
    by (auto simp: zybo_timer_env_def)
  have "status = SAMPLE_TIMER_OK"
    using res by (simp add: sample_timer_init_def zybo_timer_env_def TTC_PRESCALER_INVALID_def Let_def)
  with ok have "unat (s_period_us s') = unat (99998 :: u32)" by simp
  then have "s_period_us s' = 99998" by (rule word_unat_eq_iff [THEN iffD2])
  with res ok \<open>status = _\<close> show ?thesis by simp
qed

end
