(* ===== verification/Producer.thy ===== *)
theory Producer
  imports Messages Sample_Timer
begin

text \<open>
  \<open>tasks/task_producer.c\<close>: the producer. \<open>producer_state\<close> holds the module's statistics and the
  variables of the task's loop; \<open>producer_env\<close> is what the kernel and the hardware answer during
  one pass of the loop: the notification count, the three uptime readings, the ADC, the log's
  mutex, and the tick count at the check-in. Critical sections only matter to the readers of
  the statistics and are left out; the conversion of the wait times to ticks is an argument.
\<close>

section \<open>The code\<close>

record producer_stats_t =
  timer_period_us :: u32
  samples :: u32
  overruns :: u32
  timeouts :: u32
  period_min_us :: u32
  period_max_us :: u32
  read_time_max_us :: u32
  log_write_max_us :: u32
  log_write_drops :: u32
  doorbell_retries :: u32
  sensor_min :: xadc_sample_t
  sensor_max :: xadc_sample_t

record producer_cycle_t =
  read_time_us :: u32
  write_time_us :: u32
  missed_ticks :: u32
  write_dropped :: bool
  doorbell_failed :: bool

record producer_state =
  p_stats :: producer_stats_t
  p_record :: sensor_record_t
  p_prev_capture_us :: u64
  p_log_was_empty :: bool
  p_doorbell_pending :: bool

record producer_env =
  ulTaskNotifyTake :: u32
  captured_at :: u64
  adc_data :: "xadcps_name \<Rightarrow> u16"
  write_started_at :: u64
  write_env :: log_env
  write_ended_at :: u64
  checkin_tick :: u32

definition gpio_btn_of :: "nat \<Rightarrow> gpio_btn_id_t" where
  "gpio_btn_of n = (if n = 0 then GPIO_BTN4 else if n = 1 then GPIO_BTN5 else GPIO_BTN_COUNT)"

definition producer_read_buttons :: "gpio_state \<Rightarrow> u8 option" where
  "producer_read_buttons g =
     for_each (\<lambda>btn button_bits. do {
         down \<leftarrow> gpio_drv_btn_is_down (gpio_btn_of btn) g;
         Some (if down then button_bits OR ucast (SENSOR_BTN_BIT (gpio_btn_of btn)) else button_bits)
       }) [0..<gpio_btn_count] 0"

text \<open>One round of the loop over the sensors' extremes.\<close>

definition update_min_max :: "sensor_record_t \<Rightarrow> nat \<Rightarrow> producer_stats_t \<Rightarrow> producer_stats_t option" where
  "update_min_max record sensor st = do {
     code \<leftarrow> arr_get (raw_code (sensors record)) sensor;
     lo \<leftarrow> arr_get (raw_code (sensor_min st)) sensor;
     mins \<leftarrow> (if code < lo then arr_set (raw_code (sensor_min st)) sensor code else Some (raw_code (sensor_min st)));
     let st = st\<lparr>sensor_min := (sensor_min st)\<lparr>raw_code := mins\<rparr>\<rparr>;
     hi \<leftarrow> arr_get (raw_code (sensor_max st)) sensor;
     maxs \<leftarrow> (if code > hi then arr_set (raw_code (sensor_max st)) sensor code else Some (raw_code (sensor_max st)));
     Some (st\<lparr>sensor_max := (sensor_max st)\<lparr>raw_code := maxs\<rparr>\<rparr>)
   }"

definition producer_update_stats ::
  "sensor_record_t \<Rightarrow> u64 \<Rightarrow> producer_cycle_t \<Rightarrow> producer_stats_t \<Rightarrow> producer_stats_t option" where
  "producer_update_stats record prev_capture_us cycle st =
     (let st = st\<lparr>samples := samples st + 1\<rparr>;
          st = st\<lparr>overruns := overruns st + missed_ticks cycle\<rparr>;
          st = (if read_time_us cycle > read_time_max_us st
                then st\<lparr>read_time_max_us := read_time_us cycle\<rparr> else st);
          st = (if write_time_us cycle > log_write_max_us st
                then st\<lparr>log_write_max_us := write_time_us cycle\<rparr> else st);
          st = (if write_dropped cycle then st\<lparr>log_write_drops := log_write_drops st + 1\<rparr> else st);
          st = (if doorbell_failed cycle then st\<lparr>doorbell_retries := doorbell_retries st + 1\<rparr> else st);
          st = (if prev_capture_us \<noteq> 0
                then let interval_us = (ucast (capture_us record - prev_capture_us) :: u32);
                         st = (if interval_us < period_min_us st then st\<lparr>period_min_us := interval_us\<rparr> else st)
                     in if interval_us > period_max_us st then st\<lparr>period_max_us := interval_us\<rparr> else st
                else st)
      in if samples st = 1
         then Some (st\<lparr>sensor_min := sensors record, sensor_max := sensors record\<rparr>)
         else for_each (update_min_max record) [0..<xadc_sensor_count] st)"

text \<open>
  One pass of the task's loop up to its check-in; the first component of the result is whether
  the check-in is reached, and not the \<open>continue\<close> after a timeout.
\<close>

definition producer_sample ::
  "'q rtos_queue \<Rightarrow> u32 \<Rightarrow> producer_env \<Rightarrow> producer_state \<times> 'q board
     \<Rightarrow> (bool \<times> producer_state \<times> 'q board) option" where
  "producer_sample ops log_write_wait env pb =
     (let (p, b) = pb; pending_ticks = ulTaskNotifyTake env
      in if pending_ticks = 0
      then Some (False, p\<lparr>p_stats := (p_stats p)\<lparr>timeouts := timeouts (p_stats p) + 1\<rparr>\<rparr>, b)
      else do {
        let record = (p_record p)\<lparr>capture_us := captured_at env\<rparr>;
        sens \<leftarrow> xadc_drv_read_all (adc_data env) (b_xadc b) (Some (sensors record));
        btns \<leftarrow> producer_read_buttons (b_gpio b);
        let record = record\<lparr>sensors := sens, buttons := btns\<rparr>;
        let record = record\<lparr>seq := seq record + 1\<rparr>;
        (written, was_empty, l) \<leftarrow>
          sensor_log_write (write_env env) (Some record) log_write_wait (Some (p_log_was_empty p)) (b_log b);
        log_was_empty \<leftarrow> was_empty;
        let write_time = (ucast (write_ended_at env - write_started_at env) :: u32);
        let (doorbell_pending, failed, q) =
          (if written \<and> (log_was_empty \<or> p_doorbell_pending p)
           then let (ok, q) = task_consumer_send ops CONSUMER_MSG_DATA_READY NUL (b_queue b)
                in (\<not> ok, \<not> ok, q)
           else (p_doorbell_pending p, False, b_queue b));
        let cycle = \<lparr>read_time_us = ucast (write_started_at env - capture_us record),
                     write_time_us = write_time, missed_ticks = pending_ticks - 1,
                     write_dropped = \<not> written, doorbell_failed = failed\<rparr>;
        st \<leftarrow> producer_update_stats record (p_prev_capture_us p) cycle (p_stats p);
        Some (True, \<lparr>p_stats = st, p_record = record, p_prev_capture_us = capture_us record,
                     p_log_was_empty = log_was_empty, p_doorbell_pending = doorbell_pending\<rparr>,
              b\<lparr>b_log := l, b_queue := q\<rparr>)
      })"

text \<open>The whole pass; \<open>None\<close> also if the check-in does not return.\<close>

definition producer_pass ::
  "'q rtos_queue \<Rightarrow> u32 \<Rightarrow> producer_env \<Rightarrow> producer_state \<times> 'q board \<Rightarrow> (producer_state \<times> 'q board) option" where
  "producer_pass ops log_write_wait env pb = do {
     (due, p, b) \<leftarrow> producer_sample ops log_write_wait env pb;
     if due
     then do {
       w \<leftarrow> task_watchdog_checkin (checkin_tick env) WDOG_CLIENT_PRODUCER (b_wdog b);
       Some (p, b\<lparr>b_wdog := w\<rparr>)
     }
     else Some (p, b)
   }"

text \<open>What the task does before its loop, and the module's entry points.\<close>

definition producer_begin ::
  "timer_init_env \<Rightarrow> 'cb option \<Rightarrow> 'cb timer_state \<Rightarrow> producer_state
     \<Rightarrow> (sample_timer_status_t + (producer_state \<times> 'cb timer_state)) option" where
  "producer_begin env cb t p = do {
     (status, t) \<leftarrow> sample_timer_init env APP_SAMPLE_RATE_HZ cb t;
     if status \<noteq> SAMPLE_TIMER_OK then Some (Inl status)
     else Some (Inr (p\<lparr>p_stats := (p_stats p)\<lparr>timer_period_us := sample_timer_period_us t\<rparr>,
                       p_record := (p_record p)\<lparr>seq := 0\<rparr>, p_prev_capture_us := 0,
                       p_log_was_empty := False, p_doorbell_pending := False\<rparr>,
                     sample_timer_start t))
   }"

text \<open>
  The callback in the timer's interrupt, by the calls it makes; \<open>woken\<close> is what the kernel answers
  through the pointer it is given, \<open>pdFALSE\<close> until then.
\<close>

datatype isr_call = vTaskNotifyGiveFromISR | portYIELD_FROM_ISR bool

definition producer_timer_tick_cb :: "bool \<Rightarrow> isr_call list \<Rightarrow> isr_call list" where
  "producer_timer_tick_cb woken calls =
     (let calls = calls @ [vTaskNotifyGiveFromISR];
          higher_prio_task_woken = woken
      in calls @ [portYIELD_FROM_ISR higher_prio_task_woken])"

definition task_producer_create :: "bool \<Rightarrow> producer_state \<Rightarrow> bool \<times> producer_state" where
  "task_producer_create xTaskCreate_ok p =
     (xTaskCreate_ok, p\<lparr>p_stats := (p_stats p)\<lparr>period_min_us := 0xFFFFFFFF\<rparr>\<rparr>)"

definition task_producer_get_stats :: "producer_state \<Rightarrow> producer_stats_t option \<Rightarrow> producer_stats_t option" where
  "task_producer_get_stats p stats_out = (if stats_out = None then None else Some (p_stats p))"

definition task_producer_sample_count :: "producer_state \<Rightarrow> u32" where
  "task_producer_sample_count p = samples (p_stats p)"

section \<open>The statistics\<close>

definition prod_wf :: "producer_state \<Rightarrow> bool" where
  "prod_wf p \<longleftrightarrow> length (raw_code (sensors (p_record p))) = 7 \<and>
     length (raw_code (sensor_min (p_stats p))) = 7 \<and> length (raw_code (sensor_max (p_stats p))) = 7"

definition with_extremes :: "u16 list \<Rightarrow> u16 list \<Rightarrow> producer_stats_t \<Rightarrow> producer_stats_t" where
  "with_extremes mins maxs st =
     st\<lparr>sensor_min := (sensor_min st)\<lparr>raw_code := mins\<rparr>, sensor_max := (sensor_max st)\<lparr>raw_code := maxs\<rparr>\<rparr>"

lemma with_extremes_simps [simp]:
  "raw_code (sensor_min (with_extremes a b st)) = a" "raw_code (sensor_max (with_extremes a b st)) = b"
  "with_extremes a b (with_extremes c d st) = with_extremes a b st"
  by (simp_all add: with_extremes_def)

lemma with_extremes_id: "with_extremes (raw_code (sensor_min st)) (raw_code (sensor_max st)) st = st"
  by (simp add: with_extremes_def)

lemma update_min_max_eq:
  assumes "i < 7" "length (raw_code (sensors r)) = 7"
    "length (raw_code (sensor_min st)) = 7" "length (raw_code (sensor_max st)) = 7"
  shows "update_min_max r i st = Some (with_extremes
    ((raw_code (sensor_min st))[i := min (raw_code (sensors r) ! i) (raw_code (sensor_min st) ! i)])
    ((raw_code (sensor_max st))[i := max (raw_code (sensors r) ! i) (raw_code (sensor_max st) ! i)]) st)"
  using assms
  by (auto simp: update_min_max_def with_extremes_def min_def max_def list_update_id not_less not_le Let_def
      dest: order.strict_implies_order)

lemma take_map2_step:
  assumes "i < length xs" "length ys = length xs"
  shows "(map2 f (take i xs) (take i ys) @ drop i ys)[i := f (xs ! i) (ys ! i)] =
     map2 f (take (Suc i) xs) (take (Suc i) ys) @ drop (Suc i) ys"
proof -
  have "drop i ys = ys ! i # drop (Suc i) ys" using assms by (simp add: Cons_nth_drop_Suc)
  then show ?thesis
    using assms by (simp add: list_update_append take_Suc_conv_app_nth)
qed

lemma for_each_min_max:
  assumes "length (raw_code (sensors r)) = 7"
    "length (raw_code (sensor_min st)) = 7" "length (raw_code (sensor_max st)) = 7"
  shows "for_each (update_min_max r) [0..<xadc_sensor_count] st = Some (with_extremes
    (map2 min (raw_code (sensors r)) (raw_code (sensor_min st)))
    (map2 max (raw_code (sensors r)) (raw_code (sensor_max st))) st)"
proof -
  let ?x = "raw_code (sensors r)" and ?a = "raw_code (sensor_min st)" and ?b = "raw_code (sensor_max st)"
  have "n \<le> 7 \<Longrightarrow> for_each (update_min_max r) [0..<n] st = Some (with_extremes
      (map2 min (take n ?x) (take n ?a) @ drop n ?a) (map2 max (take n ?x) (take n ?b) @ drop n ?b) st)" for n
  proof (induction n)
    case 0
    then show ?case by (simp add: with_extremes_id)
  next
    case (Suc n)
    have nth: "(map2 f (take n ?x) (take n ys) @ drop n ys) ! n = ys ! n" if "length ys = 7" for f and ys :: "u16 list"
      using that assms(1) Suc.prems by (simp add: nth_append)
    show ?case
      using Suc assms
      by (simp add: for_each_append update_min_max_eq nth take_map2_step [where f = min, symmetric]
          take_map2_step [where f = max, symmetric])
  qed
  from this [of 7] show ?thesis using assms by simp
qed

definition stats_next :: "sensor_record_t \<Rightarrow> u64 \<Rightarrow> producer_cycle_t \<Rightarrow> producer_stats_t \<Rightarrow> producer_stats_t" where
  "stats_next r prev cycle st =
     st\<lparr>samples := samples st + 1, overruns := overruns st + missed_ticks cycle,
        read_time_max_us := max (read_time_max_us st) (read_time_us cycle),
        log_write_max_us := max (log_write_max_us st) (write_time_us cycle),
        log_write_drops := log_write_drops st + (if write_dropped cycle then 1 else 0),
        doorbell_retries := doorbell_retries st + (if doorbell_failed cycle then 1 else 0),
        period_min_us := (if prev = 0 then period_min_us st
                          else min (period_min_us st) (ucast (capture_us r - prev))),
        period_max_us := (if prev = 0 then period_max_us st
                          else max (period_max_us st) (ucast (capture_us r - prev))),
        sensor_min := (if samples st + 1 = 1 then sensors r else (sensor_min st)
           \<lparr>raw_code := map2 min (raw_code (sensors r)) (raw_code (sensor_min st))\<rparr>),
        sensor_max := (if samples st + 1 = 1 then sensors r else (sensor_max st)
           \<lparr>raw_code := map2 max (raw_code (sensors r)) (raw_code (sensor_max st))\<rparr>)\<rparr>"

text \<open>The conditional updates of the code, as unconditional ones.\<close>

lemma conditional_updates:
  "(if x > read_time_max_us st then st\<lparr>read_time_max_us := x\<rparr> else st) =
     st\<lparr>read_time_max_us := max (read_time_max_us st) x\<rparr>"
  "(if x > log_write_max_us st then st\<lparr>log_write_max_us := x\<rparr> else st) =
     st\<lparr>log_write_max_us := max (log_write_max_us st) x\<rparr>"
  "(if c then st\<lparr>log_write_drops := log_write_drops st + 1\<rparr> else st) =
     st\<lparr>log_write_drops := log_write_drops st + (if c then 1 else 0)\<rparr>"
  "(if c then st\<lparr>doorbell_retries := doorbell_retries st + 1\<rparr> else st) =
     st\<lparr>doorbell_retries := doorbell_retries st + (if c then 1 else 0)\<rparr>"
  "(if x < period_min_us st then st\<lparr>period_min_us := x\<rparr> else st) =
     st\<lparr>period_min_us := min (period_min_us st) x\<rparr>"
  "(if x > period_max_us st then st\<lparr>period_max_us := x\<rparr> else st) =
     st\<lparr>period_max_us := max (period_max_us st) x\<rparr>"
  "(if c then st\<lparr>period_min_us := x, period_max_us := y\<rparr> else st) =
     st\<lparr>period_min_us := (if c then x else period_min_us st),
        period_max_us := (if c then y else period_max_us st)\<rparr>"
  by (simp_all add: max_def min_def not_less)

definition counters_next :: "sensor_record_t \<Rightarrow> u64 \<Rightarrow> producer_cycle_t \<Rightarrow> producer_stats_t \<Rightarrow> producer_stats_t" where
  "counters_next r prev cycle st =
     (stats_next r prev cycle st)\<lparr>sensor_min := sensor_min st, sensor_max := sensor_max st\<rparr>"

lemma counters_next_simps [simp]:
  "sensor_min (counters_next r prev cycle st) = sensor_min st"
  "sensor_max (counters_next r prev cycle st) = sensor_max st"
  "samples (counters_next r prev cycle st) = samples st + 1"
  by (simp_all add: counters_next_def stats_next_def)

lemma producer_update_stats_split:
  "producer_update_stats r prev cycle st =
     (if samples st + 1 = 1
      then Some ((counters_next r prev cycle st)\<lparr>sensor_min := sensors r, sensor_max := sensors r\<rparr>)
      else for_each (update_min_max r) [0..<xadc_sensor_count] (counters_next r prev cycle st))"
  unfolding producer_update_stats_def conditional_updates counters_next_def stats_next_def Let_def
  by simp

lemma producer_update_stats_eq:
  assumes "length (raw_code (sensors r)) = 7"
    "length (raw_code (sensor_min st)) = 7" "length (raw_code (sensor_max st)) = 7"
  shows "producer_update_stats r prev cycle st = Some (stats_next r prev cycle st)"
  unfolding producer_update_stats_split
  using for_each_min_max [of r "counters_next r prev cycle st"] assms
  by (simp add: with_extremes_def del: xadc_sensor_count_7)
     (simp add: counters_next_def stats_next_def)

lemma stats_next_lengths:
  "length (raw_code (sensors r)) = 7 \<Longrightarrow> length (raw_code (sensor_min st)) = 7 \<Longrightarrow>
     length (raw_code (sensor_max st)) = 7 \<Longrightarrow>
     length (raw_code (sensor_min (stats_next r prev cycle st))) = 7 \<and>
     length (raw_code (sensor_max (stats_next r prev cycle st))) = 7"
  by (simp add: stats_next_def)

text \<open>The statistics over a run of samples, as the loop updates them.\<close>

fun stats_run :: "u64 \<Rightarrow> (sensor_record_t \<times> producer_cycle_t) list \<Rightarrow> producer_stats_t \<Rightarrow> producer_stats_t option" where
  "stats_run prev [] st = Some st"
| "stats_run prev ((r, cycle) # xs) st = do {
     st \<leftarrow> producer_update_stats r prev cycle st;
     stats_run (capture_us r) xs st
   }"

definition last_capture :: "(sensor_record_t \<times> producer_cycle_t) list \<Rightarrow> u64" where
  "last_capture xs = (if xs = [] then 0 else capture_us (fst (last xs)))"

lemma stats_run_snoc:
  "stats_run prev (xs @ [(r, cycle)]) st = do {
     st \<leftarrow> stats_run prev xs st;
     producer_update_stats r (if xs = [] then prev else last_capture xs) cycle st
   }"
proof (induction xs arbitrary: prev st)
  case Nil
  then show ?case by (cases "producer_update_stats r prev cycle st") (simp_all add: last_capture_def)
next
  case (Cons x xs)
  then show ?case
    by (cases x; cases "producer_update_stats (fst x) prev (snd x) st") (simp_all add: last_capture_def)
qed

definition producer_stats_start :: producer_stats_t where
  "producer_stats_start = \<lparr>timer_period_us = 0, samples = 0, overruns = 0, timeouts = 0,
     period_min_us = 0xFFFFFFFF, period_max_us = 0, read_time_max_us = 0, log_write_max_us = 0,
     log_write_drops = 0, doorbell_retries = 0, sensor_min = zero_sample, sensor_max = zero_sample\<rparr>"

text \<open>The times between successive samples.\<close>

definition intervals :: "u64 list \<Rightarrow> u32 list" where
  "intervals ts = map2 (\<lambda>a b. ucast (b - a)) ts (tl ts)"

lemma intervals_snoc: "ts \<noteq> [] \<Longrightarrow> intervals (ts @ [t]) = intervals ts @ [ucast (t - last ts)]"
proof (induction ts)
  case Nil
  then show ?case by simp
next
  case (Cons a ts)
  then show ?case by (cases ts) (simp_all add: intervals_def)
qed

definition column :: "nat \<Rightarrow> (sensor_record_t \<times> producer_cycle_t) list \<Rightarrow> u16 list" where
  "column i xs = map (\<lambda>x. raw_code (sensors (fst x)) ! i) xs"

lemma column_snoc [simp]: "column i (xs @ [x]) = column i xs @ [raw_code (sensors (fst x)) ! i]"
  by (simp add: column_def)

lemma column_Nil_iff [simp]: "column i xs = [] \<longleftrightarrow> xs = []"
  by (simp add: column_def)

lemma Min_snoc: "ys \<noteq> [] \<Longrightarrow> Min (set (ys @ [y])) = min y (Min (set ys))" for y :: "'a :: linorder"
  by simp

lemma Max_snoc: "ys \<noteq> [] \<Longrightarrow> Max (set (ys @ [y])) = max y (Max (set ys))" for y :: "'a :: linorder"
  by simp

definition extremes_ok :: "(sensor_record_t \<times> producer_cycle_t) list \<Rightarrow> producer_stats_t \<Rightarrow> bool" where
  "extremes_ok xs st \<longleftrightarrow> length (raw_code (sensor_min st)) = 7 \<and> length (raw_code (sensor_max st)) = 7 \<and>
     (xs \<noteq> [] \<longrightarrow> (\<forall>i<7. raw_code (sensor_min st) ! i = Min (set (column i xs)) \<and>
                          raw_code (sensor_max st) ! i = Max (set (column i xs))))"

lemma extremes_step:
  assumes "extremes_ok xs st" "length (raw_code (sensors r)) = 7"
    "samples st = of_nat (length xs)" "length xs + 1 < 4294967296"
  shows "extremes_ok (xs @ [(r, cycle)]) (stats_next r prev cycle st)"
proof (cases "xs = []")
  case True
  then show ?thesis
    using assms by (simp add: extremes_ok_def stats_next_def column_def)
next
  case False
  have "unat (samples st + 1) = length xs + 1"
    using assms(3,4) by (simp add: unat_u32_add unat_of_nat_u32)
  then have "samples st + 1 \<noteq> 1" using False by auto
  then show ?thesis
    using False assms(1,2) by (simp add: extremes_ok_def stats_next_def Min_snoc Max_snoc del: set_append)
qed

text \<open>\<open>prev_capture_us\<close> is 0 before the first record only, so it tells whether there is an interval.\<close>

lemma intervals_next:
  assumes "list_all (\<lambda>x. capture_us (fst x) \<noteq> 0) xs"
  shows "intervals (map (capture_us \<circ> fst) xs @ [t]) =
    intervals (map (capture_us \<circ> fst) xs) @ (if last_capture xs = 0 then [] else [ucast (t - last_capture xs)])"
proof (cases "xs = []")
  case True
  then show ?thesis by (simp add: last_capture_def intervals_def)
next
  case False
  then have "last xs \<in> set xs" by simp
  then have "last_capture xs \<noteq> 0" using assms False by (simp add: last_capture_def list_all_iff)
  then show ?thesis
    using False intervals_snoc [of "map (capture_us \<circ> fst) xs" t] by (simp add: last_capture_def last_map)
qed

lemma stats_run_facts:
  assumes "list_all (\<lambda>x. length (raw_code (sensors (fst x))) = 7 \<and> capture_us (fst x) \<noteq> 0) xs"
    and "length xs < 4294967296"
  shows "\<exists>st. stats_run 0 xs producer_stats_start = Some st \<and> extremes_ok xs st \<and>
    samples st = of_nat (length xs) \<and>
    overruns st = sum_list (map (missed_ticks \<circ> snd) xs) \<and>
    log_write_drops st = of_nat (length (filter (write_dropped \<circ> snd) xs)) \<and>
    doorbell_retries st = of_nat (length (filter (doorbell_failed \<circ> snd) xs)) \<and>
    read_time_max_us st = fold max (map (read_time_us \<circ> snd) xs) 0 \<and>
    log_write_max_us st = fold max (map (write_time_us \<circ> snd) xs) 0 \<and>
    period_min_us st = fold min (intervals (map (capture_us \<circ> fst) xs)) 0xFFFFFFFF \<and>
    period_max_us st = fold max (intervals (map (capture_us \<circ> fst) xs)) 0"
  using assms
proof (induction xs rule: rev_induct)
  case Nil
  then show ?case
    by (simp add: producer_stats_start_def extremes_ok_def zero_sample_def intervals_def)
next
  case (snoc x xs)
  obtain r cycle where x: "x = (r, cycle)" by fastforce
  have pre: "list_all (\<lambda>x. length (raw_code (sensors (fst x))) = 7 \<and> capture_us (fst x) \<noteq> 0) xs"
    "length xs < 4294967296"
    using snoc.prems by simp_all
  from snoc.IH [OF pre] obtain st where st: "stats_run 0 xs producer_stats_start = Some st" "extremes_ok xs st"
    "samples st = of_nat (length xs)" "overruns st = sum_list (map (missed_ticks \<circ> snd) xs)"
    "log_write_drops st = of_nat (length (filter (write_dropped \<circ> snd) xs))"
    "doorbell_retries st = of_nat (length (filter (doorbell_failed \<circ> snd) xs))"
    "read_time_max_us st = fold max (map (read_time_us \<circ> snd) xs) 0"
    "log_write_max_us st = fold max (map (write_time_us \<circ> snd) xs) 0"
    "period_min_us st = fold min (intervals (map (capture_us \<circ> fst) xs)) 0xFFFFFFFF"
    "period_max_us st = fold max (intervals (map (capture_us \<circ> fst) xs)) 0"
    by (elim exE conjE)
  have r: "length (raw_code (sensors r)) = 7" using snoc.prems(1) x by simp
  let ?prev = "last_capture xs"
  have lens: "length (raw_code (sensor_min st)) = 7" "length (raw_code (sensor_max st)) = 7"
    using st(2) by (simp_all add: extremes_ok_def)
  have run: "stats_run 0 (xs @ [x]) producer_stats_start = Some (stats_next r ?prev cycle st)"
    using st(1) by (simp add: x stats_run_snoc producer_update_stats_eq r lens last_capture_def)
  have ivl: "intervals (map (capture_us \<circ> fst) xs @ [capture_us r]) =
      intervals (map (capture_us \<circ> fst) xs) @ (if ?prev = 0 then [] else [ucast (capture_us r - ?prev)])"
    by (rule intervals_next) (use snoc.prems(1) in \<open>simp add: list_all_iff\<close>)
  let ?st = "stats_next r ?prev cycle st"
  have "extremes_ok (xs @ [x]) ?st"
    unfolding x by (rule extremes_step [OF st(2) r st(3)]) (use snoc.prems(2) in simp)
  moreover have "samples ?st = of_nat (length (xs @ [x]))"
    "overruns ?st = sum_list (map (missed_ticks \<circ> snd) (xs @ [x]))"
    "log_write_drops ?st = of_nat (length (filter (write_dropped \<circ> snd) (xs @ [x])))"
    "doorbell_retries ?st = of_nat (length (filter (doorbell_failed \<circ> snd) (xs @ [x])))"
    "read_time_max_us ?st = fold max (map (read_time_us \<circ> snd) (xs @ [x])) 0"
    "log_write_max_us ?st = fold max (map (write_time_us \<circ> snd) (xs @ [x])) 0"
    "period_min_us ?st = fold min (intervals (map (capture_us \<circ> fst) (xs @ [x]))) 0xFFFFFFFF"
    "period_max_us ?st = fold max (intervals (map (capture_us \<circ> fst) (xs @ [x]))) 0"
    by (simp_all add: stats_next_def x st(3-) ivl max.commute min.commute)
  ultimately show ?case using run by blast
qed

section \<open>Properties\<close>

text \<open>
  C32: The statistics after any run of fewer than \<open>2 ^ 32\<close> samples (with non-zero capture times):
  the samples, the samples dropped on a lock timeout and the failed doorbells are counted one by
  one, every sensor's recorded extremes are the least and greatest code over all samples taken,
  stored or dropped, and the longest read and write times and the shortest and longest time
  between successive samples are those of the run.
\<close>

theorem producer_stats_exact:
  assumes "list_all (\<lambda>x. length (raw_code (sensors (fst x))) = 7 \<and> capture_us (fst x) \<noteq> 0) xs"
    and "length xs < 4294967296"
  shows "\<exists>st. stats_run 0 xs producer_stats_start = Some st \<and>
    unat (samples st) = length xs \<and>
    unat (log_write_drops st) = length (filter (write_dropped \<circ> snd) xs) \<and>
    unat (doorbell_retries st) = length (filter (doorbell_failed \<circ> snd) xs) \<and>
    (xs \<noteq> [] \<longrightarrow> (\<forall>i<7. raw_code (sensor_min st) ! i = Min (set (column i xs)) \<and>
                         raw_code (sensor_max st) ! i = Max (set (column i xs)))) \<and>
    read_time_max_us st = fold max (map (read_time_us \<circ> snd) xs) 0 \<and>
    log_write_max_us st = fold max (map (write_time_us \<circ> snd) xs) 0 \<and>
    period_min_us st = fold min (intervals (map (capture_us \<circ> fst) xs)) 0xFFFFFFFF \<and>
    period_max_us st = fold max (intervals (map (capture_us \<circ> fst) xs)) 0"
proof -
  have "length (filter P xs) < 4294967296" for P
    using assms(2) by (rule le_less_trans [OF length_filter_le])
  then show ?thesis
    using stats_run_facts [OF assms] assms(2)
    by (auto simp: unat_of_nat_u32 extremes_ok_def)
qed

lemma producer_stats_exact_witness:
  "\<exists>st. stats_run 0
      [(\<lparr>capture_us = 1000, seq = 1, sensors = \<lparr>raw_code = [5, 9, 1, 1, 1, 1, 1]\<rparr>, buttons = 0\<rparr>,
        \<lparr>read_time_us = 40, write_time_us = 7, missed_ticks = 0, write_dropped = False, doorbell_failed = False\<rparr>),
       (\<lparr>capture_us = 101000, seq = 2, sensors = \<lparr>raw_code = [7, 3, 1, 1, 1, 1, 1]\<rparr>, buttons = 0\<rparr>,
        \<lparr>read_time_us = 30, write_time_us = 9, missed_ticks = 0, write_dropped = True, doorbell_failed = False\<rparr>)]
      producer_stats_start = Some st \<and>
    unat (samples st) = 2 \<and> unat (log_write_drops st) = 1 \<and> period_max_us st = 100000 \<and>
    raw_code (sensor_min st) ! 0 = 5 \<and> raw_code (sensor_max st) ! 0 = 7 \<and> raw_code (sensor_min st) ! 1 = 3"
proof -
  let ?xs = "[(\<lparr>capture_us = 1000, seq = 1, sensors = \<lparr>raw_code = [5, 9, 1, 1, 1, 1, 1]\<rparr>, buttons = 0\<rparr>,
        \<lparr>read_time_us = 40, write_time_us = 7, missed_ticks = 0, write_dropped = False, doorbell_failed = False\<rparr>),
       (\<lparr>capture_us = 101000, seq = 2, sensors = \<lparr>raw_code = [7, 3, 1, 1, 1, 1, 1]\<rparr>, buttons = 0\<rparr>,
        \<lparr>read_time_us = 30, write_time_us = 9, missed_ticks = 0, write_dropped = True, doorbell_failed = False\<rparr>)]"
  obtain st where st: "stats_run 0 ?xs producer_stats_start = Some st" "unat (samples st) = length ?xs"
      "unat (log_write_drops st) = length (filter (write_dropped \<circ> snd) ?xs)"
      "\<forall>i<7. raw_code (sensor_min st) ! i = Min (set (column i ?xs)) \<and>
             raw_code (sensor_max st) ! i = Max (set (column i ?xs))"
      "period_max_us st = fold max (intervals (map (capture_us \<circ> fst) ?xs)) 0"
    using producer_stats_exact [of ?xs] by auto
  have "raw_code (sensor_min st) ! 0 = 5" "raw_code (sensor_max st) ! 0 = 7" "raw_code (sensor_min st) ! 1 = 3"
    using st(4) [rule_format, of 0] st(4) [rule_format, of 1] by (simp_all add: column_def)
  with st(1-3,5) show ?thesis by (simp add: intervals_def)
qed

section \<open>One sample\<close>

definition down_bits :: "gpio_state \<Rightarrow> u8" where
  "down_bits g = (if is_down (s_btn_state g ! 0) then 1 else 0) OR (if is_down (s_btn_state g ! 1) then 2 else 0)"

lemma producer_read_buttons_eq:
  assumes "gpio_wf g"
  shows "producer_read_buttons g = Some (down_bits g)"
  using gpio_wf_length [OF assms]
  by (simp add: down_bits_def producer_read_buttons_def upt_2 gpio_btn_of_def is_down_eq SENSOR_BTN_BIT_def)

definition sampled_record :: "producer_env \<Rightarrow> producer_state \<Rightarrow> 'q board \<Rightarrow> sensor_record_t" where
  "sampled_record env p b =
     (p_record p)\<lparr>capture_us := captured_at env,
       sensors := (sensors (p_record p))
         \<lparr>raw_code := map (\<lambda>i. xadc_drv_read_raw (adc_data env) (b_xadc b) (xadc_sensor_of i)) [0..<7]\<rparr>,
       buttons := down_bits (b_gpio b),
       seq := seq (p_record p) + 1\<rparr>"

text \<open>Whether the doorbell is rung, and what the log and the queue become.\<close>

definition stored :: "producer_env \<Rightarrow> u32 \<Rightarrow> bool" where
  "stored env w = xSemaphoreTake (write_env env) w"

definition rings :: "producer_env \<Rightarrow> u32 \<Rightarrow> producer_state \<Rightarrow> 'q board \<Rightarrow> bool" where
  "rings env w p b \<longleftrightarrow> stored env w \<and> (log_contents (b_log b) = [] \<or> p_doorbell_pending p)"

definition log_next :: "producer_env \<Rightarrow> u32 \<Rightarrow> sensor_record_t \<Rightarrow> sensor_log_state \<Rightarrow> sensor_log_state" where
  "log_next env w r l =
     (if stored env w then log_locked (write_env env) w (l\<lparr>s_ring := push_next r (s_ring l)\<rparr>)
      else log_timeout w l)"

lemma log_next_wf [wf_intros]: "log_wf l \<Longrightarrow> log_wf (log_next env w r l)"
  by (simp add: log_next_def log_wf_push)

lemma log_next_contents:
  "log_wf l \<Longrightarrow> log_contents (log_next env w r l) =
     (if stored env w then snd (ref_push (unat (capacity (s_ring l))) r (log_contents l)) else log_contents l)"
  by (simp add: log_next_def log_contents_def log_wf_def push_next_contents ref_push_def)

lemma producer_sample_eq:
  assumes "log_wf (b_log b)" "gpio_wf (b_gpio b)" "prod_wf p" "ulTaskNotifyTake env \<noteq> 0"
    and "b_queue b = Some q" "r = sampled_record env p b"
  shows "\<exists>st lwe. producer_sample ops w env (p, b) = Some (True,
      \<lparr>p_stats = st, p_record = r, p_prev_capture_us = capture_us r, p_log_was_empty = lwe,
       p_doorbell_pending = (if rings env w p b
         then \<not> fst (xQueueSend ops \<lparr>msg_id = CONSUMER_MSG_DATA_READY, msg_key = NUL\<rparr> q)
         else p_doorbell_pending p)\<rparr>,
      b\<lparr>b_log := log_next env w r (b_log b),
        b_queue := Some (if rings env w p b
          then snd (xQueueSend ops \<lparr>msg_id = CONSUMER_MSG_DATA_READY, msg_key = NUL\<rparr> q) else q)\<rparr>) \<and>
    st = stats_next r (p_prev_capture_us p)
      \<lparr>read_time_us = ucast (write_started_at env - captured_at env),
       write_time_us = ucast (write_ended_at env - write_started_at env),
       missed_ticks = ulTaskNotifyTake env - 1, write_dropped = \<not> stored env w,
       doorbell_failed = (rings env w p b \<and>
         \<not> fst (xQueueSend ops \<lparr>msg_id = CONSUMER_MSG_DATA_READY, msg_key = NUL\<rparr> q))\<rparr> (p_stats p)"
proof -
  have lens: "length (raw_code (sensors (p_record p))) = 7"
    "length (raw_code (sensor_min (p_stats p))) = 7" "length (raw_code (sensor_max (p_stats p))) = 7"
    using assms(3) by (simp_all add: prod_wf_def)
  have rl: "length (raw_code (sensors r)) = 7" by (simp add: assms(6) sampled_record_def)
  have rec: "(p_record p)\<lparr>capture_us := captured_at env,
      sensors := (sensors (p_record p))
        \<lparr>raw_code := map (\<lambda>i. xadc_drv_read_raw (adc_data env) (b_xadc b) (xadc_sensor_of i)) [0..<7]\<rparr>,
      buttons := down_bits (b_gpio b),
      seq := seq (p_record p) + 1\<rparr> = r"
    by (simp add: assms(6) sampled_record_def)
  have cap: "capture_us r = captured_at env" by (simp add: assms(6) sampled_record_def)
  have wr: "sensor_log_write (write_env env) (Some r) w (Some (p_log_was_empty p)) (b_log b) =
      Some (stored env w, Some (if stored env w then log_contents (b_log b) = [] else p_log_was_empty p),
            log_next env w r (b_log b))"
    by (simp add: sensor_log_write_eq [OF assms(1)] stored_def log_next_def)
  show ?thesis
    using assms(4,5)
    by (simp add: producer_sample_def read_all_eq lens(1) producer_read_buttons_eq [OF assms(2)] rec cap
        wr task_consumer_send_eq producer_update_stats_eq [OF rl lens(2,3)] rings_def Let_def
        del: upt_rec_numeral)
qed

lemma down_bits_bit:
  "bit (down_bits g) 0 \<longleftrightarrow> is_down (s_btn_state g ! 0)"
  "bit (down_bits g) 1 \<longleftrightarrow> is_down (s_btn_state g ! 1)"
  "bit (down_bits g) (Suc 0) \<longleftrightarrow> is_down (s_btn_state g ! 1)"
  by (simp_all add: down_bits_def bit_or_iff bit_numeral_rec bit_1_iff)

definition data_ready :: consumer_msg_t where
  "data_ready = \<lparr>msg_id = CONSUMER_MSG_DATA_READY, msg_key = NUL\<rparr>"

text \<open>
  C31: One pass of the producer that was woken by the timer takes a sample with the next sequence
  number, whatever becomes of it. It is stored in the log exactly if the mutex was obtained in
  time, overwriting the oldest record of a full log; otherwise the log is unchanged and a drop is
  counted. The consumer's doorbell is rung exactly when a sample was stored in an empty log or an
  earlier ring is still owed, and a ring that finds the queue full stays owed. No access leaves
  its array.
\<close>

theorem producer_sample_correct:
  assumes "log_wf (b_log b)" "gpio_wf (b_gpio b)" "prod_wf p" "ulTaskNotifyTake env \<noteq> 0"
    and "b_queue b = Some q" "queue_laws len contents ops"
  shows "\<exists>p' b' q'. producer_sample ops w env (p, b) = Some (True, p', b') \<and> b_queue b' = Some q' \<and>
    prod_wf p' \<and> log_wf (b_log b') \<and>
    seq (p_record p') = seq (p_record p) + 1 \<and> capture_us (p_record p') = captured_at env \<and>
    raw_code (sensors (p_record p')) =
      map (\<lambda>i. xadc_drv_read_raw (adc_data env) (b_xadc b) (xadc_sensor_of i)) [0..<7] \<and>
    (bit (buttons (p_record p')) 0 \<longleftrightarrow> is_down (s_btn_state (b_gpio b) ! 0)) \<and>
    (bit (buttons (p_record p')) 1 \<longleftrightarrow> is_down (s_btn_state (b_gpio b) ! 1)) \<and>
    log_contents (b_log b') =
      (if stored env w then snd (ref_push (unat (capacity (s_ring (b_log b)))) (p_record p') (log_contents (b_log b)))
       else log_contents (b_log b)) \<and>
    log_write_drops (p_stats p') = log_write_drops (p_stats p) + (if stored env w then 0 else 1) \<and>
    contents q' = (if rings env w p b \<and> length (contents q) < len then contents q @ [data_ready] else contents q) \<and>
    (p_doorbell_pending p' \<longleftrightarrow> (if rings env w p b then len \<le> length (contents q) else p_doorbell_pending p))"
proof -
  let ?r = "sampled_record env p b"
  obtain st lwe where run: "producer_sample ops w env (p, b) = Some (True,
      \<lparr>p_stats = st, p_record = ?r, p_prev_capture_us = capture_us ?r, p_log_was_empty = lwe,
       p_doorbell_pending = (if rings env w p b
         then \<not> fst (xQueueSend ops \<lparr>msg_id = CONSUMER_MSG_DATA_READY, msg_key = NUL\<rparr> q)
         else p_doorbell_pending p)\<rparr>,
      b\<lparr>b_log := log_next env w ?r (b_log b),
        b_queue := Some (if rings env w p b
          then snd (xQueueSend ops \<lparr>msg_id = CONSUMER_MSG_DATA_READY, msg_key = NUL\<rparr> q) else q)\<rparr>)"
    and st: "log_write_drops st = log_write_drops (p_stats p) + (if stored env w then 0 else 1)"
      "length (raw_code (sensor_min st)) = 7" "length (raw_code (sensor_max st)) = 7"
    using producer_sample_eq [OF assms(1-5) refl, of ops w] assms(3)
    by (auto simp: stats_next_def prod_wf_def sampled_record_def simp del: upt_rec_numeral)
  note q = queue_lawsD(1,2) [OF assms(6)]
  show ?thesis
    unfolding run
    using st assms(1)
    by (simp add: prod_wf_def sampled_record_def log_next_wf log_next_contents down_bits_bit q data_ready_def not_less
        del: upt_rec_numeral)
qed

text \<open>The producer and the answers of the example.\<close>

definition demo_producer :: producer_state where
  "demo_producer = \<lparr>p_stats = producer_stats_start, p_record = zero_record, p_prev_capture_us = 0,
     p_log_was_empty = False, p_doorbell_pending = False\<rparr>"

definition demo_env :: "bool \<Rightarrow> producer_env" where
  "demo_env mutex = \<lparr>ulTaskNotifyTake = 1, captured_at = 100000, adc_data = (\<lambda>_. 0x5550),
     write_started_at = 100040, write_env = \<lparr>xSemaphoreTake = (\<lambda>_. mutex), locked_at = 100041, unlocking_at = 100050\<rparr>,
     write_ended_at = 100055, checkin_tick = 100\<rparr>"

lemma producer_sample_correct_witness:
  "\<exists>p' b' q'. producer_sample (list_queue 16) 20 (demo_env True) (demo_producer, demo_board) = Some (True, p', b') \<and>
     b_queue b' = Some q' \<and> q' = [data_ready] \<and> seq (p_record p') = 1 \<and> log_contents (b_log b') = [p_record p']"
proof -
  have b: "log_wf (b_log demo_board)" "log_contents (b_log demo_board) = []" "gpio_wf (b_gpio demo_board)"
      "prod_wf demo_producer" "b_queue demo_board = Some []" "stored (demo_env True) 20"
    using ring_init_cases [OF ring_init_2]
    by (simp_all add: demo_board_def demo_log_def log_wf_def log_contents_def gpio_idle_def gpio_wf_def
        GPIO_DRV_DEBOUNCE_SCANS_def demo_producer_def prod_wf_def zero_record_def zero_sample_def
        producer_stats_start_def stored_def demo_env_def)
  have e: "ulTaskNotifyTake (demo_env True) \<noteq> 0" by (simp add: demo_env_def)
  have "rings (demo_env True) 20 demo_producer demo_board" by (simp add: rings_def b)
  with b show ?thesis
    using producer_sample_correct [OF b(1,3,4) e b(5) list_queue_laws [of 16], of 20]
    by (auto simp: ref_push_def demo_producer_def zero_record_def demo_board_def demo_log_def ring_empty2_def
        simp del: upt_rec_numeral)
qed

end
