(* ===== verification/Ui.thy ===== *)
theory Ui
  imports Messages
begin

text \<open>
  \<open>tasks/task_ui.c\<close>: button presses and terminal keys become messages to the consumer. The
  module's counter of dropped messages is a \<open>u32\<close>. One pass of the task's loop is given the pin
  levels the scan reads and, for each poll of the receiver, the three register readings; it is
  \<open>None\<close> if the readings end while characters still arrive. A turn of the loop is the delay, with
  \<open>vTaskDelayUntil\<close> a parameter, and a pass.
\<close>

section \<open>The code\<close>

definition ui_send ::
  "'q rtos_queue \<Rightarrow> consumer_msg_id_t \<Rightarrow> char \<Rightarrow> u32 \<times> 'q option \<Rightarrow> u32 \<times> 'q option" where
  "ui_send ops i key dq =
     (let (s_dropped_msgs, q) = dq; (ok, q) = task_consumer_send ops i key q
      in (if \<not> ok then s_dropped_msgs + 1 else s_dropped_msgs, q))"

definition ui_handle_key :: "'q rtos_queue \<Rightarrow> char \<Rightarrow> u32 \<times> 'q option \<Rightarrow> u32 \<times> 'q option" where
  "ui_handle_key ops key dq =
     (if key \<in> {CHR ''r'', CHR ''R''} then ui_send ops CONSUMER_MSG_REPORT key dq
      else if key \<in> {CHR ''s'', CHR ''S''} then ui_send ops CONSUMER_MSG_STREAM_TOGGLE key dq
      else if key \<in> {CHR ''f'', CHR ''F''} then ui_send ops CONSUMER_MSG_RATE_TOGGLE key dq
      else if key \<in> {CHR ''p'', CHR ''P''} then ui_send ops CONSUMER_MSG_PAUSE_TOGGLE key dq
      else if key \<in> {CHR ''t'', CHR ''T''} then ui_send ops CONSUMER_MSG_PRINT_NEWEST key dq
      else if key \<in> {CHR ''d'', CHR ''D''} then ui_send ops CONSUMER_MSG_STATS key dq
      else if key \<in> {CHR ''h'', CHR ''H'', CHR ''?''} then ui_send ops CONSUMER_MSG_HELP key dq
      else if key \<in> {CHR ''1'', CHR ''2'', CHR ''3'', CHR ''4''} then ui_send ops CONSUMER_MSG_WDT_TEST key dq
      else if key \<in> {CR, LF, CHR '' ''} then dq
      else if 32 \<le> (of_char key :: nat) \<and> (of_char key :: nat) \<le> 126
      then ui_send ops CONSUMER_MSG_UNKNOWN_KEY key dq
      else dq)"

text \<open>One poll of the receiver: interrupt status, whether there is a byte, and the byte.\<close>

record rx_poll =
  rx_isr :: u32
  rx_has_data :: bool
  rx_fifo :: char

fun ui_receive ::
  "'q rtos_queue \<Rightarrow> uart_bits \<Rightarrow> rx_poll list \<Rightarrow> char \<Rightarrow> uart_state \<Rightarrow> u32 \<times> 'q option
     \<Rightarrow> (uart_state \<times> u32 \<times> 'q option) option" where
  "ui_receive ops bits [] rx_char u dq = None"
| "ui_receive ops bits (x # xs) rx_char u dq =
     (case uart_drv_try_get_char bits (rx_isr x) (rx_has_data x) (rx_fifo x) (Some rx_char) u of
        (True, Some rx_char, u) \<Rightarrow> ui_receive ops bits xs rx_char u (ui_handle_key ops rx_char dq)
      | (_, _, u) \<Rightarrow> Some (u, dq))"

text \<open>One pass up to the check-in, and with it.\<close>

definition ui_poll ::
  "'q rtos_queue \<Rightarrow> uart_bits \<Rightarrow> (u32 \<Rightarrow> u32) \<Rightarrow> rx_poll list \<Rightarrow> char \<Rightarrow> u32 \<times> 'q board \<Rightarrow> (u32 \<times> 'q board) option" where
  "ui_poll ops bits pins polls rx_char db = do {
     let (s_dropped_msgs, b) = db;
     g \<leftarrow> gpio_drv_btn_scan pins (b_gpio b);
     (press, g) \<leftarrow> gpio_drv_btn_take_press GPIO_BTN4 g;
     let dq = (s_dropped_msgs, b_queue b);
     let dq = (if press then ui_send ops CONSUMER_MSG_REPORT NUL dq else dq);
     (press, g) \<leftarrow> gpio_drv_btn_take_press GPIO_BTN5 g;
     let dq = (if press then ui_send ops CONSUMER_MSG_STREAM_TOGGLE NUL dq else dq);
     (u, d, q) \<leftarrow> ui_receive ops bits polls rx_char (b_uart b) dq;
     Some (d, b\<lparr>b_gpio := g, b_uart := u, b_queue := q\<rparr>)
   }"

definition ui_pass ::
  "'q rtos_queue \<Rightarrow> uart_bits \<Rightarrow> (u32 \<Rightarrow> u32) \<Rightarrow> rx_poll list \<Rightarrow> char \<Rightarrow> u32 \<Rightarrow> u32 \<times> 'q board \<Rightarrow> (u32 \<times> 'q board) option" where
  "ui_pass ops bits pins polls rx_char now_tick db = do {
     (d, b) \<leftarrow> ui_poll ops bits pins polls rx_char db;
     w \<leftarrow> task_watchdog_checkin now_tick WDOG_CLIENT_UI (b_wdog b);
     Some (d, b\<lparr>b_wdog := w\<rparr>)
   }"

text \<open>What the task does before its loop with the tick count it reads, and one turn with its delay.\<close>

definition ui_task_begin :: "u32 \<Rightarrow> u32 \<times> 'q board \<Rightarrow> u32 \<times> u32 \<times> 'q board" where
  "ui_task_begin now_tick db = (now_tick, db)"

record ui_input =
  i_pins :: "u32 \<Rightarrow> u32"
  i_polls :: "rx_poll list"
  i_now_tick :: u32

definition ui_task_turn ::
  "(u32 \<Rightarrow> u32 \<Rightarrow> u32) \<Rightarrow> (u32 \<Rightarrow> u32) \<Rightarrow> 'q rtos_queue \<Rightarrow> uart_bits \<Rightarrow> char \<Rightarrow> ui_input \<Rightarrow> u32 \<times> u32 \<times> 'q board
     \<Rightarrow> (u32 \<times> u32 \<times> 'q board) option" where
  "ui_task_turn vTaskDelayUntil pdMS_TO_TICKS ops bits rx_char inp st = do {
     let scan_period = pdMS_TO_TICKS APP_UI_SCAN_PERIOD_MS;
     let (last_wake, db) = st;
     let last_wake = vTaskDelayUntil last_wake scan_period;
     db \<leftarrow> ui_pass ops bits (i_pins inp) (i_polls inp) rx_char (i_now_tick inp) db;
     Some (last_wake, db)
   }"

fun ui_task_turns ::
  "(u32 \<Rightarrow> u32 \<Rightarrow> u32) \<Rightarrow> (u32 \<Rightarrow> u32) \<Rightarrow> 'q rtos_queue \<Rightarrow> uart_bits \<Rightarrow> char \<Rightarrow> ui_input list \<Rightarrow> u32 \<times> u32 \<times> 'q board
     \<Rightarrow> (u32 \<times> u32 \<times> 'q board) option" where
  "ui_task_turns delay f ops bits rx_char [] st = Some st"
| "ui_task_turns delay f ops bits rx_char (inp # inps) st =
     do { st \<leftarrow> ui_task_turn delay f ops bits rx_char inp st; ui_task_turns delay f ops bits rx_char inps st }"

definition task_ui_dropped_msgs :: "u32 \<Rightarrow> u32" where
  "task_ui_dropped_msgs s_dropped_msgs = s_dropped_msgs"

section \<open>What is sent\<close>

text \<open>The message a key stands for, if any.\<close>

definition key_id :: "char \<Rightarrow> consumer_msg_id_t option" where
  "key_id key =
     (case map_of
        (map (\<lambda>(ks, i). (hd ks, i))
          [(''r'', CONSUMER_MSG_REPORT), (''R'', CONSUMER_MSG_REPORT),
           (''s'', CONSUMER_MSG_STREAM_TOGGLE), (''S'', CONSUMER_MSG_STREAM_TOGGLE),
           (''f'', CONSUMER_MSG_RATE_TOGGLE), (''F'', CONSUMER_MSG_RATE_TOGGLE),
           (''p'', CONSUMER_MSG_PAUSE_TOGGLE), (''P'', CONSUMER_MSG_PAUSE_TOGGLE),
           (''t'', CONSUMER_MSG_PRINT_NEWEST), (''T'', CONSUMER_MSG_PRINT_NEWEST),
           (''d'', CONSUMER_MSG_STATS), (''D'', CONSUMER_MSG_STATS),
           (''h'', CONSUMER_MSG_HELP), (''H'', CONSUMER_MSG_HELP), (''?'', CONSUMER_MSG_HELP),
           (''1'', CONSUMER_MSG_WDT_TEST), (''2'', CONSUMER_MSG_WDT_TEST),
           (''3'', CONSUMER_MSG_WDT_TEST), (''4'', CONSUMER_MSG_WDT_TEST)]) key of
        Some i \<Rightarrow> Some i
      | None \<Rightarrow> if 32 < (of_char key :: nat) \<and> (of_char key :: nat) < 127 then Some CONSUMER_MSG_UNKNOWN_KEY else None)"

definition key_msgs :: "char \<Rightarrow> consumer_msg_t list" where
  "key_msgs key = (case key_id key of None \<Rightarrow> [] | Some i \<Rightarrow> [\<lparr>msg_id = i, msg_key = key\<rparr>])"

definition send_msg :: "'q rtos_queue \<Rightarrow> consumer_msg_t \<Rightarrow> u32 \<times> 'q option \<Rightarrow> u32 \<times> 'q option" where
  "send_msg ops m = ui_send ops (msg_id m) (msg_key m)"

lemma of_char_space: "(of_char key :: nat) = 32 \<longleftrightarrow> key = CHR '' ''"
proof -
  have "(of_char CHR '' '' :: nat) = 32" by simp
  then show ?thesis by (metis of_char_eq_iff)
qed

lemma ui_handle_key_eq: "ui_handle_key ops key dq = fold (send_msg ops) (key_msgs key) dq"
proof -
  have "32 \<le> (of_char key :: nat) \<longleftrightarrow> 32 < (of_char key :: nat) \<or> key = CHR '' ''"
    using of_char_space [of key] by (auto simp: le_less)
  then show ?thesis
    by (auto simp: ui_handle_key_def key_msgs_def key_id_def send_msg_def CR_def LF_def)
qed

lemma send_msg_eq:
  assumes "queue_laws len contents ops"
  shows "\<exists>q'. send_msg ops m (d, Some q) = (d + (if length (contents q) < len then 0 else 1), Some q') \<and>
    contents q' = (if length (contents q) < len then contents q @ [m] else contents q)"
proof -
  have m: "\<lparr>msg_id = msg_id m, msg_key = msg_key m\<rparr> = m" by simp
  show ?thesis
    using queue_lawsD(1,2) [OF assms, of m q]
    by (simp add: send_msg_def ui_send_def task_consumer_send_eq m)
qed

text \<open>Sending a list of messages: what fits is queued, in order, and the rest is counted.\<close>

lemma send_all_msgs:
  assumes "queue_laws len contents ops"
  shows "\<exists>q'. fold (send_msg ops) ms (d, Some q) =
      (d + of_nat (length ms - (len - length (contents q))), Some q') \<and>
    contents q' = contents q @ take (len - length (contents q)) ms"
proof (induction ms arbitrary: d q)
  case Nil
  then show ?case by simp
next
  case (Cons m ms)
  obtain q1 where q1: "send_msg ops m (d, Some q) = (d + (if length (contents q) < len then 0 else 1), Some q1)"
      "contents q1 = (if length (contents q) < len then contents q @ [m] else contents q)"
    using send_msg_eq [OF assms] by blast
  obtain q2 where q2: "fold (send_msg ops) ms (d + (if length (contents q) < len then 0 else 1), Some q1) =
      (d + (if length (contents q) < len then 0 else 1) + of_nat (length ms - (len - length (contents q1))), Some q2)"
      "contents q2 = contents q1 @ take (len - length (contents q1)) ms"
    using Cons.IH by blast
  show ?case
  proof (cases "length (contents q) < len")
    case True
    then obtain k where k: "len = Suc (length (contents q) + k)" using less_imp_Suc_add by blast
    with True q1 q2 show ?thesis by simp
  next
    case False
    then have "len - length (contents q) = 0" by simp
    with False q1 q2 show ?thesis by simp
  qed
qed

definition received :: "rx_poll list \<Rightarrow> string" where
  "received polls = map rx_fifo (takeWhile rx_has_data polls)"

lemma try_get_char_ready:
  assumes "s_uart_ready u"
  shows "\<exists>u'. uart_drv_try_get_char bits isr has fifo (Some ch) u = (has, Some (if has then fifo else ch), u') \<and>
    s_uart_ready u'"
proof -
  have "s_uart_ready (uart_collect_line_errors bits isr u)"
    using assms by (simp add: uart_collect_line_errors_def uart_call_def Let_def)
  with assms show ?thesis by (simp add: uart_drv_try_get_char_def Let_def)
qed

lemma ui_receive_eq:
  assumes "s_uart_ready u" "\<exists>x\<in>set polls. \<not> rx_has_data x"
  shows "\<exists>u'. ui_receive ops bits polls ch u dq =
    Some (u', fold (send_msg ops) (concat (map key_msgs (received polls))) dq) \<and> s_uart_ready u'"
  using assms
proof (induction polls arbitrary: ch u dq)
  case Nil
  then show ?case by simp
next
  case (Cons x polls)
  obtain u1 where u1: "uart_drv_try_get_char bits (rx_isr x) (rx_has_data x) (rx_fifo x) (Some ch) u =
      (rx_has_data x, Some (if rx_has_data x then rx_fifo x else ch), u1)" "s_uart_ready u1"
    using try_get_char_ready [OF Cons.prems(1)] by metis
  show ?case
  proof (cases "rx_has_data x")
    case True
    then have "\<exists>y\<in>set polls. \<not> rx_has_data y" using Cons.prems(2) by auto
    from Cons.IH [OF u1(2) this, of "rx_fifo x" "ui_handle_key ops (rx_fifo x) dq"]
    show ?thesis using True u1(1) by (simp add: received_def ui_handle_key_eq)
  next
    case False
    then show ?thesis using u1 by (simp add: received_def)
  qed
qed

text \<open>The messages of one pass: the presses this scan completes, then the keys.\<close>

definition pressed :: "(u32 \<Rightarrow> u32) \<Rightarrow> gpio_state \<Rightarrow> nat \<Rightarrow> bool" where
  "pressed pins g i = press_latched (debounce (raw_level i pins) (s_btn_state g ! i))"

definition pass_msgs :: "(u32 \<Rightarrow> u32) \<Rightarrow> rx_poll list \<Rightarrow> gpio_state \<Rightarrow> consumer_msg_t list" where
  "pass_msgs pins polls g =
     (if pressed pins g 0 then [\<lparr>msg_id = CONSUMER_MSG_REPORT, msg_key = NUL\<rparr>] else []) @
     (if pressed pins g 1 then [\<lparr>msg_id = CONSUMER_MSG_STREAM_TOGGLE, msg_key = NUL\<rparr>] else []) @
     concat (map key_msgs (received polls))"

lemma take_next_length [simp]: "length (s_btn_state (take_next btn g)) = length (s_btn_state g)"
  by (simp add: take_next_def Let_def)

lemma take_next_wf: "gpio_wf g \<Longrightarrow> btn \<noteq> GPIO_BTN_COUNT \<Longrightarrow> gpio_wf (take_next btn g)"
  using btn_index_less [of btn]
  by (auto simp: gpio_wf_def take_next_def Let_def dest!: set_update_subset_insert [THEN subsetD])

lemma ui_poll_eq:
  assumes "gpio_wf (b_gpio b)" "s_gpio_ready (b_gpio b)" "s_uart_ready (b_uart b)"
    and "\<exists>x\<in>set polls. \<not> rx_has_data x"
  shows "\<exists>d' q' g' u'. ui_poll ops bits pins polls ch (d, b) =
      Some (d', b\<lparr>b_gpio := g', b_uart := u', b_queue := q'\<rparr>) \<and> gpio_wf g' \<and> s_gpio_ready g' \<and> s_uart_ready u' \<and>
    (d', q') = fold (send_msg ops) (pass_msgs pins polls (b_gpio b)) (d, b_queue b)"
proof -
  let ?g = "scan_next pins (b_gpio b)"
  let ?dq1 = "if pressed pins (b_gpio b) 0 then ui_send ops CONSUMER_MSG_REPORT NUL (d, b_queue b) else (d, b_queue b)"
  let ?dq = "if pressed pins (b_gpio b) 1 then ui_send ops CONSUMER_MSG_STREAM_TOGGLE NUL ?dq1 else ?dq1"
  have len: "length (s_btn_state (b_gpio b)) = 2" using assms(1) by (rule gpio_wf_length)
  obtain u' where u': "ui_receive ops bits polls ch (b_uart b) ?dq =
      Some (u', fold (send_msg ops) (concat (map key_msgs (received polls))) ?dq)" "s_uart_ready u'"
    using ui_receive_eq [OF assms(3,4)] by blast
  have wf: "gpio_wf (take_next GPIO_BTN5 (take_next GPIO_BTN4 ?g))"
    using assms(1) by (intro take_next_wf scan_next_wf) simp_all
  have ready: "s_gpio_ready (take_next GPIO_BTN5 (take_next GPIO_BTN4 ?g))"
    using assms(2) by (simp add: take_next_def Let_def)
  have p4: "press_latched (s_btn_state ?g ! 0) = pressed pins (b_gpio b) 0"
    by (simp add: pressed_def scan_next_btn)
  have p5: "press_latched (s_btn_state (take_next GPIO_BTN4 ?g) ! 1) = pressed pins (b_gpio b) 1"
    by (simp add: pressed_def take_next_def Let_def scan_next_btn)
  have fold: "fold (send_msg ops) (pass_msgs pins polls (b_gpio b)) (d, b_queue b) =
      fold (send_msg ops) (concat (map key_msgs (received polls))) ?dq"
    by (simp add: pass_msgs_def send_msg_def)
  obtain d' q' where dq: "fold (send_msg ops) (concat (map key_msgs (received polls))) ?dq = (d', q')" by fastforce
  have "ui_poll ops bits pins polls ch (d, b) = Some (d', b\<lparr>b_gpio := take_next GPIO_BTN5 (take_next GPIO_BTN4 ?g),
      b_uart := u', b_queue := q'\<rparr>)"
    using u'(1) p4 p5 dq
    by (cases "pressed pins (b_gpio b) 0"; cases "pressed pins (b_gpio b) 1")
       (simp_all add: ui_poll_def gpio_drv_btn_scan_eq assms(2) len take_press_eq Let_def)
  moreover have "(d', q') = fold (send_msg ops) (pass_msgs pins polls (b_gpio b)) (d, b_queue b)"
    by (simp only: fold dq)
  ultimately show ?thesis using wf ready u'(2) by blast
qed

section \<open>The loop\<close>

definition ui_ok :: "'q board \<Rightarrow> bool" where
  "ui_ok b \<longleftrightarrow> gpio_wf (b_gpio b) \<and> s_gpio_ready (b_gpio b) \<and> s_uart_ready (b_uart b) \<and> wdog_wf (b_wdog b) \<and>
     \<not> hangs WDOG_CLIENT_UI (b_wdog b)"

lemma ui_task_turn_returns:
  assumes "delay_law delay" "ui_ok b" "\<exists>x\<in>set (i_polls inp). \<not> rx_has_data x"
  obtains d' b' where "ui_task_turn delay f ops bits ch inp (lw, d, b) = Some (lw + f APP_UI_SCAN_PERIOD_MS, d', b')" "ui_ok b'"
proof -
  obtain d' g' u' q' where run: "ui_poll ops bits (i_pins inp) (i_polls inp) ch (d, b) =
      Some (d', b\<lparr>b_gpio := g', b_uart := u', b_queue := q'\<rparr>)" "gpio_wf g'" "s_gpio_ready g'" "s_uart_ready u'"
    using ui_poll_eq [of b "i_polls inp" ops bits "i_pins inp" ch d] assms(2,3) by (auto simp: ui_ok_def)
  have wf: "wdog_wf (b_wdog b)" and runs: "\<not> hangs WDOG_CLIENT_UI (b_wdog b)" using assms(2) by (simp_all add: ui_ok_def)
  define w where "w = client_update WDOG_CLIENT_UI (\<lambda>st. st\<lparr>last_checkin_tick := i_now_tick inp\<rparr>) (b_wdog b)"
  have w: "task_watchdog_checkin (i_now_tick inp) WDOG_CLIENT_UI (b_wdog b) = Some w"
    using checkin_eq [OF wf, of WDOG_CLIENT_UI "i_now_tick inp"] runs by (simp add: w_def)
  have "\<not> hangs WDOG_CLIENT_UI w" using runs wf by (simp add: w_def client_update_def wdog_wf_def)
  then have ok: "ui_ok (b\<lparr>b_gpio := g', b_uart := u', b_queue := q', b_wdog := w\<rparr>)"
    using run(2-4) checkin_wf [OF wf _ w] by (simp add: ui_ok_def)
  have "ui_task_turn delay f ops bits ch inp (lw, d, b) = Some (lw + f APP_UI_SCAN_PERIOD_MS, d',
      b\<lparr>b_gpio := g', b_uart := u', b_queue := q', b_wdog := w\<rparr>)"
    using assms(1) run(1) w by (simp add: ui_task_turn_def ui_pass_def delay_law_def Let_def)
  then show ?thesis using ok by (rule that)
qed

text \<open>
  The scans keep their pace: the wake time of the n-th turn is the start plus n periods, however
  long the turns took, and no turn gets stuck as long as the receiver runs empty in each and no hang
  was injected.
\<close>

lemma ui_scans_do_not_drift:
  assumes "delay_law delay" "ui_ok b" "\<forall>inp\<in>set inps. \<exists>x\<in>set (i_polls inp). \<not> rx_has_data x"
  shows "\<exists>d' b'. ui_task_turns delay f ops bits ch inps (ui_task_begin now (d, b)) =
      Some (now + of_nat (length inps) * f APP_UI_SCAN_PERIOD_MS, d', b') \<and> ui_ok b'"
  unfolding ui_task_begin_def using assms(2,3)
proof (induction inps arbitrary: now d b)
  case Nil
  then show ?case by simp
next
  case (Cons inp inps)
  obtain d1 b1 where "ui_task_turn delay f ops bits ch inp (now, d, b) = Some (now + f APP_UI_SCAN_PERIOD_MS, d1, b1)" "ui_ok b1"
    using ui_task_turn_returns [OF assms(1) Cons.prems(1)] Cons.prems(2) by (metis list.set_intros(1))
  then show ?case using Cons.IH [of b1 "now + f APP_UI_SCAN_PERIOD_MS" d1] Cons.prems(2)
    by (simp add: algebra_simps)
qed

section \<open>Properties\<close>

text \<open>
  C33: One pass of the UI task asks the consumer, in order, for a report and a stream toggle if
  the scan completes a press of BTN4 and of BTN5, and then for what each received key stands
  for, upper case as lower case, Enter and space ignored. Of these messages the ones that fit
  the queue are queued, in order and after what waits there already, and every other one is
  counted as dropped; the pass ends once the receiver is empty and never waits for the consumer.
\<close>

theorem ui_pass_messages:
  assumes "gpio_wf (b_gpio b)" "s_gpio_ready (b_gpio b)" "s_uart_ready (b_uart b)"
    and "\<exists>x\<in>set polls. \<not> rx_has_data x" "queue_laws len contents ops" "b_queue b = Some q"
    and "msgs = pass_msgs pins polls (b_gpio b)"
  shows "\<exists>d' b' q'. ui_poll ops bits pins polls ch (d, b) = Some (d', b') \<and> b_queue b' = Some q' \<and>
    contents q' = contents q @ take (len - length (contents q)) msgs \<and>
    d' = d + of_nat (length msgs - (len - length (contents q))) \<and>
    gpio_wf (b_gpio b') \<and> b_log b' = b_log b \<and> b_wdog b' = b_wdog b"
proof -
  obtain d' q0 g' u' where
    run: "ui_poll ops bits pins polls ch (d, b) = Some (d', b\<lparr>b_gpio := g', b_uart := u', b_queue := q0\<rparr>)"
      "gpio_wf g'" "(d', q0) = fold (send_msg ops) msgs (d, Some q)"
    using ui_poll_eq [OF assms(1-4), of ops bits pins ch d] assms(6,7) by auto
  obtain q' where "fold (send_msg ops) msgs (d, Some q) =
      (d + of_nat (length msgs - (len - length (contents q))), Some q')"
      "contents q' = contents q @ take (len - length (contents q)) msgs"
    using send_all_msgs [OF assms(5)] by blast
  with run show ?thesis by simp
qed

definition demo_polls :: "rx_poll list" where
  "demo_polls = [\<lparr>rx_isr = 0, rx_has_data = True, rx_fifo = CHR ''d''\<rparr>, \<lparr>rx_isr = 0, rx_has_data = True, rx_fifo = CR\<rparr>,
      \<lparr>rx_isr = 0, rx_has_data = True, rx_fifo = CHR ''x''\<rparr>, \<lparr>rx_isr = 0, rx_has_data = True, rx_fifo = CHR ''P''\<rparr>,
      \<lparr>rx_isr = 0, rx_has_data = False, rx_fifo = NUL\<rparr>]"

lemma ui_pass_messages_witness:
  "\<exists>d' b' q'. ui_poll (list_queue 2) demo_bits (\<lambda>_. 0) demo_polls NUL (0, demo_board) = Some (d', b') \<and>
   b_queue b' = Some q' \<and> d' = 1 \<and>
   q' = [\<lparr>msg_id = CONSUMER_MSG_STATS, msg_key = CHR ''d''\<rparr>, \<lparr>msg_id = CONSUMER_MSG_UNKNOWN_KEY, msg_key = CHR ''x''\<rparr>]"
proof -
  have keys: "key_msgs CHR ''d'' = [\<lparr>msg_id = CONSUMER_MSG_STATS, msg_key = CHR ''d''\<rparr>]" "key_msgs CR = []"
      "key_msgs CHR ''x'' = [\<lparr>msg_id = CONSUMER_MSG_UNKNOWN_KEY, msg_key = CHR ''x''\<rparr>]"
      "key_msgs CHR ''P'' = [\<lparr>msg_id = CONSUMER_MSG_PAUSE_TOGGLE, msg_key = CHR ''P''\<rparr>]"
    by (simp_all add: key_msgs_def key_id_def CR_def)
  have "pass_msgs (\<lambda>_. 0) demo_polls gpio_idle =
      [\<lparr>msg_id = CONSUMER_MSG_STATS, msg_key = CHR ''d''\<rparr>, \<lparr>msg_id = CONSUMER_MSG_UNKNOWN_KEY, msg_key = CHR ''x''\<rparr>,
       \<lparr>msg_id = CONSUMER_MSG_PAUSE_TOGGLE, msg_key = CHR ''P''\<rparr>]"
    by (simp add: pass_msgs_def received_def keys pressed_def debounce_def raw_level_def gpio_idle_def demo_polls_def)
  moreover have "\<exists>x\<in>set demo_polls. \<not> rx_has_data x" by (simp add: demo_polls_def)
  ultimately show ?thesis
    using ui_pass_messages [where b = demo_board and polls = demo_polls and ops = "list_queue 2" and len = 2
        and contents = "\<lambda>q. q" and q = "[]" and pins = "\<lambda>_. 0" and bits = demo_bits and ch = NUL and d = 0,
        OF _ _ _ _ list_queue_laws _ refl]
    by auto
qed

end
