(* ===== verification/Reset_Cause.thy ===== *)
theory Reset_Cause
  imports Slcr
begin

text \<open>
  \<open>system/reset_cause.c\<close>: why the board last reset. The module's static variable is the state;
  the hardware is threaded as in theory \<open>Slcr\<close>.
\<close>

section \<open>The code\<close>

datatype reset_cause_t =
    RESET_CAUSE_UNKNOWN | RESET_CAUSE_POWER_ON | RESET_CAUSE_SWDT | RESET_CAUSE_CPU_WDT
  | RESET_CAUSE_PS_SRST | RESET_CAUSE_DEBUG | RESET_CAUSE_SOFTWARE

definition REBOOT_SWDT_RST :: u32 where "REBOOT_SWDT_RST = push_bit 16 1"
definition REBOOT_AWDT0_RST :: u32 where "REBOOT_AWDT0_RST = push_bit 17 1"
definition REBOOT_AWDT1_RST :: u32 where "REBOOT_AWDT1_RST = push_bit 18 1"
definition REBOOT_SLC_RST :: u32 where "REBOOT_SLC_RST = push_bit 19 1"
definition REBOOT_DBG_RST :: u32 where "REBOOT_DBG_RST = push_bit 20 1"
definition REBOOT_SRST_B :: u32 where "REBOOT_SRST_B = push_bit 21 1"
definition REBOOT_POR :: u32 where "REBOOT_POR = push_bit 22 1"
definition REBOOT_REASON_MASK :: u32 where "REBOOT_REASON_MASK = 0x007F0000"

text \<open>The cause, the new value of \<open>s_cause\<close>, and the hardware afterwards.\<close>

definition reset_cause_capture ::
  "'h slcr_io \<Rightarrow> reset_cause_t \<Rightarrow> 'h \<Rightarrow> reset_cause_t \<times> reset_cause_t \<times> 'h" where
  "reset_cause_capture io s_cause h =
     (let status = slcr_read io SLCR_REBOOT_STATUS_OFFSET h;
          s_cause =
            (if status AND REBOOT_SWDT_RST \<noteq> 0 then RESET_CAUSE_SWDT
             else if status AND (REBOOT_AWDT0_RST OR REBOOT_AWDT1_RST) \<noteq> 0 then RESET_CAUSE_CPU_WDT
             else if status AND REBOOT_POR \<noteq> 0 then RESET_CAUSE_POWER_ON
             else if status AND REBOOT_SRST_B \<noteq> 0 then RESET_CAUSE_PS_SRST
             else if status AND REBOOT_DBG_RST \<noteq> 0 then RESET_CAUSE_DEBUG
             else if status AND REBOOT_SLC_RST \<noteq> 0 then RESET_CAUSE_SOFTWARE
             else RESET_CAUSE_UNKNOWN);
          h = slcr_modify io SLCR_REBOOT_STATUS_OFFSET REBOOT_REASON_MASK 0 h
      in (s_cause, s_cause, h))"

definition reset_cause_get :: "reset_cause_t \<Rightarrow> reset_cause_t" where
  "reset_cause_get s_cause = s_cause"

fun reset_cause_name :: "reset_cause_t \<Rightarrow> string" where
  "reset_cause_name RESET_CAUSE_POWER_ON = ''power-on''"
| "reset_cause_name RESET_CAUSE_SWDT = ''WATCHDOG (SWDT)''"
| "reset_cause_name RESET_CAUSE_CPU_WDT = ''CPU private watchdog''"
| "reset_cause_name RESET_CAUSE_PS_SRST = ''PS reset button''"
| "reset_cause_name RESET_CAUSE_DEBUG = ''debugger''"
| "reset_cause_name RESET_CAUSE_SOFTWARE = ''software (SLCR)''"
| "reset_cause_name RESET_CAUSE_UNKNOWN = ''unknown''"

section \<open>Which bit gives which cause\<close>

text \<open>The reason bits of the register, by their number, from 16 to 22.\<close>

fun cause_of_bit :: "nat \<Rightarrow> reset_cause_t" where
  "cause_of_bit n =
     (if n = 16 then RESET_CAUSE_SWDT else if n = 17 \<or> n = 18 then RESET_CAUSE_CPU_WDT
      else if n = 19 then RESET_CAUSE_SOFTWARE else if n = 20 then RESET_CAUSE_DEBUG
      else if n = 21 then RESET_CAUSE_PS_SRST else if n = 22 then RESET_CAUSE_POWER_ON
      else RESET_CAUSE_UNKNOWN)"

lemma and_bit_iff: "w AND push_bit n 1 \<noteq> 0 \<longleftrightarrow> bit w n" for w :: u32
  by (simp add: push_bit_of_1 and_exp_eq_0_iff_not_bit)

lemma and_two_bits_iff: "w AND (push_bit n 1 OR push_bit m 1) \<noteq> 0 \<longleftrightarrow> bit w n \<or> bit w m" for w :: u32
proof -
  have "a OR b = 0 \<longleftrightarrow> a = 0 \<and> b = 0" for a b :: u32
    by (auto simp: bit_eq_iff bit_or_iff)
  then show ?thesis by (simp only: bit.conj_disj_distrib de_Morgan_conj and_bit_iff)
qed

lemma captured_cause:
  "fst (reset_cause_capture io s h) =
     (let b = bit (slcr_read io SLCR_REBOOT_STATUS_OFFSET h)
      in if b 16 then RESET_CAUSE_SWDT else if b 17 \<or> b 18 then RESET_CAUSE_CPU_WDT
         else if b 22 then RESET_CAUSE_POWER_ON else if b 21 then RESET_CAUSE_PS_SRST
         else if b 20 then RESET_CAUSE_DEBUG else if b 19 then RESET_CAUSE_SOFTWARE
         else RESET_CAUSE_UNKNOWN)"
  unfolding reset_cause_capture_def REBOOT_SWDT_RST_def REBOOT_AWDT0_RST_def REBOOT_AWDT1_RST_def
    REBOOT_SLC_RST_def REBOOT_DBG_RST_def REBOOT_SRST_B_def REBOOT_POR_def and_bit_iff
    and_two_bits_iff Let_def fst_conv ..

lemma bit_reason_mask: "bit REBOOT_REASON_MASK n \<longleftrightarrow> 16 \<le> n \<and> n \<le> 22"
proof -
  have "REBOOT_REASON_MASK = push_bit 16 (mask 7)"
    by (simp add: REBOOT_REASON_MASK_def push_bit_eq_mult mask_eq_exp_minus_1)
  then have "bit REBOOT_REASON_MASK n = bit (push_bit 16 (mask 7) :: u32) n" by (rule arg_cong)
  also have "\<dots> \<longleftrightarrow> 16 \<le> n \<and> n \<le> 22" by (auto simp: bit_push_bit_iff bit_mask_iff)
  finally show ?thesis .
qed

section \<open>Properties\<close>

text \<open>The bits by the rank the code gives them: the watchdogs first.\<close>

definition cause_ranking :: "nat list" where
  "cause_ranking = [16, 17, 18, 22, 21, 20, 19]"

definition ranked_cause :: "(nat \<Rightarrow> bool) \<Rightarrow> reset_cause_t" where
  "ranked_cause b = (case List.find b cause_ranking of None \<Rightarrow> RESET_CAUSE_UNKNOWN | Some n \<Rightarrow> cause_of_bit n)"

lemma captured_ranked:
  "fst (reset_cause_capture io s h) = ranked_cause (bit (slcr_read io SLCR_REBOOT_STATUS_OFFSET h))"
  unfolding captured_cause by (simp add: ranked_cause_def cause_ranking_def Let_def)

lemma ranked_cause_single: "{i \<in> {16..22}. b i} = {n} \<Longrightarrow> ranked_cause b = cause_of_bit n"
proof -
  assume b: "{i \<in> {16..22}. b i} = {n}"
  then have "n \<in> {16..22}" "\<And>i. i \<in> {16..22} \<Longrightarrow> b i = (i = n)" by blast+
  then show ?thesis by (simp add: ranked_cause_def cause_ranking_def)
qed

lemma reason_bits: "n \<in> {16..22} \<longleftrightarrow> n \<in> set cause_ranking"
proof -
  have "n \<in> {16..22} \<longleftrightarrow> n = 16 \<or> n = 17 \<or> n = 18 \<or> n = 22 \<or> n = 21 \<or> n = 20 \<or> n = 19"
    unfolding atLeastAtMost_iff by presburger
  then show ?thesis by (simp add: cause_ranking_def)
qed

lemma ranked_cause_in:
  assumes "List.find b cause_ranking = Some n"
  shows "n \<in> {16..22}" "b n" "ranked_cause b = cause_of_bit n" "ranked_cause b \<noteq> RESET_CAUSE_UNKNOWN"
proof -
  show n: "n \<in> {16..22}" "b n" using assms unfolding reason_bits find_Some_iff by auto
  show c: "ranked_cause b = cause_of_bit n" using assms by (simp add: ranked_cause_def)
  show "ranked_cause b \<noteq> RESET_CAUSE_UNKNOWN" using n(1) unfolding c reason_bits by (auto simp: cause_ranking_def)
qed

lemma ranked_cause_none:
  "List.find b cause_ranking = None \<longleftrightarrow> (\<forall>n\<in>{16..22}. \<not> b n)"
  by (auto simp: find_None_iff reason_bits simp del: atLeastAtMost_iff)

lemma ranked_cause_unknown: "ranked_cause b = RESET_CAUSE_UNKNOWN \<longleftrightarrow> (\<forall>n\<in>{16..22}. \<not> b n)"
proof (cases "List.find b cause_ranking")
  case None
  then show ?thesis using ranked_cause_none [of b] by (simp add: ranked_cause_def)
next
  case (Some n)
  then show ?thesis using ranked_cause_in [OF Some] ranked_cause_none [of b] by auto
qed

lemma ranked_cause_own:
  "ranked_cause b \<noteq> RESET_CAUSE_UNKNOWN \<longrightarrow> (\<exists>n\<in>{16..22}. b n \<and> ranked_cause b = cause_of_bit n)"
proof (cases "List.find b cause_ranking")
  case None
  then show ?thesis by (simp add: ranked_cause_def)
next
  case (Some n)
  then show ?thesis using ranked_cause_in [OF Some] by blast
qed

text \<open>
  C39: With one reason bit set the captured cause is that bit's; with several it is the highest ranking
  one's. So the system watchdog wins over any other bit and a private watchdog over any but that, no
  bit gives the unknown cause, and no cause is reported without a bit of its own. Capturing clears exactly the seven reason bits: the boot state and error code bits of the
  register stay, the lock is as it was, and capturing again finds nothing, so a cause is never
  reported for a second boot.
\<close>

theorem reset_cause_capture_correct:
  assumes "slcr_registers R io" "SLCR_REBOOT_STATUS_OFFSET \<in> R"
    and "reset_cause_capture io s h = (cause, s', h')"
  defines "status \<equiv> slcr_read io SLCR_REBOOT_STATUS_OFFSET h"
  shows "s' = cause \<and>
    (\<forall>n\<in>{16..22}. {i \<in> {16..22}. bit status i} = {n} \<longrightarrow> cause = cause_of_bit n) \<and>
    cause = ranked_cause (bit status) \<and>
    (bit status 16 \<longrightarrow> cause = RESET_CAUSE_SWDT) \<and>
    (\<not> bit status 16 \<and> (bit status 17 \<or> bit status 18) \<longrightarrow> cause = RESET_CAUSE_CPU_WDT) \<and>
    (cause = RESET_CAUSE_UNKNOWN \<longleftrightarrow> (\<forall>n\<in>{16..22}. \<not> bit status n)) \<and>
    (cause \<noteq> RESET_CAUSE_UNKNOWN \<longrightarrow> (\<exists>n\<in>{16..22}. bit status n \<and> cause = cause_of_bit n)) \<and>
    (\<forall>n. bit (slcr_read io SLCR_REBOOT_STATUS_OFFSET h') n \<longleftrightarrow> bit status n \<and> \<not> (16 \<le> n \<and> n \<le> 22)) \<and>
    slcr_locked io h' = slcr_locked io h \<and>
    fst (reset_cause_capture io s' h') = RESET_CAUSE_UNKNOWN"
proof -
  have c: "s' = cause" "cause = fst (reset_cause_capture io s h)"
    "h' = slcr_modify io SLCR_REBOOT_STATUS_OFFSET REBOOT_REASON_MASK 0 h"
    using assms(3) by (auto simp: reset_cause_capture_def Let_def)
  note modify = slcr_modify_eq [OF assms(1,2), where clr = REBOOT_REASON_MASK and st = 0 and h = h, folded c(3)]
  have bits: "bit (slcr_read io SLCR_REBOOT_STATUS_OFFSET h') n \<longleftrightarrow> bit status n \<and> \<not> (16 \<le> n \<and> n \<le> 22)" for n
    unfolding modify(1) status_def
    by (auto simp: bit_and_iff bit_not_iff bit_reason_mask dest: bit_imp_le_length)
  have cause: "cause = ranked_cause (bit status)" unfolding c(2) captured_ranked status_def ..
  have one: "cause = cause_of_bit n" if "{i \<in> {16..22}. bit status i} = {n}" for n
    unfolding cause by (rule ranked_cause_single [OF that])
  have watchdogs: "bit status 16 \<longrightarrow> cause = RESET_CAUSE_SWDT"
    "\<not> bit status 16 \<and> (bit status 17 \<or> bit status 18) \<longrightarrow> cause = RESET_CAUSE_CPU_WDT"
    unfolding cause by (auto simp: ranked_cause_def cause_ranking_def)
  have unknown: "cause = RESET_CAUSE_UNKNOWN \<longleftrightarrow> (\<forall>n\<in>{16..22}. \<not> bit status n)"
    unfolding cause by (rule ranked_cause_unknown)
  have own: "cause \<noteq> RESET_CAUSE_UNKNOWN \<longrightarrow> (\<exists>n\<in>{16..22}. bit status n \<and> cause = cause_of_bit n)"
    unfolding cause by (rule ranked_cause_own)
  moreover have "fst (reset_cause_capture io s' h') = RESET_CAUSE_UNKNOWN"
    unfolding captured_cause Let_def bits by simp
  ultimately show ?thesis using c(1) bits one cause watchdogs unknown own modify(3) by blast
qed

lemma reset_cause_capture_correct_witness:
  "\<exists>s' h'. reset_cause_capture slcr_bank RESET_CAUSE_UNKNOWN (True, \<lambda>_. 0x60420005) = (RESET_CAUSE_CPU_WDT, s', h') \<and>
     s' = RESET_CAUSE_CPU_WDT \<and> slcr_locked slcr_bank h' \<and>
     fst (reset_cause_capture slcr_bank s' h') = RESET_CAUSE_UNKNOWN"
proof -
  have "slcr_plain SLCR_REBOOT_STATUS_OFFSET"
    by (simp add: slcr_plain_def SLCR_REBOOT_STATUS_OFFSET_def SLCR_LOCK_OFFSET_def
        SLCR_UNLOCK_OFFSET_def SLCR_LOCKSTA_OFFSET_def)
  then have bank: "slcr_registers {SLCR_REBOOT_STATUS_OFFSET} slcr_bank" by (intro slcr_bank_registers) simp
  have "slcr_read slcr_bank SLCR_REBOOT_STATUS_OFFSET (True, \<lambda>_. 0x60420005) = 0x60420005"
    by (simp add: slcr_read_def slcr_bank_def SLCR_REBOOT_STATUS_OFFSET_def SLCR_LOCKSTA_OFFSET_def)
  then have bits: "\<not> bit (slcr_read slcr_bank SLCR_REBOOT_STATUS_OFFSET (True, \<lambda>_. 0x60420005)) 16"
    "bit (slcr_read slcr_bank SLCR_REBOOT_STATUS_OFFSET (True, \<lambda>_. 0x60420005)) 17"
    by simp_all
  obtain cause s' h' where
    *: "reset_cause_capture slcr_bank RESET_CAUSE_UNKNOWN (True, \<lambda>_. 0x60420005) = (cause, s', h')"
    using prod_cases3 by blast
  show ?thesis
    using reset_cause_capture_correct [OF bank _ *] bits * by auto
qed

end
