(* ===== verification/Uptime.thy ===== *)
theory Uptime
  imports Prelude
begin

text \<open>
  \<open>system/uptime.c\<close>: microseconds since boot from the 64-bit global timer. The timer's count
  and \<open>COUNTS_PER_SECOND\<close> come from the board support package and are arguments.
\<close>

section \<open>The code\<close>

definition USEC_PER_SEC :: u64 where
  "USEC_PER_SEC = 1000000"

text \<open>\<open>counts\<close> is what the timer reads after the 1 us sleep that starts it.\<close>

definition uptime_init :: "u64 \<Rightarrow> bool" where
  "uptime_init counts \<longleftrightarrow> counts \<noteq> 0"

definition uptime_us :: "u64 \<Rightarrow> u64 \<Rightarrow> u64" where
  "uptime_us counts_per_sec counts =
     (let whole_sec = counts div counts_per_sec;
          rem_counts = counts mod counts_per_sec
      in whole_sec * USEC_PER_SEC + (rem_counts * USEC_PER_SEC) div counts_per_sec)"

definition uptime_ms :: "u64 \<Rightarrow> u64 \<Rightarrow> u32" where
  "uptime_ms counts_per_sec counts = ucast (uptime_us counts_per_sec counts div 1000)"

section \<open>The split computation is exact\<close>

lemma split_scale: "0 < c \<Longrightarrow> (n div c) * m + (n mod c) * m div c = n * m div c" for n m c :: nat
proof -
  assume "0 < c"
  have "n * m = (n mod c) * m + c * ((n div c) * m)"
    by (metis add.commute add_mult_distrib mult.assoc mod_mult_div_eq)
  then have "n * m div c = ((n mod c) * m + c * ((n div c) * m)) div c" by simp
  also have "\<dots> = (n div c) * m + (n mod c) * m div c"
    using \<open>0 < c\<close> by (simp add: div_mult_self4)
  finally show ?thesis by simp
qed

lemma scale_le: "m \<le> c \<Longrightarrow> n * m div c \<le> n" for n m c :: nat
proof (cases "c = 0")
  case False
  assume "m \<le> c"
  then have "n * m div c \<le> n * c div c" by (intro div_le_mono mult_le_mono2)
  with False show ?thesis by simp
qed simp

lemma unat_uptime_us:
  assumes "10 ^ 6 \<le> unat cps" and "unat cps \<le> 2 ^ 44"
  shows "unat (uptime_us cps n) = unat n * 10 ^ 6 div unat cps"
proof -
  let ?n = "unat n" and ?c = "unat cps"
  have c: "0 < ?c" "1000000 \<le> ?c" using assms(1) by simp_all
  have "?n mod ?c < ?c" using c(1) by (rule mod_less_divisor)
  then have "?n mod ?c < 17592186044416" using assms(2) by simp
  then have "?n mod ?c * 1000000 < 18446744073709551616" by simp
  then have r: "unat (n mod cps * USEC_PER_SEC) = ?n mod ?c * 1000000"
    by (simp add: unat_word_ariths unat_mod_distrib USEC_PER_SEC_def)
  have sum: "?n div ?c * 1000000 + ?n mod ?c * 1000000 div ?c = ?n * 1000000 div ?c"
    using c(1) by (rule split_scale)
  have "?n * 1000000 div ?c < 18446744073709551616"
    using scale_le [OF c(2)] unat_u64_lt by (rule le_less_trans)
  then have le: "?n div ?c * 1000000 + ?n mod ?c * 1000000 div ?c < 18446744073709551616"
    by (simp only: sum)
  then have w: "unat (n div cps * USEC_PER_SEC) = ?n div ?c * 1000000"
    by (simp add: unat_word_ariths unat_div_distrib USEC_PER_SEC_def)
  have "unat (uptime_us cps n)
      = (?n div ?c * 1000000 + ?n mod ?c * 1000000 div ?c) mod 18446744073709551616"
    by (simp add: uptime_us_def Let_def unat_word_ariths(1) w unat_div_distrib r)
  then show ?thesis using le sum by simp
qed

section \<open>Properties\<close>

text \<open>
  C38: For any timer rate from 1 MHz up to \<open>2 ^ 44\<close> Hz the uptime is the exact number of whole
  microseconds \<open>counts * 10 ^ 6 / rate\<close> for every 64-bit count, with no overflow on the way;
  it never runs backwards; and the millisecond clock is that value divided by 1000, wrapping
  at \<open>2 ^ 32\<close>.
\<close>

theorem uptime_exact:
  assumes "10 ^ 6 \<le> unat cps" and "unat cps \<le> 2 ^ 44"
  shows "unat (uptime_us cps n) = unat n * 10 ^ 6 div unat cps \<and>
         (n \<le> n' \<longrightarrow> uptime_us cps n \<le> uptime_us cps n') \<and>
         unat (uptime_ms cps n) = (unat n * 10 ^ 6 div unat cps div 1000) mod 2 ^ 32"
proof -
  have ms: "unat (uptime_ms cps n) = (unat (uptime_us cps n) div 1000) mod 2 ^ 32"
    by (simp add: uptime_ms_def unsigned_ucast_eq take_bit_eq_mod unat_div_distrib)
  have "n \<le> n' \<longrightarrow> uptime_us cps n \<le> uptime_us cps n'"
    by (auto simp: word_le_nat_alt unat_uptime_us [OF assms] intro: div_le_mono mult_le_mono1)
  then show ?thesis
    by (simp add: unat_uptime_us [OF assms] ms)
qed

lemma uptime_exact_witness:
  "unat (uptime_us 333333343 33333334300) = 100 * 10 ^ 6 \<and>
   uptime_us 333333343 33333334300 \<le> uptime_us 333333343 18446744073709551615"
  using uptime_exact [of 333333343 33333334300 18446744073709551615]
  by simp

end
