(* ===== verification/Consumer.thy ===== *)
theory Consumer
  imports Producer Ui Reset_Cause Uptime
begin

text \<open>
  \<open>tasks/task_consumer.c\<close>: the consumer, which drains the log and owns the console. Its static
  state is \<open>consumer_state_t\<close>; the drivers and the log are the \<open>board\<close>. What it reads of the other
  tasks (the producer's statistics, the UI's counter, the reset cause), of the kernel and of the
  clock while it handles a message is the record \<open>consumer_view\<close>; \<open>ms_to_ticks\<close> is the kernel's
  conversion. The enumeration of messages has no other values, so the \<open>default\<close> branch that warns
  about one is not modelled.
\<close>

section \<open>The code: printing\<close>

record consumer_state_t =
  stream_enabled :: bool
  stream_slow :: bool
  drain_paused :: bool
  stall_reported :: bool
  received_count :: u32
  last_seq :: u32
  lost :: u32
  log_lock_timeouts :: u32
  queue_depth_peak :: u32
  last_producer_samples :: u32
  last_progress_tick :: u32

record consumer_view =
  v_prod_stats :: producer_stats_t
  v_now_ms :: u32
  v_log_env :: log_env
  v_log_base :: u32
  v_ui_dropped :: u32
  v_stack_words :: "(u32 \<times> u32 \<times> u32 \<times> u32) option"
  v_heap_free :: u32
  v_reset_cause :: reset_cause_t
  v_tx_status :: "u32 list"
  v_uart_bits :: uart_bits

definition CONSUMER_NUM_BUF_LEN :: nat where "CONSUMER_NUM_BUF_LEN = 16"

definition consumer_print_time_prefix :: "u64 \<Rightarrow> uart_state \<Rightarrow> uart_state option" where
  "consumer_print_time_prefix time_us u =
     (let time_ms = time_us div 1000
      in console_printf ''[%6lu.%03lu] '' [UInt (ucast (time_ms div 1000)), UInt (ucast (time_ms mod 1000))] u)"

text \<open>The text in the buffer, which holds anything at first.\<close>

definition consumer_fmt_sensor :: "xadc_sensor_t \<Rightarrow> u16 \<Rightarrow> string option" where
  "consumer_fmt_sensor sensor raw = do {
     let decimals = (if xadc_drv_is_temperature sensor then 2 else 3);
     (text, buf) \<leftarrow> console_fmt_milli (Some (replicate CONSUMER_NUM_BUF_LEN CHR 0xFF)) CONSUMER_NUM_BUF_LEN
       (xadc_drv_code_to_milli sensor raw) decimals;
     Some (c_string text)
   }"

definition consumer_btn_level :: "sensor_record_t \<Rightarrow> gpio_btn_id_t \<Rightarrow> u32" where
  "consumer_btn_level record btn = (if ucast (buttons record) AND SENSOR_BTN_BIT btn \<noteq> 0 then 1 else 0)"

definition consumer_print_help :: "uart_state \<Rightarrow> uart_state option" where
  "consumer_print_help u = do {
     u \<leftarrow> console_write (lit (''\<newline>Commands:\<newline>'' @
            ''  r / BTN4   full sensor report (newest sample + min/max)\<newline>'' @
            ''  s / BTN5   start/stop telemetry stream\<newline>'')) u;
     u \<leftarrow> console_printf ''  f          stream rate: every sample (%u Hz) / every %uth (%u Hz)\<newline>''
            [UInt APP_SAMPLE_RATE_HZ, UInt APP_SLOW_STREAM_DIVIDER,
             UInt (APP_SAMPLE_RATE_HZ div APP_SLOW_STREAM_DIVIDER)] u;
     console_write (lit (''  p          pause/resume reading the log (samples keep accumulating)\<newline>'' @
            ''  t          print the newest sample once\<newline>'' @
            ''  d          diagnostics (timing, log, mutex, queue, watchdog, heap)\<newline>'' @
            ''  1 2 3      watchdog test: hang the producer / ui / consumer task\<newline>'' @
            ''  4          watchdog test: kernel interrupts masked, whole system stops\<newline>'' @
            ''  h / ?      this help\<newline>\<newline>'')) u
   }"

definition consumer_print_sample_line :: "sensor_record_t \<Rightarrow> uart_state \<Rightarrow> uart_state option" where
  "consumer_print_sample_line record u = do {
     u \<leftarrow> consumer_print_time_prefix (capture_us record) u;
     t \<leftarrow> arr_get (raw_code (sensors record)) (xadc_sensor_index XADC_SENSOR_DIE_TEMP);
     temp_str \<leftarrow> consumer_fmt_sensor XADC_SENSOR_DIE_TEMP t;
     v \<leftarrow> arr_get (raw_code (sensors record)) (xadc_sensor_index XADC_SENSOR_VCCINT);
     vccint_str \<leftarrow> consumer_fmt_sensor XADC_SENSOR_VCCINT v;
     vp \<leftarrow> arr_get (raw_code (sensors record)) (xadc_sensor_index XADC_SENSOR_VCCPINT);
     vccpint_str \<leftarrow> consumer_fmt_sensor XADC_SENSOR_VCCPINT vp;
     console_printf ''#%-6lu T %s C | VCCINT %s V | VCCPINT %s V | BTN4 %u BTN5 %u\<newline>''
       [UInt (seq record), Str temp_str, Str vccint_str, Str vccpint_str,
        UInt (consumer_btn_level record GPIO_BTN4), UInt (consumer_btn_level record GPIO_BTN5)] u
   }"

text \<open>The record found, the UART and the log; \<open>record\<close> is the caller's variable.\<close>

definition consumer_get_newest ::
  "(u32 \<Rightarrow> u32) \<Rightarrow> log_env \<Rightarrow> sensor_record_t \<Rightarrow> 'q board \<Rightarrow> (sensor_record_t option \<times> 'q board) option" where
  "consumer_get_newest ms_to_ticks env record b = do {
     (found, out, l) \<leftarrow> sensor_log_peek_newest env (Some record) (ms_to_ticks APP_LOG_READ_WAIT_MS) (b_log b);
     let b = b\<lparr>b_log := l\<rparr>;
     if \<not> found
     then do {
       u \<leftarrow> console_write (lit ''no samples yet (or log busy)\<newline>'') (b_uart b);
       Some (None, b\<lparr>b_uart := u\<rparr>)
     }
     else Some (out, b)
   }"

definition consumer_report_row ::
  "sensor_record_t \<Rightarrow> producer_stats_t \<Rightarrow> nat \<Rightarrow> uart_state \<Rightarrow> uart_state option" where
  "consumer_report_row record st sensor u = do {
     let i = xadc_sensor_of sensor;
     now \<leftarrow> arr_get (raw_code (sensors record)) sensor;
     now_str \<leftarrow> consumer_fmt_sensor i now;
     lo \<leftarrow> arr_get (raw_code (sensor_min st)) sensor;
     min_str \<leftarrow> consumer_fmt_sensor i lo;
     hi \<leftarrow> arr_get (raw_code (sensor_max st)) sensor;
     max_str \<leftarrow> consumer_fmt_sensor i hi;
     console_printf ''  %-9s %8s %s %8s %s %8s %s   0x%03X\<newline>''
       [Str (xadc_drv_sensor_name i), Str now_str, Str (xadc_drv_sensor_unit i),
        Str min_str, Str (xadc_drv_sensor_unit i), Str max_str, Str (xadc_drv_sensor_unit i),
        UInt (ucast now)] u
   }"

definition consumer_print_report ::
  "(u32 \<Rightarrow> u32) \<Rightarrow> consumer_view \<Rightarrow> 'q board \<Rightarrow> 'q board option" where
  "consumer_print_report ms_to_ticks v b = do {
     (newest, b) \<leftarrow> consumer_get_newest ms_to_ticks (v_log_env v) zero_record b;
     case newest of None \<Rightarrow> Some b
     | Some record \<Rightarrow> do {
         let st = v_prod_stats v;
         u \<leftarrow> console_write (lit ''\<newline>'') (b_uart b);
         u \<leftarrow> consumer_print_time_prefix (capture_us record) u;
         u \<leftarrow> console_printf ''XADC report, sample #%lu (min/max over %lu samples)\<newline>''
                [UInt (seq record), UInt (samples st)] u;
         u \<leftarrow> console_printf ''  %-9s %10s %10s %10s   %s\<newline>''
                [Str ''sensor'', Str ''now'', Str ''min'', Str ''max'', Str ''raw''] u;
         u \<leftarrow> for_each (consumer_report_row record st) [0..<xadc_sensor_count] u;
         u \<leftarrow> console_write (lit ''\<newline>'') u;
         Some (b\<lparr>b_uart := u\<rparr>)
       }
   }"

definition consumer_print_newest ::
  "(u32 \<Rightarrow> u32) \<Rightarrow> consumer_view \<Rightarrow> 'q board \<Rightarrow> 'q board option" where
  "consumer_print_newest ms_to_ticks v b = do {
     (newest, b) \<leftarrow> consumer_get_newest ms_to_ticks (v_log_env v) zero_record b;
     case newest of None \<Rightarrow> Some b
     | Some record \<Rightarrow> do {
         u \<leftarrow> consumer_print_sample_line record (b_uart b);
         Some (b\<lparr>b_uart := u\<rparr>)
       }
   }"

text \<open>The loop over the clients at the end of the diagnostics.\<close>

definition consumer_print_silence :: "wdog_state \<Rightarrow> wdog_stats_t \<Rightarrow> nat \<Rightarrow> uart_state \<Rightarrow> uart_state option" where
  "consumer_print_silence w wdog_stats client u = do {
     name \<leftarrow> task_watchdog_client_name w (wdog_client_of client);
     worst \<leftarrow> arr_get (worst_silence_ms wdog_stats) client;
     console_printf ''%s %s %lu ms'' [Str (if client = 0 then '''' else '',''), Str name, UInt worst] u
   }"

definition consumer_print_stats ::
  "(u32 \<Rightarrow> u32) \<Rightarrow> consumer_view \<Rightarrow> consumer_state_t \<Rightarrow> 'q board \<Rightarrow> 'q board option" where
  "consumer_print_stats ms_to_ticks v s b = do {
     let now_ms = v_now_ms v;
     let st = v_prod_stats v;
     uart_errs \<leftarrow> uart_drv_get_err_counters (b_uart b) (Some \<lparr>rx_overrun = 0, rx_framing = 0, rx_parity = 0\<rparr>);
     let (log_base, log_bytes, _) = sensor_log_storage_info (v_log_base v) (Some 0) (Some 0) None;
     log_base \<leftarrow> log_base;
     log_bytes \<leftarrow> log_bytes;
     u \<leftarrow> console_write (lit ''\<newline>Diagnostics\<newline>'') (b_uart b);
     u \<leftarrow> console_printf ''  uptime          : %lu.%03lu s\<newline>'' [UInt (now_ms div 1000), UInt (now_ms mod 1000)] u;
     u \<leftarrow> console_printf ''  sample period   : %lu us (timer)\<newline>'' [UInt (timer_period_us st)] u;
     u \<leftarrow> console_printf ''  producer        : %lu samples, %lu overruns, %lu timeouts\<newline>''
            [UInt (samples st), UInt (overruns st), UInt (timeouts st)] u;
     u \<leftarrow> (if samples st \<ge> 2
           then console_printf ''  sample interval : min %lu us, max %lu us\<newline>''
                  [UInt (period_min_us st), UInt (period_max_us st)] u
           else console_write (lit ''  sample interval : n/a\<newline>'') u);
     u \<leftarrow> console_printf ''  XADC read time  : max %lu us\<newline>'' [UInt (read_time_max_us st)] u;
     u \<leftarrow> console_printf ''  log write       : max %lu us incl. mutex wait, %lu dropped on lock timeout\<newline>''
            [UInt (log_write_max_us st), UInt (log_write_drops st)] u;
     let (ok, log_stats, l) = sensor_log_get_stats (v_log_env v) (Some blank_stats) (ms_to_ticks APP_LOG_READ_WAIT_MS) (b_log b);
     let b = b\<lparr>b_log := l\<rparr>;
     ls \<leftarrow> log_stats;
     u \<leftarrow> (if ok
           then do {
             u \<leftarrow> console_printf ''  sensor log      : %lu / %lu records waiting, peak %lu, %lu overwritten\<newline>''
                    [UInt (stats_fill ls), UInt (stats_capacity ls), UInt (stats_fill_high_water ls),
                     UInt (stats_overwritten ls)] u;
             console_printf ''  log mutex       : held max %lu us, %lu consumer lock timeouts\<newline>''
                    [UInt (stats_lock_hold_max_us ls), UInt (log_lock_timeouts s)] u
           }
           else console_write (lit ''  sensor log      : mutex busy, try again\<newline>'') u);
     u \<leftarrow> console_printf ''  log storage     : %lu bytes at 0x%08lX (DDR)\<newline>'' [UInt log_bytes, UInt log_base] u;
     u \<leftarrow> console_printf ''  consumer        : %lu received, %lu lost, stream %s, %s, draining %s\<newline>''
            [UInt (received_count s), UInt (lost s), Str (if stream_enabled s then ''on'' else ''off''),
             Str (if stream_slow s then ''slow'' else ''every sample''),
             Str (if drain_paused s then ''PAUSED'' else ''on'')] u;
     u \<leftarrow> console_printf ''  message queue   : peak %lu / %u, %lu UI messages dropped, %lu doorbell retries\<newline>''
            [UInt (queue_depth_peak s), UInt APP_CONSUMER_QUEUE_LEN, UInt (task_ui_dropped_msgs (v_ui_dropped v)),
             UInt (doorbell_retries st)] u;
     u \<leftarrow> console_printf ''  UART rx errors  : overrun %lu, framing %lu, parity %lu\<newline>''
            [UInt (rx_overrun uart_errs), UInt (rx_framing uart_errs), UInt (rx_parity uart_errs)] u;
     u \<leftarrow> (case v_stack_words v of None \<Rightarrow> Some u
           | Some (wd, pr, ui, co) \<Rightarrow>
               console_printf ''  stack headroom  : watchdog %lu, producer %lu, ui %lu, consumer %lu words\<newline>''
                 [UInt wd, UInt pr, UInt ui, UInt co] u);
     u \<leftarrow> console_printf ''  heap free       : %lu bytes\<newline>'' [UInt (v_heap_free v)] u;
     u \<leftarrow> console_printf ''  last reset      : %s\<newline>'' [Str (reset_cause_name (reset_cause_get (v_reset_cause v)))] u;
     ws \<leftarrow> task_watchdog_get_stats (b_wdog b) (b_wdt b) (Some (s_wdog_stats (b_wdog b)));
     u \<leftarrow> (if wdog_timeout_ms ws \<noteq> 0
           then console_printf ''  watchdog        : SWDT %lu ms, %lu kicks\<newline>'' [UInt (wdog_timeout_ms ws), UInt (kicks ws)] u
           else console_write (lit ''  watchdog        : SWDT not running (APP_WDT_ENABLE)\<newline>'') u);
     u \<leftarrow> console_write (lit ''  worst silence   :'') u;
     u \<leftarrow> for_each (consumer_print_silence (b_wdog b) ws) [0..<wdog_client_count] u;
     u \<leftarrow> console_write (lit ''\<newline>\<newline>'') u;
     Some (b\<lparr>b_uart := u\<rparr>)
   }"

text \<open>
  The watchdog tests: the state after the request to hang, or \<open>None\<close> when the transmitter does
  not become idle and for the key \<open>4\<close>, whose branch masks the interrupts and spins for ever.
\<close>

definition consumer_run_wdt_test :: "consumer_view \<Rightarrow> char \<Rightarrow> 'q board \<Rightarrow> 'q board option" where
  "consumer_run_wdt_test v key b =
     (if key \<notin> {CHR ''1'', CHR ''2'', CHR ''3'', CHR ''4''} then Some b
      else do {
        u \<leftarrow> (if key = CHR ''1'' then console_write (lit ''TEST: producer stuck in a busy loop\<newline>'') (b_uart b)
              else if key = CHR ''2'' then console_write (lit ''TEST: ui task blocked forever\<newline>'') (b_uart b)
              else if key = CHR ''3'' then console_write (lit ''TEST: consumer stuck in a busy loop\<newline>'') (b_uart b)
              else console_write (lit ''TEST: kernel interrupts masked, nothing runs any more\<newline>'') (b_uart b));
        u \<leftarrow> (if wdt_drv_is_running (b_wdt b)
              then console_write (lit ''expect the watchdog to reset the board within a few seconds\<newline>'') u
              else console_write (lit ''SWDT is not running - this stays hung until the board is reset by hand\<newline>'') u);
        _ \<leftarrow> uart_drv_wait_tx_idle (v_uart_bits v) (v_tx_status v) u;
        w \<leftarrow> (if key = CHR ''1'' then task_watchdog_inject_hang WDOG_CLIENT_PRODUCER (b_wdog b)
              else if key = CHR ''2'' then task_watchdog_inject_hang WDOG_CLIENT_UI (b_wdog b)
              else if key = CHR ''3'' then task_watchdog_inject_hang WDOG_CLIENT_CONSUMER (b_wdog b)
              else None);
        Some (b\<lparr>b_uart := u, b_wdog := w\<rparr>)
      })"

section \<open>Every printing function returns\<close>

lemma raw_code_in:
  "length (raw_code (sensors r)) = 7 \<Longrightarrow> i < 7 \<Longrightarrow> arr_get (raw_code (sensors r)) i = Some (raw_code (sensors r) ! i)"
  by simp

lemma sint_scaled: "0 \<le> sint (x div 4096 :: u32) \<and> sint (x div 4096 :: u32) < 2147483648"
proof -
  have "unat (x div 4096) = unat x div 4096" by (simp add: unat_div)
  then have "unat (x div 4096) < 2147483648" using unat_u32_lt [of x] by linarith
  moreover from this have "sint (x div 4096) = int (unat (x div 4096))" by (rule sint_u32_small)
  ultimately show ?thesis by linarith
qed

lemma code_to_milli_range:
  "- 2147483648 \<le> xadc_drv_code_to_milli sensor raw" "xadc_drv_code_to_milli sensor raw < 2147483648"
  using sint_scaled [of "ucast raw * XADC_TEMP_GAIN_MILLI + XADC_CODE_FULL_SCALE div 2"]
    sint_scaled [of "ucast raw * XADC_SUPPLY_FS_MV + XADC_CODE_FULL_SCALE div 2"]
  by (simp_all add: xadc_drv_code_to_milli_def XADC_CODE_FULL_SCALE_def XADC_TEMP_OFFSET_MILLI_def Let_def)

text \<open>The text of a converted code: two decimals for a temperature, three for a supply.\<close>

definition sensor_text :: "xadc_sensor_t \<Rightarrow> u16 \<Rightarrow> string" where
  "sensor_text sensor raw =
     milli_text (xadc_drv_code_to_milli sensor raw) (if xadc_drv_is_temperature sensor then 2 else 3)"

lemma consumer_fmt_sensor_eq: "consumer_fmt_sensor sensor raw = Some (sensor_text sensor raw)"
proof -
  let ?x = "xadc_drv_code_to_milli sensor raw"
  let ?k = "if xadc_drv_is_temperature sensor then 2 else 3 :: nat"
  let ?b = "replicate CONSUMER_NUM_BUF_LEN CHR 0xFF"
  have k: "?k = min (unat (if xadc_drv_is_temperature sensor then 2 else 3 :: u32)) 3" by simp
  have n: "13 \<le> CONSUMER_NUM_BUF_LEN" "CONSUMER_NUM_BUF_LEN \<le> length ?b"
    by (simp_all add: CONSUMER_NUM_BUF_LEN_def)
  show ?thesis
    unfolding consumer_fmt_sensor_def Let_def console_fmt_milli_eq [OF code_to_milli_range n k refl]
    using NUL_milli_text [of ?x ?k] by (simp add: c_string_def takeWhile_append2' sensor_text_def)
qed

lemma prints_time_prefix: "prints u (consumer_print_time_prefix t u)"
  unfolding consumer_print_time_prefix_def Let_def by (rule prints_printf) (simp add: printf_eval)

lemma prints_help: "prints u (consumer_print_help u)"
  unfolding consumer_print_help_def
  by (intro prints_bind prints_lit prints_printf) (simp_all add: printf_eval NUL_def)

lemma prints_sample_line:
  assumes "length (raw_code (sensors r)) = 7"
  shows "prints u (consumer_print_sample_line r u)"
  unfolding consumer_print_sample_line_def
  by (rule prints_bind [OF prints_time_prefix])
    (simp add: assms consumer_fmt_sensor_eq, rule prints_printf, simp add: printf_eval)

text \<open>The same for the functions that also look into the log: its ring buffer stays as it is.\<close>

definition board_prints_from :: "'q board \<Rightarrow> uart_state \<Rightarrow> 'q board option \<Rightarrow> bool" where
  "board_prints_from b u r \<longleftrightarrow> (\<exists>t l. r = Some (b\<lparr>b_uart := console_text t u, b_log := l\<rparr>) \<and>
     log_ok l \<and> s_ring l = s_ring (b_log b))"

abbreviation board_prints :: "'q board \<Rightarrow> 'q board option \<Rightarrow> bool" where
  "board_prints b r \<equiv> board_prints_from b (b_uart b) r"

lemma board_prints_bind:
  assumes "prints u r" "\<And>t. board_prints_from b (console_text t u) (f (console_text t u))"
  shows "board_prints_from b u (r \<bind> f)"
proof -
  obtain t where t: "r = Some (console_text t u)" using assms(1) by (rule printsE)
  from assms(2) [of t] obtain t' l where
    "f (console_text t u) = Some (b\<lparr>b_uart := console_text t' (console_text t u), b_log := l\<rparr>)"
    "log_ok l" "s_ring l = s_ring (b_log b)"
    unfolding board_prints_from_def by blast
  with t show ?thesis
    unfolding board_prints_from_def by (intro exI [of _ "t @ t'"] exI [of _ l]) simp
qed

lemma board_prints_done:
  "log_ok l \<Longrightarrow> s_ring l = s_ring (b_log b) \<Longrightarrow> board_prints_from b u (Some (b\<lparr>b_log := l, b_uart := u\<rparr>))"
  unfolding board_prints_from_def by (intro exI [of _ "[]"] exI [of _ l]) simp

definition view_ok :: "consumer_view \<Rightarrow> bool" where
  "view_ok v \<longleftrightarrow> length (raw_code (sensor_min (v_prod_stats v))) = 7 \<and>
     length (raw_code (sensor_max (v_prod_stats v))) = 7"

lemma consumer_get_newest_eq:
  assumes "log_ok (b_log b)"
  obtains r l where "consumer_get_newest f env zero_record b = Some (Some r, b\<lparr>b_log := l\<rparr>)" "rec_ok r"
      "log_ok l" "s_ring l = s_ring (b_log b)"
  | l where "consumer_get_newest f env zero_record b =
        Some (None, b\<lparr>b_log := l, b_uart := console_text ''no samples yet (or log busy)\<newline>'' (b_uart b)\<rparr>)"
      "log_ok l" "s_ring l = s_ring (b_log b)"
proof -
  have wf: "log_wf (b_log b)" using assms by simp
  show thesis
  proof (cases "xSemaphoreTake env (f APP_LOG_READ_WAIT_MS)")
    case True
    show thesis
    proof (cases "ring_newest (s_ring (b_log b))")
      case None
      show thesis
        by (rule that(2) [of "log_locked env (f APP_LOG_READ_WAIT_MS) (b_log b)"])
          (simp_all add: consumer_get_newest_def sensor_log_peek_newest_eq [OF wf] True None assms
            console_write_lit NUL_def)
    next
      case (Some r)
      show thesis
        by (rule that(1) [of r "log_locked env (f APP_LOG_READ_WAIT_MS) (b_log b)"])
          (simp_all add: consumer_get_newest_def sensor_log_peek_newest_eq [OF wf] True Some assms
            log_ok_newest [OF assms Some])
    qed
  next
    case False
    show thesis
      by (rule that(2) [of "log_timeout (f APP_LOG_READ_WAIT_MS) (b_log b)"])
        (simp_all add: consumer_get_newest_def sensor_log_peek_newest_eq [OF wf] False assms
          console_write_lit NUL_def)
  qed
qed

lemma prints_report_row:
  assumes "rec_ok r" "view_ok v" "i < 7"
  shows "prints u (consumer_report_row r (v_prod_stats v) i u)"
  using assms unfolding consumer_report_row_def Let_def rec_ok_length view_ok_def
  by (simp add: consumer_fmt_sensor_eq) (rule prints_printf, simp add: printf_eval)

lemma board_prints_none:
  "log_ok l \<Longrightarrow> s_ring l = s_ring (b_log b) \<Longrightarrow>
     board_prints b (Some (b\<lparr>b_log := l, b_uart := console_text t (b_uart b)\<rparr>))"
  unfolding board_prints_from_def by (intro exI [of _ t] exI [of _ l]) simp

lemma board_prints_report:
  assumes "log_ok (b_log b)" "view_ok v"
  shows "board_prints b (consumer_print_report f v b)"
proof (cases rule: consumer_get_newest_eq [OF assms(1), where f = f and env = "v_log_env v"])
  case (1 r l)
  have rows: "prints u (for_each (consumer_report_row r (v_prod_stats v)) [0..<7] u)" for u
    by (rule prints_for_each) (simp only: atLeastLessThan_upt [symmetric] atLeastLessThan_iff prints_report_row [OF 1(2) assms(2)])
  show ?thesis
    unfolding consumer_print_report_def 1(1) bind.bind_lunit prod.case option.case Let_def
    by (simp, intro board_prints_bind prints_lit prints_time_prefix prints_printf rows board_prints_done
        [simplified] 1(3,4)) (simp_all add: printf_eval NUL_def)
next
  case (2 l)
  then show ?thesis by (simp add: consumer_print_report_def board_prints_none)
qed

lemma board_prints_newest:
  assumes "log_ok (b_log b)"
  shows "board_prints b (consumer_print_newest f v b)"
proof (cases rule: consumer_get_newest_eq [OF assms, where f = f and env = "v_log_env v"])
  case (1 r l)
  have "length (raw_code (sensors r)) = 7" using 1(2) by (simp add: rec_ok_length)
  with 1 show ?thesis
    by (simp add: consumer_print_newest_def, intro board_prints_bind prints_sample_line board_prints_done)
next
  case (2 l)
  then show ?thesis by (simp add: consumer_print_newest_def board_prints_none)
qed

lemma prints_silence:
  assumes "wdog_wf w" "worst_silence_ms ws = worst_silence_ms (s_wdog_stats w)" "i < 3"
  shows "prints u (consumer_print_silence w ws i u)"
proof -
  have "wdog_client_index (wdog_client_of i) = i"
    using assms(3) by (auto simp: wdog_client_of_def less_Suc_eq numeral_3_eq_3)
  then show ?thesis
    using assms unfolding consumer_print_silence_def wdog_wf_def
    by (simp add: task_watchdog_client_name_def) (intro conjI impI prints_printf; simp add: printf_eval)
qed

lemma prints_case_option:
  "(m = None \<Longrightarrow> prints u (f1 u)) \<Longrightarrow> (\<And>x. m = Some x \<Longrightarrow> prints u (f2 x u)) \<Longrightarrow>
     prints u (case m of None \<Rightarrow> f1 u | Some x \<Rightarrow> f2 x u)"
  by (cases m) simp_all

lemma prints_case_prod:
  "(\<And>x y. p = (x, y) \<Longrightarrow> prints u (f x y)) \<Longrightarrow> prints u (case p of (x, y) \<Rightarrow> f x y)"
  by (cases p) simp

lemma board_prints_stats:
  assumes "log_ok (b_log b)" "wdog_wf (b_wdog b)"
  shows "board_prints b (consumer_print_stats f v s b)"
proof -
  have wf: "log_wf (b_log b)" using assms(1) by simp
  obtain ls l where ls: "sensor_log_get_stats (v_log_env v) (Some blank_stats) (f APP_LOG_READ_WAIT_MS) (b_log b) =
      (xSemaphoreTake (v_log_env v) (f APP_LOG_READ_WAIT_MS), Some ls, l)"
    and l: "log_ok l" "s_ring l = s_ring (b_log b)"
    by (rule sensor_log_get_stats_log [OF wf, of "v_log_env v" blank_stats "f APP_LOG_READ_WAIT_MS"])
      (use assms(1) in auto)
  define ws where "ws = (s_wdog_stats (b_wdog b))\<lparr>wdog_timeout_ms := wdt_drv_timeout_ms (b_wdt b)\<rparr>"
  have silence: "prints u (for_each (consumer_print_silence (b_wdog b) ws) [0..<wdog_client_count] u)" for u
    by (rule prints_for_each)
      (simp only: wdog_client_count_3 atLeastLessThan_upt [symmetric] atLeastLessThan_iff,
       simp add: prints_silence [OF assms(2)] ws_def)
  have errs: "uart_drv_get_err_counters (b_uart b) (Some e) = Some (s_err_counters (b_uart b))" for e
    by (simp add: uart_drv_get_err_counters_def)
  have stats: "task_watchdog_get_stats (b_wdog b') (b_wdt b') (Some (s_wdog_stats (b_wdog b'))) = Some ws"
    if "b' = b\<lparr>b_log := l\<rparr>" for b' l
    using that by (simp add: task_watchdog_get_stats_def ws_def)
  show ?thesis
    unfolding consumer_print_stats_def errs sensor_log_storage_info_def Let_def ls prod.case option.map
      bind.bind_lunit stats [OF refl]
    by (intro board_prints_bind prints_lit prints_printf prints_if prints_bind prints_case_option prints_Some
        prints_case_prod board_prints_done l)
      (simp_all add: printf_eval NUL_def silence [simplified])
qed

section \<open>The telemetry line\<close>

definition time_text :: "u64 \<Rightarrow> string" where
  "time_text t = ''['' @ pad_field False CHR '' '' 6 (dec_str (unat (ucast (t div 1000 div 1000) :: u32))) @ ''.'' @
     pad_field False CHR ''0'' 3 (dec_str (unat (ucast (t div 1000 mod 1000) :: u32))) @ ''] ''"

definition sample_text :: "sensor_record_t \<Rightarrow> string" where
  "sample_text r = ''#'' @ pad_field True CHR '' '' 6 (dec_str (unat (seq r))) @
     '' T '' @ sensor_text XADC_SENSOR_DIE_TEMP (raw_code (sensors r) ! 0) @
     '' C | VCCINT '' @ sensor_text XADC_SENSOR_VCCINT (raw_code (sensors r) ! 1) @
     '' V | VCCPINT '' @ sensor_text XADC_SENSOR_VCCPINT (raw_code (sensors r) ! 4) @
     '' V | BTN4 '' @ dec_str (unat (consumer_btn_level r GPIO_BTN4)) @
     '' BTN5 '' @ dec_str (unat (consumer_btn_level r GPIO_BTN5)) @ ''\<newline>''"

lemma length_pad_field: "length (pad_field l c w t) = max w (length t)"
  by (simp add: pad_field_def max_def)

lemma NUL_pad_field [simp]:
  "NUL \<notin> set t \<Longrightarrow> NUL \<notin> set (pad_field l CHR '' '' w t)"
  "NUL \<notin> set t \<Longrightarrow> NUL \<notin> set (pad_field l CHR ''0'' w t)"
  by (auto simp: pad_field_def NUL_def)

lemma length_dec_str_u32: "length (dec_str (unat (w :: u32))) \<le> 10"
  by (rule length_dec_str) (simp_all add: order_less_trans [OF unat_u32_lt])

lemma length_sensor_text: "length (sensor_text sensor raw) \<le> 12"
  unfolding sensor_text_def using code_to_milli_range [of sensor raw] by (intro length_milli_text) auto

lemma NUL_sensor_text [simp]: "NUL \<notin> set (sensor_text sensor raw)"
  by (simp add: sensor_text_def)

lemma printf_fits:
  assumes "printf_text fmt args = Some t" "NUL \<notin> set t" "length t < 256"
  shows "console_printf fmt args s = Some (console_text t s)"
  using console_printf_eq [OF assms(1,2)] assms(3) by simp

lemma time_prefix_eq: "consumer_print_time_prefix t u = Some (console_text (time_text t) u)"
  unfolding consumer_print_time_prefix_def Let_def
proof (rule printf_fits)
  show "printf_text ''[%6lu.%03lu] '' [UInt (ucast (t div 1000 div 1000)), UInt (ucast (t div 1000 mod 1000))]
      = Some (time_text t)"
    by (simp add: printf_eval num_fill_def time_text_def)
  show "NUL \<notin> set (time_text t)" by (simp add: time_text_def) (simp add: NUL_def)
  show "length (time_text t) < 256"
    using length_dec_str_u32 [of "ucast (t div 1000 div 1000)"] length_dec_str_u32 [of "ucast (t div 1000 mod 1000)"]
    by (simp add: time_text_def length_pad_field)
qed

lemma sample_line_eq:
  assumes "rec_ok r"
  shows "consumer_print_sample_line r u = Some (console_text (time_text (capture_us r) @ sample_text r) u)"
proof -
  let ?args = "[UInt (seq r), Str (sensor_text XADC_SENSOR_DIE_TEMP (raw_code (sensors r) ! 0)),
    Str (sensor_text XADC_SENSOR_VCCINT (raw_code (sensors r) ! 1)),
    Str (sensor_text XADC_SENSOR_VCCPINT (raw_code (sensors r) ! 4)),
    UInt (consumer_btn_level r GPIO_BTN4), UInt (consumer_btn_level r GPIO_BTN5)]"
  have "console_printf ''#%-6lu T %s C | VCCINT %s V | VCCPINT %s V | BTN4 %u BTN5 %u\<newline>'' ?args s =
      Some (console_text (sample_text r) s)" for s
  proof (rule printf_fits)
    show "printf_text ''#%-6lu T %s C | VCCINT %s V | VCCPINT %s V | BTN4 %u BTN5 %u\<newline>'' ?args
        = Some (sample_text r)"
      by (simp add: printf_eval sample_text_def) (simp add: pad_field_def)
    show "NUL \<notin> set (sample_text r)" by (simp add: sample_text_def) (simp add: NUL_def)
    show "length (sample_text r) < 256"
      using length_dec_str_u32 [of "seq r"] length_dec_str_u32 [of "consumer_btn_level r GPIO_BTN4"]
        length_dec_str_u32 [of "consumer_btn_level r GPIO_BTN5"]
        length_sensor_text [of XADC_SENSOR_DIE_TEMP "raw_code (sensors r) ! 0"]
        length_sensor_text [of XADC_SENSOR_VCCINT "raw_code (sensors r) ! 1"]
        length_sensor_text [of XADC_SENSOR_VCCPINT "raw_code (sensors r) ! 4"]
      by (simp add: sample_text_def length_pad_field)
  qed
  then show ?thesis
    using assms by (simp add: consumer_print_sample_line_def time_prefix_eq consumer_fmt_sensor_eq rec_ok_length)
qed

end
