(* ===== verification/Consumer_Loop.thy ===== *)
theory Consumer_Loop
  imports Consumer
begin

text \<open>
  The rest of \<open>tasks/task_consumer.c\<close>: taking records out of the log, handling messages, the stall
  warning, and one pass of the task's loop. What the kernel answers in one pass is the record
  \<open>consumer_env\<close>: the readings for the message, the answers for each batch of the drain loop, the
  tick counts, the producer's sample count and the clock.
\<close>

section \<open>The code\<close>

definition consumer_process_record ::
  "sensor_record_t \<Rightarrow> consumer_state_t \<times> 'q board \<Rightarrow> (consumer_state_t \<times> 'q board) option" where
  "consumer_process_record record sb =
     (let (s, b) = sb;
          s = s\<lparr>received_count := received_count s + 1\<rparr>;
          s = s\<lparr>last_seq := seq record\<rparr>;
          s = s\<lparr>lost := seq record - received_count s\<rparr>;
          b = (if received_count s mod APP_HEARTBEAT_SAMPLES = 0
               then b\<lparr>b_gpio := gpio_drv_led_toggle (b_gpio b)\<rparr> else b);
          print_this_one = (stream_enabled s \<and> (\<not> stream_slow s \<or> seq record mod APP_SLOW_STREAM_DIVIDER = 0))
      in if print_this_one
         then do {
           u \<leftarrow> consumer_print_sample_line record (b_uart b);
           Some (s, b\<lparr>b_uart := u\<rparr>)
         }
         else Some (s, b))"

text \<open>
  The loop over the batches: \<open>envs\<close> holds the kernel's answers for each round that is left, and
  \<open>batch\<close> is the array on the stack. The result is what \<open>consumer_drain_log\<close> returns.
\<close>

fun consumer_drain_from ::
  "u32 \<Rightarrow> log_env list \<Rightarrow> sensor_record_t list \<Rightarrow> consumer_state_t \<times> 'q board
     \<Rightarrow> (bool \<times> consumer_state_t \<times> 'q board) option" where
  "consumer_drain_from lock_wait [] batch sb = Some (True, sb)"
| "consumer_drain_from lock_wait (env # envs) batch (s, b) = do {
     (ok, out, count, l) \<leftarrow> sensor_log_read env (Some batch) APP_LOG_READ_BATCH lock_wait (Some 0) (b_log b);
     batch \<leftarrow> out;
     batch_count \<leftarrow> count;
     let b = b\<lparr>b_log := l\<rparr>;
     if \<not> ok then Some (True, s\<lparr>log_lock_timeouts := log_lock_timeouts s + 1\<rparr>, b)
     else do {
       sb \<leftarrow> for_each (\<lambda>idx sb. do { r \<leftarrow> arr_get batch idx; consumer_process_record r sb })
              [0..<unat batch_count] (s, b);
       if batch_count < APP_LOG_READ_BATCH then Some (False, sb)
       else consumer_drain_from lock_wait envs batch sb
     }
   }"

definition consumer_drain_log ::
  "(u32 \<Rightarrow> u32) \<Rightarrow> (nat \<Rightarrow> log_env) \<Rightarrow> consumer_state_t \<times> 'q board \<Rightarrow> (bool \<times> consumer_state_t \<times> 'q board) option" where
  "consumer_drain_log ms_to_ticks envs sb =
     (if drain_paused (fst sb) then Some (False, sb)
      else consumer_drain_from (ms_to_ticks APP_LOG_READ_WAIT_MS)
             (map envs [0..<unat APP_LOG_DRAIN_BATCHES_MAX])
             (replicate (unat APP_LOG_READ_BATCH) zero_record) sb)"

definition consumer_handle_msg ::
  "(u32 \<Rightarrow> u32) \<Rightarrow> consumer_view \<Rightarrow> consumer_msg_t \<Rightarrow> consumer_state_t \<times> 'q board
     \<Rightarrow> (consumer_state_t \<times> 'q board) option" where
  "consumer_handle_msg ms_to_ticks v msg sb =
     (let (s, b) = sb in case msg_id msg of
        CONSUMER_MSG_DATA_READY \<Rightarrow> Some (s, b)
      | CONSUMER_MSG_REPORT \<Rightarrow> do { b \<leftarrow> consumer_print_report ms_to_ticks v b; Some (s, b) }
      | CONSUMER_MSG_STREAM_TOGGLE \<Rightarrow> do {
          let s = s\<lparr>stream_enabled := \<not> stream_enabled s\<rparr>;
          u \<leftarrow> console_printf ''telemetry stream %s\<newline>'' [Str (if stream_enabled s then ''ON'' else ''OFF'')] (b_uart b);
          Some (s, b\<lparr>b_uart := u\<rparr>)
        }
      | CONSUMER_MSG_RATE_TOGGLE \<Rightarrow> do {
          let s = s\<lparr>stream_slow := \<not> stream_slow s\<rparr>;
          u \<leftarrow> console_printf ''stream rate: %s\<newline>'' [Str (if stream_slow s then ''slow'' else ''every sample'')] (b_uart b);
          Some (s, b\<lparr>b_uart := u\<rparr>)
        }
      | CONSUMER_MSG_PAUSE_TOGGLE \<Rightarrow> do {
          let s = s\<lparr>drain_paused := \<not> drain_paused s\<rparr>;
          u \<leftarrow> console_printf ''log reading %s\<newline>''
                 [Str (if drain_paused s then ''PAUSED - samples accumulate in the log'' else ''RESUMED'')] (b_uart b);
          Some (s, b\<lparr>b_uart := u\<rparr>)
        }
      | CONSUMER_MSG_PRINT_NEWEST \<Rightarrow> do { b \<leftarrow> consumer_print_newest ms_to_ticks v b; Some (s, b) }
      | CONSUMER_MSG_STATS \<Rightarrow> do { b \<leftarrow> consumer_print_stats ms_to_ticks v s b; Some (s, b) }
      | CONSUMER_MSG_HELP \<Rightarrow> do { u \<leftarrow> consumer_print_help (b_uart b); Some (s, b\<lparr>b_uart := u\<rparr>) }
      | CONSUMER_MSG_UNKNOWN_KEY \<Rightarrow> do {
          u \<leftarrow> console_printf ''unknown command '%c', 'h' for help\<newline>'' [Chr (msg_key msg)] (b_uart b);
          Some (s, b\<lparr>b_uart := u\<rparr>)
        }
      | CONSUMER_MSG_WDT_TEST \<Rightarrow> do { b \<leftarrow> consumer_run_wdt_test v (msg_key msg) b; Some (s, b) })"

text \<open>The clock is read only for the warning.\<close>

definition consumer_check_stall ::
  "(u32 \<Rightarrow> u32) \<Rightarrow> u32 \<Rightarrow> u32 \<Rightarrow> u64 \<Rightarrow> consumer_state_t \<times> 'q board \<Rightarrow> (consumer_state_t \<times> 'q board) option" where
  "consumer_check_stall ms_to_ticks now_tick producer_samples now_us sb =
     (let (s, b) = sb; stall_ticks = ms_to_ticks APP_STALL_WARN_MS
      in if producer_samples \<noteq> last_producer_samples s
         then Some (s\<lparr>last_producer_samples := producer_samples, last_progress_tick := now_tick,
                      stall_reported := False\<rparr>, b)
         else if \<not> stall_reported s \<and> now_tick - last_progress_tick s \<ge> stall_ticks
         then do {
           u \<leftarrow> consumer_print_time_prefix now_us (b_uart b);
           u \<leftarrow> console_printf ''WARN: producer has taken no sample for %u ms (last #%lu)\<newline>''
                  [UInt APP_STALL_WARN_MS, UInt producer_samples] u;
           Some (s\<lparr>stall_reported := True\<rparr>, b\<lparr>b_uart := u\<rparr>)
         }
         else Some (s, b))"

text \<open>Waiting for a message; \<open>None\<close> stands for a queue that was never created.\<close>

definition consumer_receive ::
  "'q rtos_queue \<Rightarrow> u32 \<Rightarrow> consumer_state_t \<times> 'q board \<Rightarrow> (consumer_msg_t option \<times> consumer_state_t \<times> 'q board) option" where
  "consumer_receive ops wait sb = do {
     let (s, b) = sb;
     q \<leftarrow> b_queue b;
     let (msg, q) = xQueueReceive ops wait q;
     let b = b\<lparr>b_queue := Some q\<rparr>;
     if msg \<noteq> None
     then let queue_depth = uxQueueMessagesWaiting ops q + 1
          in Some (msg, if queue_depth > queue_depth_peak s then s\<lparr>queue_depth_peak := queue_depth\<rparr> else s, b)
     else Some (None, s, b)
   }"

text \<open>What one pass of the loop is told: the answers of its parts.\<close>

record consumer_env =
  c_view :: consumer_view
  c_drain :: "nat \<Rightarrow> log_env"
  c_now_tick :: u32
  c_samples :: u32
  c_now_us :: u64
  c_checkin_tick :: u32

definition consumer_pass ::
  "'q rtos_queue \<Rightarrow> (u32 \<Rightarrow> u32) \<Rightarrow> consumer_env \<Rightarrow> bool \<times> consumer_state_t \<times> 'q board
     \<Rightarrow> (bool \<times> consumer_state_t \<times> 'q board) option" where
  "consumer_pass ops ms_to_ticks env st = do {
     let (backlog_pending, sb) = st;
     (msg, sb) \<leftarrow> consumer_receive ops (if backlog_pending then 0 else ms_to_ticks APP_CONSUMER_POLL_MS) sb;
     sb \<leftarrow> (case msg of None \<Rightarrow> Some sb | Some m \<Rightarrow> consumer_handle_msg ms_to_ticks (c_view env) m sb);
     (backlog_pending, sb) \<leftarrow> consumer_drain_log ms_to_ticks (c_drain env) sb;
     (s, b) \<leftarrow> consumer_check_stall ms_to_ticks (c_now_tick env) (c_samples env) (c_now_us env) sb;
     w \<leftarrow> task_watchdog_checkin (c_checkin_tick env) WDOG_CLIENT_CONSUMER (b_wdog b);
     Some (backlog_pending, s, b\<lparr>b_wdog := w\<rparr>)
   }"

text \<open>What the task does before its loop, and its creation.\<close>

definition consumer_begin :: "producer_stats_t \<Rightarrow> u32 \<Rightarrow> consumer_state_t \<times> 'q board \<Rightarrow> (consumer_state_t \<times> 'q board) option" where
  "consumer_begin prod_stats now_tick sb = do {
     let (s, b) = sb;
     u \<leftarrow> console_printf ''scheduler running, sample period %lu us\<newline>'' [UInt (timer_period_us prod_stats)] (b_uart b);
     u \<leftarrow> consumer_print_help u;
     Some (s\<lparr>last_progress_tick := now_tick\<rparr>, b\<lparr>b_uart := u\<rparr>)
   }"

definition task_consumer_create ::
  "'q option \<Rightarrow> bool \<Rightarrow> consumer_state_t \<times> 'q board \<Rightarrow> bool \<times> consumer_state_t \<times> 'q board" where
  "task_consumer_create xQueueCreate xTaskCreate_ok sb =
     (let (s, b) = sb;
          s = s\<lparr>stream_enabled := True, stream_slow := False, drain_paused := False\<rparr>;
          b = b\<lparr>b_queue := xQueueCreate\<rparr>
      in if xQueueCreate = None then (False, s, b) else (xTaskCreate_ok, s, b))"

section \<open>Processing records\<close>

text \<open>One record: the counters, the LED, and the line printed if there is one.\<close>

definition counted :: "sensor_record_t \<Rightarrow> consumer_state_t \<Rightarrow> consumer_state_t" where
  "counted r s = s\<lparr>received_count := received_count s + 1, last_seq := seq r,
     lost := seq r - (received_count s + 1)\<rparr>"

definition blinked :: "consumer_state_t \<Rightarrow> gpio_state \<Rightarrow> gpio_state" where
  "blinked s g = (if (received_count s + 1) mod APP_HEARTBEAT_SAMPLES = 0 then gpio_drv_led_toggle g else g)"

definition streamed :: "consumer_state_t \<Rightarrow> sensor_record_t \<Rightarrow> bool" where
  "streamed s r \<longleftrightarrow> stream_enabled s \<and> (\<not> stream_slow s \<or> seq r mod APP_SLOW_STREAM_DIVIDER = 0)"

definition line_of :: "consumer_state_t \<Rightarrow> sensor_record_t \<Rightarrow> string" where
  "line_of s r = (if streamed s r then time_text (capture_us r) @ sample_text r else '''')"

definition lines_of :: "consumer_state_t \<Rightarrow> sensor_record_t list \<Rightarrow> string" where
  "lines_of s rs = concat (map (line_of s) rs)"

fun leds_after :: "consumer_state_t \<Rightarrow> sensor_record_t list \<Rightarrow> gpio_state \<Rightarrow> gpio_state" where
  "leds_after s [] g = g"
| "leds_after s (r # rs) g = leds_after (counted r s) rs (blinked s g)"

definition counted_all :: "sensor_record_t list \<Rightarrow> consumer_state_t \<Rightarrow> consumer_state_t" where
  "counted_all rs s = fold counted rs s"

lemma counted_simps [simp]:
  "stream_enabled (counted r s) = stream_enabled s" "stream_slow (counted r s) = stream_slow s"
  "drain_paused (counted r s) = drain_paused s" "stall_reported (counted r s) = stall_reported s"
  "log_lock_timeouts (counted r s) = log_lock_timeouts s" "queue_depth_peak (counted r s) = queue_depth_peak s"
  "last_producer_samples (counted r s) = last_producer_samples s"
  "last_progress_tick (counted r s) = last_progress_tick s"
  "received_count (counted r s) = received_count s + 1" "last_seq (counted r s) = seq r"
  "lost (counted r s) = seq r - (received_count s + 1)"
  "line_of (counted r s) = line_of s"
  by (simp_all add: counted_def line_of_def streamed_def fun_eq_iff)

lemma counted_all_simps [simp]:
  "counted_all [] s = s" "counted_all (r # rs) s = counted_all rs (counted r s)"
  "counted_all (rs @ rs') s = counted_all rs' (counted_all rs s)"
  by (simp_all add: counted_all_def)

lemma counted_all_fields [simp]:
  "stream_enabled (counted_all rs s) = stream_enabled s" "stream_slow (counted_all rs s) = stream_slow s"
  "drain_paused (counted_all rs s) = drain_paused s" "stall_reported (counted_all rs s) = stall_reported s"
  "log_lock_timeouts (counted_all rs s) = log_lock_timeouts s"
  "queue_depth_peak (counted_all rs s) = queue_depth_peak s"
  "last_producer_samples (counted_all rs s) = last_producer_samples s"
  "last_progress_tick (counted_all rs s) = last_progress_tick s"
  "received_count (counted_all rs s) = received_count s + of_nat (length rs)"
  "line_of (counted_all rs s) = line_of s"
  by (induction rs arbitrary: s) simp_all

lemma counted_all_last:
  "rs \<noteq> [] \<Longrightarrow> last_seq (counted_all rs s) = seq (last rs) \<and>
     lost (counted_all rs s) = seq (last rs) - received_count (counted_all rs s)"
proof (induction rs arbitrary: s)
  case Nil
  then show ?case by simp
next
  case (Cons r rs)
  then show ?case by (cases "rs = []") simp_all
qed

lemma leds_after_append: "leds_after s (rs @ rs') g = leds_after (counted_all rs s) rs' (leds_after s rs g)"
  by (induction rs arbitrary: s g) simp_all

lemma lines_of_simps [simp]:
  "lines_of s [] = ''''" "lines_of s (r # rs) = line_of s r @ lines_of s rs"
  "lines_of s (rs @ rs') = lines_of s rs @ lines_of s rs'"
  "lines_of (counted_all xs s) = lines_of s" "lines_of (counted r s) = lines_of s"
  by (simp_all add: lines_of_def fun_eq_iff)

lemma process_record_eq:
  assumes "rec_ok r"
  shows "consumer_process_record r (s, b) =
    Some (counted r s, b\<lparr>b_gpio := blinked s (b_gpio b), b_uart := console_text (line_of s r) (b_uart b)\<rparr>)"
  by (simp add: consumer_process_record_def Let_def sample_line_eq [OF assms] counted_def blinked_def
      line_of_def streamed_def) blast

definition processed :: "sensor_record_t list \<Rightarrow> consumer_state_t \<times> 'q board \<Rightarrow> consumer_state_t \<times> 'q board" where
  "processed rs sb = (let (s, b) = sb in
     (counted_all rs s,
      b\<lparr>b_gpio := leds_after s rs (b_gpio b), b_uart := console_text (lines_of s rs) (b_uart b)\<rparr>))"

lemma processed_Nil [simp]: "processed [] sb = sb"
  by (simp add: processed_def split_def)

lemma processed_append: "processed (rs @ rs') sb = processed rs' (processed rs sb)"
  by (simp add: processed_def split_def leds_after_append Let_def)

lemma process_batch_eq:
  assumes "\<forall>r\<in>set (take n batch). rec_ok r" "n \<le> length batch"
  shows "for_each (\<lambda>idx sb. do { r \<leftarrow> arr_get batch idx; consumer_process_record r sb }) [0..<n] sb =
    Some (processed (take n batch) sb)"
  using assms
proof (induction n)
  case 0
  then show ?case by simp
next
  case (Suc n)
  let ?body = "\<lambda>idx sb. do { r \<leftarrow> arr_get batch idx; consumer_process_record r sb }"
  have tk: "take (Suc n) batch = take n batch @ [batch ! n]"
    using Suc.prems(2) by (simp add: take_Suc_conv_app_nth)
  have IH: "for_each ?body [0..<n] sb = Some (processed (take n batch) sb)"
    using Suc by (simp add: tk)
  have "rec_ok (batch ! n)" using Suc.prems(1) by (simp add: tk)
  then have one: "?body n sb' = Some (processed [batch ! n] sb')" for sb' :: "consumer_state_t \<times> 'a board"
    using Suc.prems(2) by (cases sb') (simp add: process_record_eq processed_def)
  show ?case
    by (simp add: for_each_append IH tk processed_append one [simplified])
qed

section \<open>Draining the log\<close>

text \<open>How many batches get the mutex before one does not, or before the loop ends.\<close>

definition grants :: "u32 \<Rightarrow> log_env list \<Rightarrow> nat" where
  "grants w envs = length (takeWhile (\<lambda>env. xSemaphoreTake env w) envs)"

lemma grants_simps [simp]:
  "grants w [] = 0" "grants w (env # envs) = (if xSemaphoreTake env w then Suc (grants w envs) else 0)"
  by (simp_all add: grants_def)

definition timed_out :: "bool \<Rightarrow> consumer_state_t \<times> 'q board \<Rightarrow> consumer_state_t \<times> 'q board" where
  "timed_out c sb = (if c then ((fst sb)\<lparr>log_lock_timeouts := log_lock_timeouts (fst sb) + 1\<rparr>, snd sb) else sb)"

definition popped_to :: "nat \<Rightarrow> sensor_log_state \<Rightarrow> sensor_log_state \<Rightarrow> bool" where
  "popped_to n l l' \<longleftrightarrow> log_ok l' \<and> log_contents l' = drop n (log_contents l) \<and>
     capacity (s_ring l') = capacity (s_ring l) \<and> overwritten (s_ring l') = overwritten (s_ring l)"

lemma popped_to_trans: "popped_to m l l' \<Longrightarrow> popped_to n l' l'' \<Longrightarrow> popped_to (n + m) l l''"
  by (simp add: popped_to_def drop_drop)

lemma read_batch_eq:
  assumes "log_ok l" "length batch = 16"
  shows "sensor_log_read env (Some batch) APP_LOG_READ_BATCH w (Some 0) l =
    (if xSemaphoreTake env w
     then Some (True, Some (take 16 (log_contents l) @ drop (min 16 (length (log_contents l))) batch),
                Some (of_nat (min 16 (length (log_contents l)))),
                log_locked env w (l\<lparr>s_ring := pop_next 16 (s_ring l)\<rparr>))
     else Some (False, Some batch, Some 0, log_timeout w l))"
    and "popped_to 16 l (log_locked env w (l\<lparr>s_ring := pop_next 16 (s_ring l)\<rparr>))"
    and "popped_to 0 l (log_timeout w l)"
proof -
  have wf: "log_wf l" using assms(1) by simp
  show "sensor_log_read env (Some batch) APP_LOG_READ_BATCH w (Some 0) l =
    (if xSemaphoreTake env w
     then Some (True, Some (take 16 (log_contents l) @ drop (min 16 (length (log_contents l))) batch),
                Some (of_nat (min 16 (length (log_contents l)))),
                log_locked env w (l\<lparr>s_ring := pop_next 16 (s_ring l)\<rparr>))
     else Some (False, Some batch, Some 0, log_timeout w l))"
    using assms(2) by (subst sensor_log_read_eq [OF wf]) (simp_all add: APP_LOG_READ_BATCH_def)
  show "popped_to 16 l (log_locked env w (l\<lparr>s_ring := pop_next 16 (s_ring l)\<rparr>))"
    using assms(1) wf
    by (simp add: popped_to_def log_ok_pop log_contents_def log_wf_def pop_next_contents)
      (simp add: pop_next_def)
  show "popped_to 0 l (log_timeout w l)"
    using assms(1) by (simp add: popped_to_def log_contents_def)
qed

lemma batch_count: "unat (of_nat (min 16 k) :: u32) = min 16 k"
  by (rule unat_of_nat_u32) simp

lemma batch_short: "of_nat (min 16 k) < APP_LOG_READ_BATCH \<longleftrightarrow> k < 16"
  by (simp only: word_less_nat_alt batch_count APP_LOG_READ_BATCH_def) auto

text \<open>One batch that gets the mutex: what is read, and what is left to do.\<close>

lemma drain_batch:
  assumes "log_ok (b_log b)" "length batch = 16" "xSemaphoreTake env w" "xs = log_contents (b_log b)"
  obtains l out where "popped_to 16 (b_log b) l" "length out = 16" "take (min 16 (length xs)) out = take 16 xs"
    "sensor_log_read env (Some batch) APP_LOG_READ_BATCH w (Some 0) (b_log b) =
       Some (True, Some out, Some (of_nat (min 16 (length xs))), l)"
    "consumer_drain_from w (env # envs) batch (s, b) =
      (if length xs < 16 then Some (False, processed (take 16 xs) (s, b\<lparr>b_log := l\<rparr>))
       else consumer_drain_from w envs out (processed (take 16 xs) (s, b\<lparr>b_log := l\<rparr>)))"
proof -
  define l where "l = log_locked env w ((b_log b)\<lparr>s_ring := pop_next 16 (s_ring (b_log b))\<rparr>)"
  define out where "out = take 16 xs @ drop (min 16 (length xs)) batch"
  note read = read_batch_eq(1,2) [OF assms(1,2), of env w]
  have r: "sensor_log_read env (Some batch) APP_LOG_READ_BATCH w (Some 0) (b_log b) =
      Some (True, Some out, Some (of_nat (min 16 (length xs))), l)"
    using read(1) assms(3) by (simp add: l_def out_def assms(4))
  have out: "length out = 16" "take (min 16 (length xs)) out = take 16 xs"
    using assms(2) by (simp_all add: out_def min_def)
  have recs: "\<forall>r\<in>set (take (min 16 (length xs)) out). rec_ok r"
    using log_ok_contents [OF assms(1)] unfolding out(2) by (auto simp: assms(4) dest: in_set_takeD)
  have all_done: "for_each (\<lambda>idx sb. do { r \<leftarrow> arr_get out idx; consumer_process_record r sb })
      [0..<min 16 (length xs)] (s, b\<lparr>b_log := l\<rparr>) = Some (processed (take 16 xs) (s, b\<lparr>b_log := l\<rparr>))"
    using process_batch_eq [OF recs, of "(s, b\<lparr>b_log := l\<rparr>)"] by (simp add: out)
  show thesis
    by (rule that [OF read(2) [folded l_def] out r])
      (simp only: consumer_drain_from.simps r if_True bind.bind_lunit prod.case Let_def batch_count all_done batch_short
        not_True_eq_False if_False)
qed

lemma drain_from_eq:
  assumes "log_ok (b_log b)" "length batch = 16"
    and "xs = log_contents (b_log b)" "k = grants w envs"
  shows "\<exists>l. consumer_drain_from w envs batch (s, b) =
      Some (16 * k \<le> length xs,
        timed_out (16 * k \<le> length xs \<and> k < length envs) (processed (take (16 * k) xs) (s, b\<lparr>b_log := l\<rparr>))) \<and>
    popped_to (16 * k) (b_log b) l"
  using assms
proof (induction envs arbitrary: s b batch xs k)
  case Nil
  then show ?case
    by (intro exI [of _ "b_log b"]) (simp add: timed_out_def popped_to_def)
next
  case (Cons env envs)
  note ok = Cons.prems(1) and len = Cons.prems(2) and xs = Cons.prems(3) and k = Cons.prems(4)
  note read = read_batch_eq [OF ok len]
  show ?case
  proof (cases "xSemaphoreTake env w")
    case False
    then have "k = 0" by (simp add: k)
    then show ?thesis
      using False read(3) [of w]
      by (intro exI [of _ "log_timeout w (b_log b)"]) (simp add: read(1) timed_out_def)
  next
    case True
    obtain l batch' where l: "popped_to 16 (b_log b) l" and batch': "length batch' = 16"
      and step: "consumer_drain_from w (env # envs) batch (s, b) =
        (if length xs < 16 then Some (False, processed (take 16 xs) (s, b\<lparr>b_log := l\<rparr>))
         else consumer_drain_from w envs batch' (processed (take 16 xs) (s, b\<lparr>b_log := l\<rparr>)))"
      using ok len True xs by (rule drain_batch)
    show ?thesis
    proof (cases "length xs < 16")
      case True
      then have "log_contents l = []" "log_contents (b_log b) = take (16 * k) xs"
        using l xs k \<open>xSemaphoreTake env w\<close> by (simp_all add: popped_to_def)
      then show ?thesis
        using True l k \<open>xSemaphoreTake env w\<close> xs unfolding step
        by (intro exI [of _ l]) (simp add: timed_out_def popped_to_def)
    next
      case False
      obtain s1 b1 where sb1: "processed (take 16 xs) (s, b\<lparr>b_log := l\<rparr>) = (s1, b1)" by (cases "processed (take 16 xs) (s, b\<lparr>b_log := l\<rparr>)")
      have b1: "b_log b1 = l" using sb1 by (auto simp: processed_def)
      have ok1: "log_ok (b_log b1)" using l by (simp add: b1 popped_to_def)
      obtain l' where l': "consumer_drain_from w envs batch' (s1, b1) =
          Some (16 * grants w envs \<le> length (drop 16 xs),
            timed_out (16 * grants w envs \<le> length (drop 16 xs) \<and> grants w envs < length envs)
              (processed (take (16 * grants w envs) (drop 16 xs)) (s1, b1\<lparr>b_log := l'\<rparr>)))"
        "popped_to (16 * grants w envs) (b_log b1) l'"
        using Cons.IH [OF ok1 batch' _ refl, of "drop 16 xs" s1] l xs by (auto simp: b1 popped_to_def)
      have kk: "k = Suc (grants w envs)" using k \<open>xSemaphoreTake env w\<close> by simp
      have sb2: "(s1, b1\<lparr>b_log := l'\<rparr>) = processed (take 16 xs) (s, b\<lparr>b_log := l'\<rparr>)"
        using sb1 by (auto simp: processed_def)
      have tk: "take (16 * k) xs = take 16 xs @ take (16 * grants w envs) (drop 16 xs)"
        by (simp only: kk mult_Suc_right take_add)
      have le: "16 * grants w envs \<le> length (drop 16 xs) \<longleftrightarrow> 16 * k \<le> length xs"
        using False by (auto simp: kk)
      have pop: "popped_to (16 * k) (b_log b) l'"
        using popped_to_trans [OF l l'(2) [unfolded b1]] by (simp add: kk add.commute)
      show ?thesis
        using False l'(1) pop unfolding step sb1 tk processed_append le
        by (intro exI [of _ l']) (simp add: sb2 [symmetric] kk)
    qed
  qed
qed

lemma drain_batches: "map envs [0..<unat APP_LOG_DRAIN_BATCHES_MAX] = map envs [0..<4]"
  by (simp add: APP_LOG_DRAIN_BATCHES_MAX_def)

lemma grants_le: "grants w envs \<le> length envs"
  by (simp add: grants_def length_takeWhile_le)

lemma consumer_drain_log_eq:
  assumes "log_ok (b_log b)" and "\<not> drain_paused s"
    and "xs = log_contents (b_log b)" and "k = grants (f APP_LOG_READ_WAIT_MS) (map envs [0..<4])"
  shows "\<exists>l. consumer_drain_log f envs (s, b) =
      Some (16 * k \<le> length xs,
        timed_out (16 * k \<le> length xs \<and> k < 4) (processed (take (16 * k) xs) (s, b\<lparr>b_log := l\<rparr>))) \<and>
    popped_to (16 * k) (b_log b) l"
  using drain_from_eq [OF assms(1), of "replicate (unat APP_LOG_READ_BATCH) zero_record" xs k
      "f APP_LOG_READ_WAIT_MS" "map envs [0..<4]" s] assms(2-4)
  by (simp add: consumer_drain_log_def drain_batches APP_LOG_READ_BATCH_def del: upt_rec_numeral)

section \<open>Properties\<close>

text \<open>
  C11: Draining processes exactly the oldest records of the log, in order and each once: with the
  mutex obtained for the first \<open>k\<close> of the four batches the first \<open>16 * k\<close> of them (all four:
  64), or all if there are fewer. It asks for another pass unless it emptied the log, and what is
  left stays in the log. A batch that does not get the mutex is counted as a timeout. The counters
  follow the records taken, the terminal shows exactly the lines of those the stream mode selects,
  and no array is left. While draining is paused nothing happens.
\<close>

theorem consumer_drain_correct:
  assumes "log_ok (b_log b)" and "xs = log_contents (b_log b)"
    and "k = (if drain_paused s then 0 else grants (f APP_LOG_READ_WAIT_MS) (map envs [0..<4]))"
    and "s_uart_ready (b_uart b)"
  shows "\<exists>more s' b'. consumer_drain_log f envs (s, b) = Some (more, s', b') \<and>
    (more \<longleftrightarrow> \<not> drain_paused s \<and> 16 * k \<le> length xs) \<and>
    (\<not> more \<and> \<not> drain_paused s \<longrightarrow> log_contents (b_log b') = []) \<and>
    log_contents (b_log b') = drop (16 * k) xs \<and> log_ok (b_log b') \<and>
    received_count s' = received_count s + of_nat (length (take (16 * k) xs)) \<and>
    (take (16 * k) xs \<noteq> [] \<longrightarrow> last_seq s' = seq (last (take (16 * k) xs)) \<and> lost s' = last_seq s' - received_count s') \<and>
    log_lock_timeouts s' = log_lock_timeouts s + (if more \<and> k < 4 then 1 else 0) \<and>
    overwritten (s_ring (b_log b')) = overwritten (s_ring (b_log b)) \<and>
    sent (b_uart b') = sent (b_uart b) @ crlf (lines_of s (take (16 * k) xs))"
proof (cases "drain_paused s")
  case True
  then show ?thesis
    using assms by (intro exI [of _ False] exI [of _ s] exI [of _ b]) (simp add: consumer_drain_log_def)
next
  case False
  define ys where "ys = take (16 * k) xs"
  have k: "k = grants (f APP_LOG_READ_WAIT_MS) (map envs [0..<4])" using assms(3) False by simp
  obtain l where drain: "consumer_drain_log f envs (s, b) =
      Some (16 * k \<le> length xs,
        timed_out (16 * k \<le> length xs \<and> k < 4) (processed ys (s, b\<lparr>b_log := l\<rparr>)))"
    and l: "popped_to (16 * k) (b_log b) l"
    using consumer_drain_log_eq [where f = f and envs = envs, OF assms(1) False assms(2) k] unfolding ys_def by blast
  have last: "ys \<noteq> [] \<longrightarrow> last_seq (counted_all ys s) = seq (last ys) \<and>
      lost (counted_all ys s) = last_seq (counted_all ys s) - received_count (counted_all ys s)"
    using counted_all_last [of ys s] by auto
  show ?thesis
    unfolding drain ys_def [symmetric]
    using last l False assms(2,4)
    by (cases "16 * k \<le> length xs \<and> k < 4")
      (auto simp: timed_out_def processed_def popped_to_def sent_console_text)
qed

lemma upt_4: "[0..<4] = [0, 1, 2, 3]"
  by (simp add: upt_rec)

text \<open>The consumer of the examples, and a log with one record.\<close>

definition consumer_idle :: consumer_state_t where
  "consumer_idle = \<lparr>stream_enabled = True, stream_slow = False, drain_paused = False, stall_reported = False,
     received_count = 0, last_seq = 0, lost = 0, log_lock_timeouts = 0, queue_depth_peak = 0,
     last_producer_samples = 0, last_progress_tick = 0\<rparr>"

definition one_waiting :: "consumer_msg_t list board" where
  "one_waiting = demo_board\<lparr>b_log := demo_log\<lparr>s_ring := push_next (make_record 1) ring_empty2\<rparr>\<rparr>"

lemma demo_log_ok [simp]: "log_ok demo_log"
  by (simp add: log_ok_def) (simp add: demo_log_def ring_empty2_def ring_storage_def list_all_iff mutex_free_def)

lemma make_record_ok [simp]: "rec_ok (make_record n)"
  by (simp add: make_record_def rec_ok_length zero_sample_def)

lemma one_waiting_log: "log_ok (b_log one_waiting)" "log_contents (b_log one_waiting) = [make_record 1]"
proof -
  have ring: "s_ring demo_log = ring_empty2" by (simp add: demo_log_def)
  then have wf: "ring_wf ring_empty2" "ring_contents ring_empty2 = []"
    using demo_log_wf by (simp_all add: log_wf_def log_contents_def)
  show "log_ok (b_log one_waiting)"
    using log_ok_push [OF demo_log_ok make_record_ok [of 1]] by (simp add: one_waiting_def ring)
  have cap: "unat (capacity ring_empty2) = 2" by (simp add: ring_empty2_def)
  show "log_contents (b_log one_waiting) = [make_record 1]"
    using wf by (simp add: one_waiting_def log_contents_def push_next_contents cap)
qed

lemma consumer_drain_correct_witness:
  "\<exists>s' b'. consumer_drain_log (\<lambda>ms. ms) (\<lambda>i. if i = 0 then env_ok else env_busy) (consumer_idle, one_waiting)
       = Some (False, s', b') \<and>
    received_count s' = 1 \<and> last_seq s' = 1 \<and> lost s' = 0 \<and> log_contents (b_log b') = []"
proof -
  let ?envs = "\<lambda>i::nat. if i = 0 then env_ok else env_busy"
  have k: "1 = (if drain_paused consumer_idle then 0 else grants APP_LOG_READ_WAIT_MS (map ?envs [0..<4]))"
    by (simp add: consumer_idle_def env_ok_def env_busy_def upt_4)
  have up: "s_uart_ready (b_uart one_waiting)" by (simp add: one_waiting_def)
  show ?thesis
    using consumer_drain_correct [where f = "\<lambda>ms. ms" and envs = ?envs, OF one_waiting_log(1) refl k up]
    by (auto simp: one_waiting_log(2) consumer_idle_def make_record_def)
qed

text \<open>The LED after a run of records, from the counter's value before it.\<close>

lemma blinked_simps [simp]:
  "s_gpio_ready (blinked s g) = s_gpio_ready g" "s_btn_state (blinked s g) = s_btn_state g"
  by (simp_all add: blinked_def gpio_drv_led_toggle_def gpio_drv_led_set_def gpio_call_def)

lemma leds_after_simps [simp]:
  "s_gpio_ready (leds_after s rs g) = s_gpio_ready g" "s_btn_state (leds_after s rs g) = s_btn_state g"
  by (induction rs arbitrary: s g) simp_all

lemma blinked_led:
  assumes "s_gpio_ready g" "unat (received_count s) + 1 < 4294967296"
  shows "s_led_on (blinked s g) = (s_led_on g \<noteq> (5 dvd (unat (received_count s) + 1)))"
proof -
  have "unat (received_count s + 1) = unat (received_count s) + 1" using assms(2) by (simp add: unat_u32_add)
  then have "unat ((received_count s + 1) mod APP_HEARTBEAT_SAMPLES) = (unat (received_count s) + 1) mod 5"
    by (simp add: unat_mod APP_HEARTBEAT_SAMPLES_def)
  then have "((received_count s + 1) mod APP_HEARTBEAT_SAMPLES = 0) = (5 dvd unat (received_count s) + 1)"
    by (metis unat_0_iff dvd_eq_mod_eq_0)
  then show ?thesis
    using assms(1) by (simp add: blinked_def gpio_drv_led_toggle_def gpio_drv_led_set_def gpio_call_def)
qed

lemma odd_div5_Suc: "odd (Suc n div 5) \<longleftrightarrow> (odd (n div 5) \<noteq> (5 dvd Suc n))" for n :: nat
proof (cases "5 dvd Suc n")
  case True
  then have "Suc n div 5 = Suc (n div 5)" by (auto simp: div_Suc dvd_eq_mod_eq_0)
  with True show ?thesis by simp
next
  case False
  then have "Suc n div 5 = n div 5" by (auto simp: div_Suc dvd_eq_mod_eq_0)
  with False show ?thesis by simp
qed

lemma leds_after_led:
  assumes "s_gpio_ready g" "unat (received_count s) + length rs < 4294967296"
  shows "s_led_on (leds_after s rs g) =
    (s_led_on g \<noteq> (odd ((unat (received_count s) + length rs) div 5) \<noteq> odd (unat (received_count s) div 5)))"
  using assms
proof (induction rs arbitrary: s g)
  case Nil
  then show ?case by simp
next
  case (Cons r rs)
  have cnt: "unat (received_count s + 1) = Suc (unat (received_count s))"
    using Cons.prems(2) by (simp add: unat_u32_add)
  have "s_led_on (leds_after (counted r s) rs (blinked s g)) =
      (s_led_on (blinked s g) \<noteq> (odd ((Suc (unat (received_count s)) + length rs) div 5) \<noteq> odd (Suc (unat (received_count s)) div 5)))"
    using Cons.IH [of "blinked s g" "counted r s"] Cons.prems by (simp add: cnt)
  then show ?case
    using blinked_led [of g s] Cons.prems odd_div5_Suc [of "unat (received_count s)"] by auto
qed

text \<open>
  C35: Processing \<open>n\<close> records one after the other (fewer than \<open>2 ^ 32\<close> since the start) counts
  them, remembers the last sequence number and how many of the numbers up to it never arrived,
  and toggles LD4 at every fifth, so that the LED shows whether \<open>n div 5\<close> is odd; exactly the
  records selected by the stream mode are printed, each as one whole line.
\<close>

theorem consumer_heartbeat:
  assumes "s_gpio_ready (b_gpio b)" "s_uart_ready (b_uart b)" "list_all rec_ok rs"
    and "received_count s = 0" "length rs < 4294967296" "rs \<noteq> []"
  shows "\<exists>s' b'. for_each consumer_process_record rs (s, b) = Some (s', b') \<and>
    unat (received_count s') = length rs \<and> last_seq s' = seq (last rs) \<and>
    lost s' = seq (last rs) - of_nat (length rs) \<and>
    s_led_on (b_gpio b') = (s_led_on (b_gpio b) \<noteq> odd (length rs div 5)) \<and>
    sent (b_uart b') = sent (b_uart b) @
      crlf (concat (map (\<lambda>r. time_text (capture_us r) @ sample_text r) (filter (streamed s) rs)))"
proof -
  have run: "for_each consumer_process_record rs sb = Some (processed rs sb)"
    if "list_all rec_ok rs" for rs and sb :: "consumer_state_t \<times> 'a board"
    using that
  proof (induction rs arbitrary: sb)
    case Nil
    then show ?case by simp
  next
    case (Cons r rs)
    have "consumer_process_record r sb = Some (processed [r] sb)"
      using Cons.prems by (cases sb) (simp add: process_record_eq processed_def)
    then show ?case using Cons processed_append [of "[r]" rs sb] by simp
  qed
  have lines: "lines_of s rs = concat (map (\<lambda>r. time_text (capture_us r) @ sample_text r) (filter (streamed s) rs))"
    for rs by (induction rs) (simp_all add: line_of_def)
  show ?thesis
    using counted_all_last [OF assms(6), of s] leds_after_led [OF assms(1), of s rs] assms
    by (simp add: run processed_def sent_console_text lines unat_of_nat_u32)
qed

lemma consumer_heartbeat_witness:
  "\<exists>s' b'. for_each consumer_process_record (map make_record [1, 2, 4, 5, 7])
      (consumer_idle\<lparr>stream_slow := True\<rparr>, demo_board) = Some (s', b') \<and>
    received_count s' = 5 \<and> lost s' = 2 \<and> s_led_on (b_gpio b') = (\<not> s_led_on (b_gpio demo_board)) \<and>
    sent (b_uart b') = ''''"
proof -
  let ?rs = "map make_record [1, 2, 4, 5, 7]"
  have a: "s_gpio_ready (b_gpio demo_board)" "s_uart_ready (b_uart demo_board)" "list_all rec_ok ?rs"
      "received_count (consumer_idle\<lparr>stream_slow := True\<rparr>) = 0" "length ?rs < 4294967296" "?rs \<noteq> []"
    by (simp_all add: consumer_idle_def)
  have "filter (streamed (consumer_idle\<lparr>stream_slow := True\<rparr>)) ?rs = []"
    by (simp add: streamed_def consumer_idle_def make_record_def APP_SLOW_STREAM_DIVIDER_def)
  then show ?thesis
    using consumer_heartbeat [OF a]
    by (auto simp: make_record_def word_unat_eq_iff [of "received_count _"])
qed

section \<open>One pass of the loop\<close>

text \<open>The settings after a message, the hang it requests, and the messages that never come back.\<close>

definition msg_settings :: "consumer_msg_t \<Rightarrow> consumer_state_t \<Rightarrow> consumer_state_t" where
  "msg_settings m s =
     (case msg_id m of
        CONSUMER_MSG_STREAM_TOGGLE \<Rightarrow> s\<lparr>stream_enabled := \<not> stream_enabled s\<rparr>
      | CONSUMER_MSG_RATE_TOGGLE \<Rightarrow> s\<lparr>stream_slow := \<not> stream_slow s\<rparr>
      | CONSUMER_MSG_PAUSE_TOGGLE \<Rightarrow> s\<lparr>drain_paused := \<not> drain_paused s\<rparr>
      | _ \<Rightarrow> s)"

definition test_client :: "consumer_msg_t \<Rightarrow> wdog_client_t option" where
  "test_client m =
     (if msg_id m \<noteq> CONSUMER_MSG_WDT_TEST then None
      else if msg_key m = CHR ''1'' then Some WDOG_CLIENT_PRODUCER
      else if msg_key m = CHR ''2'' then Some WDOG_CLIENT_UI
      else if msg_key m = CHR ''3'' then Some WDOG_CLIENT_CONSUMER else None)"

definition msg_wdog :: "consumer_msg_t \<Rightarrow> wdog_state \<Rightarrow> wdog_state" where
  "msg_wdog m w =
     (case test_client m of None \<Rightarrow> w | Some c \<Rightarrow> client_update c (\<lambda>st. st\<lparr>hang_requested := True\<rparr>) w)"

definition msg_stops :: "consumer_view \<Rightarrow> uart_state \<Rightarrow> consumer_msg_t \<Rightarrow> bool" where
  "msg_stops v u m \<longleftrightarrow> msg_id m = CONSUMER_MSG_WDT_TEST \<and>
     (msg_key m = CHR ''4'' \<or>
      test_client m \<noteq> None \<and> uart_drv_wait_tx_idle (v_uart_bits v) (v_tx_status v) u = None)"

lemma test_client_count [simp]: "test_client m \<noteq> Some WDOG_CLIENT_COUNT"
  by (auto simp: test_client_def split: if_splits)

lemma msg_wdog_wf [wf_intros]: "wdog_wf w \<Longrightarrow> wdog_wf (msg_wdog m w)"
  by (auto simp: msg_wdog_def split: option.split intro!: client_update_wf)

text \<open>What a board becomes: text sent, and the log's ring as it was.\<close>

definition told :: "'q board \<Rightarrow> wdog_state \<Rightarrow> 'q board \<Rightarrow> bool" where
  "told b w b' \<longleftrightarrow> (\<exists>t l. b' = b\<lparr>b_uart := console_text t (b_uart b), b_log := l, b_wdog := w\<rparr> \<and>
     log_ok l \<and> s_ring l = s_ring (b_log b))"

lemma told_board_prints:
  assumes "board_prints b r"
  obtains b' where "r = Some b'" "told b (b_wdog b) b'"
proof -
  obtain t l where "r = Some (b\<lparr>b_uart := console_text t (b_uart b), b_log := l\<rparr>)" "log_ok l" "s_ring l = s_ring (b_log b)"
    using assms unfolding board_prints_from_def by blast
  then show thesis
    by (intro that) (simp, auto simp: told_def intro!: exI [of _ t] exI [of _ l])
qed

lemma told_prints:
  assumes "prints (b_uart b) r" "log_ok (b_log b)"
  obtains u where "r = Some u" "told b w (b\<lparr>b_uart := u, b_wdog := w\<rparr>)" "told b (b_wdog b) (b\<lparr>b_uart := u\<rparr>)"
proof -
  obtain t where t: "r = Some (console_text t (b_uart b))" using assms(1) by (rule printsE)
  show thesis
    by (rule that [OF t]) (auto simp: told_def assms(2) intro!: exI [of _ t] exI [of _ "b_log b"])
qed

lemma run_wdt_test_eq:
  assumes "log_ok (b_log b)" "wdog_wf (b_wdog b)" "msg_id m = CONSUMER_MSG_WDT_TEST"
  shows "if msg_stops v (b_uart b) m then consumer_run_wdt_test v (msg_key m) b = None
    else (\<exists>b'. consumer_run_wdt_test v (msg_key m) b = Some b' \<and> told b (msg_wdog m (b_wdog b)) b')"
proof (cases "msg_key m \<in> {CHR ''1'', CHR ''2'', CHR ''3'', CHR ''4''}")
  case False
  then have "test_client m = None" by (auto simp: test_client_def)
  with False assms show ?thesis
    by (auto simp: consumer_run_wdt_test_def msg_stops_def msg_wdog_def told_def
        intro!: exI [of _ "[]"] exI [of _ "b_log b"])
next
  case True
  define t where "t =
    (if msg_key m = CHR ''1'' then ''TEST: producer stuck in a busy loop\<newline>''
     else if msg_key m = CHR ''2'' then ''TEST: ui task blocked forever\<newline>''
     else if msg_key m = CHR ''3'' then ''TEST: consumer stuck in a busy loop\<newline>''
     else ''TEST: kernel interrupts masked, nothing runs any more\<newline>'') @
    (if wdt_drv_is_running (b_wdt b) then ''expect the watchdog to reset the board within a few seconds\<newline>''
     else ''SWDT is not running - this stays hung until the board is reset by hand\<newline>'')"
  have run: "consumer_run_wdt_test v (msg_key m) b = do {
      _ \<leftarrow> uart_drv_wait_tx_idle (v_uart_bits v) (v_tx_status v) (b_uart b);
      c \<leftarrow> test_client m;
      Some (b\<lparr>b_uart := console_text t (b_uart b), b_wdog := client_update c (\<lambda>st. st\<lparr>hang_requested := True\<rparr>) (b_wdog b)\<rparr>)
    }"
    using True assms(3)
    by (auto simp: consumer_run_wdt_test_def console_write_lit NUL_def inject_eq [OF assms(2)] t_def test_client_def)
  have told: "told b w (b\<lparr>b_uart := console_text t (b_uart b), b_wdog := w\<rparr>)" for w
    by (auto simp: told_def assms(1) intro!: exI [of _ t] exI [of _ "b_log b"])
  have four: "test_client m = None \<longleftrightarrow> msg_key m = CHR ''4''"
    using True assms(3) by (auto simp: test_client_def)
  show ?thesis
    using assms(3) told four unfolding run msg_stops_def msg_wdog_def
    by (cases "uart_drv_wait_tx_idle (v_uart_bits v) (v_tx_status v) (b_uart b)"; cases "test_client m") auto
qed

lemma handle_msg_eq:
  assumes "log_ok (b_log b)" "wdog_wf (b_wdog b)" "view_ok v"
  shows "if msg_stops v (b_uart b) m then consumer_handle_msg f v m (s, b) = None
    else (\<exists>b'. consumer_handle_msg f v m (s, b) = Some (msg_settings m s, b') \<and> told b (msg_wdog m (b_wdog b)) b')"
proof -
  have printed: "\<exists>b'. (do { u \<leftarrow> r; Some (s', b\<lparr>b_uart := u\<rparr>) }) = Some (s', b') \<and> told b (b_wdog b) b'"
    if "prints (b_uart b) r" for r and s' :: consumer_state_t
    by (rule told_prints [OF that assms(1), of "b_wdog b"]) auto
  have boarded: "\<exists>b'. (do { b \<leftarrow> r; Some (s, b) }) = Some (s, b') \<and> told b (b_wdog b) b'"
    if "board_prints b r" for r
    by (rule told_board_prints [OF that]) auto
  have other: "test_client m = None \<and> msg_wdog m = (\<lambda>w. w) \<and> \<not> msg_stops v (b_uart b) m"
    if "msg_id m \<noteq> CONSUMER_MSG_WDT_TEST"
    using that by (auto simp: test_client_def msg_wdog_def msg_stops_def fun_eq_iff)
  have same: "told b (b_wdog b) b" by (auto simp: told_def assms(1) intro!: exI [of _ "[]"] exI [of _ "b_log b"])
  note texts = prints_printf printf_eval
  show ?thesis
  proof (cases "msg_id m = CONSUMER_MSG_WDT_TEST")
    case True
    then show ?thesis
      using run_wdt_test_eq [OF assms(1,2) True, of v]
      by (auto simp: consumer_handle_msg_def msg_settings_def)
  next
    case False
    then show ?thesis
      using other [OF False] same
        boarded [OF board_prints_report [OF assms(1,3), of f]]
        boarded [OF board_prints_newest [OF assms(1), of f v]]
        boarded [OF board_prints_stats [OF assms(1,2), of f v s]]
        printed [OF prints_help, of s]
        printed [OF prints_printf [of "''unknown command '%c', 'h' for help\<newline>''" "[Chr (msg_key m)]"], of s]
        printed [OF prints_printf [of "''telemetry stream %s\<newline>''" "[Str x]" for x], of _ "msg_settings m s"]
        printed [OF prints_printf [of "''stream rate: %s\<newline>''" "[Str x]" for x], of _ "msg_settings m s"]
        printed [OF prints_printf [of "''log reading %s\<newline>''" "[Str x]" for x], of _ "msg_settings m s"]
      by (cases "msg_id m")
        (simp_all add: consumer_handle_msg_def msg_settings_def Let_def printf_eval)
  qed
qed

text \<open>The stall check.\<close>

definition stall_text :: "u64 \<Rightarrow> u32 \<Rightarrow> string" where
  "stall_text us n = time_text us @ ''WARN: producer has taken no sample for '' @ dec_str (unat APP_STALL_WARN_MS) @
     '' ms (last #'' @ dec_str (unat n) @ '')\<newline>''"

lemma check_stall_eq:
  "consumer_check_stall f now n us (s, b) =
     Some (if n \<noteq> last_producer_samples s
           then (s\<lparr>last_producer_samples := n, last_progress_tick := now, stall_reported := False\<rparr>, b)
           else if \<not> stall_reported s \<and> now - last_progress_tick s \<ge> f APP_STALL_WARN_MS
           then (s\<lparr>stall_reported := True\<rparr>, b\<lparr>b_uart := console_text (stall_text us n) (b_uart b)\<rparr>)
           else (s, b))"
proof -
  define t where "t = ''WARN: producer has taken no sample for '' @ dec_str (unat APP_STALL_WARN_MS) @
     '' ms (last #'' @ dec_str (unat n) @ '')\<newline>''"
  have "console_printf ''WARN: producer has taken no sample for %u ms (last #%lu)\<newline>''
      [UInt APP_STALL_WARN_MS, UInt n] u = Some (console_text t u)" for u
  proof (rule printf_fits)
    show "printf_text ''WARN: producer has taken no sample for %u ms (last #%lu)\<newline>'' [UInt APP_STALL_WARN_MS, UInt n]
        = Some t"
      by (simp add: printf_eval t_def) (simp add: pad_field_def)
    show "NUL \<notin> set t" by (simp add: t_def) (simp add: NUL_def)
    show "length t < 256" using length_dec_str_u32 [of n] length_dec_str_u32 [of APP_STALL_WARN_MS] by (simp add: t_def)
  qed
  moreover have "stall_text us n = time_text us @ t" by (simp only: stall_text_def t_def append_assoc)
  ultimately show ?thesis
    by (cases "n = last_producer_samples s") (simp_all add: consumer_check_stall_def time_prefix_eq)
qed

lemma peak_update:
  "(if d > queue_depth_peak s then s\<lparr>queue_depth_peak := d\<rparr> else s) = s\<lparr>queue_depth_peak := max (queue_depth_peak s) d\<rparr>"
  by (cases "d > queue_depth_peak s") (simp_all add: max_def not_less antisym)

lemma consumer_receive_eq:
  assumes "queue_laws len contents ops" "b_queue b = Some q"
  shows "\<exists>q'. consumer_receive ops w (s, b) =
      Some (case contents q of [] \<Rightarrow> None | m # _ \<Rightarrow> Some m,
            if contents q = [] then s
            else s\<lparr>queue_depth_peak := max (queue_depth_peak s) (of_nat (length (contents q)))\<rparr>,
            b\<lparr>b_queue := Some q'\<rparr>) \<and> contents q' = tl (contents q)"
proof (cases "contents q")
  case Nil
  obtain q' where "xQueueReceive ops w q = (None, q')" "contents q' = []"
    using queue_lawsD(3) [OF assms(1) Nil, of w] by (cases "xQueueReceive ops w q") auto
  then show ?thesis using Nil assms(2) by (intro exI [of _ q']) (simp add: consumer_receive_def)
next
  case (Cons m ms)
  obtain q' where q': "xQueueReceive ops w q = (Some m, q')" "contents q' = ms"
    using queue_lawsD(4) [OF assms(1) Cons, of w] by (cases "xQueueReceive ops w q") auto
  have "uxQueueMessagesWaiting ops q' + 1 = of_nat (length (contents q))"
    using queue_lawsD(5) [OF assms(1), of q'] by (simp add: q' Cons)
  then show ?thesis using Cons assms(2) q'
    by (intro exI [of _ q']) (simp add: consumer_receive_def Let_def peak_update add.commute)
qed

text \<open>When a pass does not come back.\<close>

definition first_msg :: "consumer_msg_t list \<Rightarrow> consumer_msg_t option" where
  "first_msg ms = (case ms of [] \<Rightarrow> None | m # _ \<Rightarrow> Some m)"

definition pass_settings :: "consumer_msg_t list \<Rightarrow> consumer_state_t \<Rightarrow> consumer_state_t" where
  "pass_settings ms s = (case first_msg ms of None \<Rightarrow> s | Some m \<Rightarrow> msg_settings m s)"

definition pass_wdog :: "consumer_msg_t list \<Rightarrow> wdog_state \<Rightarrow> wdog_state" where
  "pass_wdog ms w = (case first_msg ms of None \<Rightarrow> w | Some m \<Rightarrow> msg_wdog m w)"

definition pass_stops :: "consumer_view \<Rightarrow> uart_state \<Rightarrow> consumer_msg_t list \<Rightarrow> wdog_state \<Rightarrow> bool" where
  "pass_stops v u ms w \<longleftrightarrow>
     (\<exists>m. first_msg ms = Some m \<and> msg_stops v u m) \<or> hangs WDOG_CLIENT_CONSUMER (pass_wdog ms w)"

lemma told_simps:
  assumes "told b w b'"
  shows "b_queue b' = b_queue b" "b_gpio b' = b_gpio b" "b_wdt b' = b_wdt b" "b_wdog b' = w"
    "log_ok (b_log b')" "s_ring (b_log b') = s_ring (b_log b)" "s_uart_ready (b_uart b') = s_uart_ready (b_uart b)"
  using assms by (auto simp: told_def)

lemma msg_settings_simps [simp]:
  "received_count (msg_settings m s) = received_count s" "last_seq (msg_settings m s) = last_seq s"
  "lost (msg_settings m s) = lost s"
  by (simp_all add: msg_settings_def split: consumer_msg_id_t.split)

text \<open>Receiving and handling, together.\<close>

lemma pass_message:
  assumes "queue_laws len contents ops" "b_queue b = Some q" "log_ok (b_log b)" "wdog_wf (b_wdog b)" "view_ok v"
    and r_def: "r = do { (msg, sb) \<leftarrow> consumer_receive ops w (s, b);
                     case msg of None \<Rightarrow> Some sb | Some m \<Rightarrow> consumer_handle_msg f v m sb }"
  shows "if \<exists>m. first_msg (contents q) = Some m \<and> msg_stops v (b_uart b) m then r = None
    else (\<exists>s' b' q'. r = Some (s', b') \<and> contents q' = tl (contents q) \<and>
            told (b\<lparr>b_queue := Some q'\<rparr>) (pass_wdog (contents q) (b_wdog b)) b' \<and>
            s' = (pass_settings (contents q) s)\<lparr>queue_depth_peak := queue_depth_peak s'\<rparr>)"
proof -
  obtain q' where rec: "consumer_receive ops w (s, b) =
      Some (case contents q of [] \<Rightarrow> None | m # _ \<Rightarrow> Some m,
            if contents q = [] then s
            else s\<lparr>queue_depth_peak := max (queue_depth_peak s) (of_nat (length (contents q)))\<rparr>,
            b\<lparr>b_queue := Some q'\<rparr>)" and q': "contents q' = tl (contents q)"
    using consumer_receive_eq [OF assms(1,2)] by blast
  show ?thesis
  proof (cases "contents q")
    case Nil
    have "told (b\<lparr>b_queue := Some q'\<rparr>) (b_wdog b) (b\<lparr>b_queue := Some q'\<rparr>)"
      using assms(3) by (auto simp: told_def intro!: exI [of _ "[]"] exI [of _ "b_log b"])
    then show ?thesis
      using Nil q' by (auto simp: r_def rec first_msg_def pass_wdog_def pass_settings_def)
  next
    case (Cons m ms)
    let ?b = "b\<lparr>b_queue := Some q'\<rparr>" and ?s = "s\<lparr>queue_depth_peak := max (queue_depth_peak s) (of_nat (length (contents q)))\<rparr>"
    have r: "r = consumer_handle_msg f v m (?s, ?b)" using Cons by (simp add: r_def rec)
    have peak: "msg_settings m ?s = (msg_settings m s)\<lparr>queue_depth_peak := queue_depth_peak (msg_settings m ?s)\<rparr>"
      by (simp add: msg_settings_def split: consumer_msg_id_t.split)
    have "if msg_stops v (b_uart b) m then r = None
      else (\<exists>b'. r = Some (msg_settings m ?s, b') \<and> told ?b (msg_wdog m (b_wdog b)) b')"
      unfolding r using handle_msg_eq [of ?b v m f ?s] assms(3-5)
      by (cases "msg_stops v (b_uart b) m") simp_all
    then show ?thesis
    proof (cases "msg_stops v (b_uart b) m")
      case False
      then obtain b' where b': "r = Some (msg_settings m ?s, b')" "told ?b (msg_wdog m (b_wdog b)) b'"
        using \<open>if msg_stops v (b_uart b) m then _ else _\<close> by auto
      have "first_msg (contents q) = Some m" by (simp add: Cons first_msg_def)
      then show ?thesis
        using False b' q' peak
        by (simp add: pass_wdog_def pass_settings_def del: Cons)
          (intro exI [of _ "msg_settings m ?s"] exI [of _ b'] exI [of _ q'], simp)
    qed (simp add: Cons first_msg_def)
  qed
qed

text \<open>What the drain and the stall check leave alone.\<close>

definition drain_count :: "(u32 \<Rightarrow> u32) \<Rightarrow> (nat \<Rightarrow> log_env) \<Rightarrow> consumer_state_t \<Rightarrow> nat" where
  "drain_count f envs s = (if drain_paused s then 0 else 16 * grants (f APP_LOG_READ_WAIT_MS) (map envs [0..<4]))"

lemma drain_frame:
  assumes "log_ok (b_log b)"
  shows "\<exists>more s' b'. consumer_drain_log f envs (s, b) = Some (more, s', b') \<and>
    popped_to (drain_count f envs s) (b_log b) (b_log b') \<and> b_queue b' = b_queue b \<and> b_wdog b' = b_wdog b \<and>
    drain_paused s' = drain_paused s \<and> stream_enabled s' = stream_enabled s \<and> stream_slow s' = stream_slow s \<and>
    stall_reported s' = stall_reported s \<and>
    received_count s' = received_count s + of_nat (length (take (drain_count f envs s) (log_contents (b_log b)))) \<and>
    (more \<longleftrightarrow> \<not> drain_paused s \<and> drain_count f envs s \<le> length (log_contents (b_log b)))"
proof (cases "drain_paused s")
  case True
  then show ?thesis
    using assms by (intro exI [of _ False] exI [of _ s] exI [of _ b])
      (simp add: consumer_drain_log_def drain_count_def popped_to_def)
next
  case False
  then show ?thesis
    using consumer_drain_log_eq [where f = f and envs = envs, OF assms False refl refl]
    by (auto simp: drain_count_def timed_out_def processed_def)
qed

lemma stall_frame:
  "\<exists>s' t. consumer_check_stall f now n us (s, b) = Some (s', b\<lparr>b_uart := console_text t (b_uart b)\<rparr>) \<and>
     s' = s\<lparr>last_producer_samples := last_producer_samples s', last_progress_tick := last_progress_tick s',
            stall_reported := stall_reported s'\<rparr>"
proof -
  let ?a = "n \<noteq> last_producer_samples s" and ?b = "\<not> stall_reported s \<and> now - last_progress_tick s \<ge> f APP_STALL_WARN_MS"
  let ?s = "if ?a then s\<lparr>last_producer_samples := n, last_progress_tick := now, stall_reported := False\<rparr>
    else if ?b then s\<lparr>stall_reported := True\<rparr> else s"
  let ?t = "if \<not> ?a \<and> ?b then stall_text us n else []"
  show ?thesis
    unfolding check_stall_eq by (rule exI [of _ ?s], rule exI [of _ ?t]) (cases ?a; cases ?b; auto)
qed

text \<open>The pass after the message has been handled.\<close>

definition pass_rest :: "(u32 \<Rightarrow> u32) \<Rightarrow> consumer_env \<Rightarrow> consumer_state_t \<times> 'q board
    \<Rightarrow> (bool \<times> consumer_state_t \<times> 'q board) option" where
  "pass_rest f env sb = do {
     (more, sb) \<leftarrow> consumer_drain_log f (c_drain env) sb;
     (s, b) \<leftarrow> consumer_check_stall f (c_now_tick env) (c_samples env) (c_now_us env) sb;
     w \<leftarrow> task_watchdog_checkin (c_checkin_tick env) WDOG_CLIENT_CONSUMER (b_wdog b);
     Some (more, s, b\<lparr>b_wdog := w\<rparr>)
   }"

lemma consumer_pass_split:
  "consumer_pass ops f env (backlog, s, b) = do {
     sb \<leftarrow> do { (msg, sb) \<leftarrow> consumer_receive ops (if backlog then 0 else f APP_CONSUMER_POLL_MS) (s, b);
                case msg of None \<Rightarrow> Some sb | Some m \<Rightarrow> consumer_handle_msg f (c_view env) m sb };
     pass_rest f env sb
   }"
  by (cases "consumer_receive ops (if backlog then 0 else f APP_CONSUMER_POLL_MS) (s, b)")
    (simp_all add: consumer_pass_def pass_rest_def split_def)

lemma pass_rest_eq:
  assumes "log_ok (b_log b)" "wdog_wf (b_wdog b)" and "n = drain_count f (c_drain env) s" "xs = log_contents (b_log b)"
  shows "if hangs WDOG_CLIENT_CONSUMER (b_wdog b) then pass_rest f env (s, b) = None
    else (\<exists>more s' b'. pass_rest f env (s, b) = Some (more, s', b') \<and> b_queue b' = b_queue b \<and>
      stream_enabled s' = stream_enabled s \<and> stream_slow s' = stream_slow s \<and> drain_paused s' = drain_paused s \<and>
      received_count s' = received_count s + of_nat (length (take n xs)) \<and>
      log_ok (b_log b') \<and> log_contents (b_log b') = drop n xs \<and> (more \<longleftrightarrow> \<not> drain_paused s \<and> n \<le> length xs) \<and>
      wdog_wf (b_wdog b') \<and> last_checkin_tick (s_clients (b_wdog b') ! 2) = c_checkin_tick env)"
proof -
  obtain more s2 b2 where 2: "consumer_drain_log f (c_drain env) (s, b) = Some (more, s2, b2)"
      "popped_to n (b_log b) (b_log b2)" "b_queue b2 = b_queue b" "b_wdog b2 = b_wdog b"
      "drain_paused s2 = drain_paused s" "stream_enabled s2 = stream_enabled s" "stream_slow s2 = stream_slow s"
      "received_count s2 = received_count s + of_nat (length (take n xs))"
      "more \<longleftrightarrow> \<not> drain_paused s \<and> n \<le> length xs"
    using drain_frame [OF assms(1), where f = f and envs = "c_drain env" and s = s] unfolding assms(3) [symmetric] assms(4) [symmetric]
    by blast
  from stall_frame [of f "c_now_tick env" "c_samples env" "c_now_us env" s2 b2]
  obtain s3 tx where stall: "consumer_check_stall f (c_now_tick env) (c_samples env) (c_now_us env) (s2, b2) =
      Some (s3, b2\<lparr>b_uart := console_text tx (b_uart b2)\<rparr>) \<and>
      s3 = s2\<lparr>last_producer_samples := last_producer_samples s3, last_progress_tick := last_progress_tick s3,
         stall_reported := stall_reported s3\<rparr>"
    by (elim exE)
  have fields: "drain_paused s3 = drain_paused s2" "stream_enabled s3 = stream_enabled s2"
    "stream_slow s3 = stream_slow s2" "received_count s3 = received_count s2"
    by (subst conjunct2 [OF stall], simp)+
  define w where "w = client_update WDOG_CLIENT_CONSUMER (\<lambda>st. st\<lparr>last_checkin_tick := c_checkin_tick env\<rparr>) (b_wdog b)"
  have w: "wdog_wf w" "last_checkin_tick (s_clients w ! 2) = c_checkin_tick env"
    using assms(2) by (simp_all add: w_def client_update_wf) (simp add: client_update_def wdog_wf_def)
  have rest: "pass_rest f env (s, b) = (if hangs WDOG_CLIENT_CONSUMER (b_wdog b) then None
       else Some (more, s3, b2\<lparr>b_uart := console_text tx (b_uart b2), b_wdog := w\<rparr>))"
    using checkin_eq [OF assms(2), of WDOG_CLIENT_CONSUMER]
    by (simp add: pass_rest_def 2(1,4) conjunct1 [OF stall] w_def)
  have log: "log_ok (b_log b2)" "log_contents (b_log b2) = drop n xs"
    using 2(2) by (simp_all add: popped_to_def assms(4))
  show ?thesis
    unfolding rest by (simp add: 2(3,5-9) fields log w)
qed

text \<open>
  C10: One pass of the consumer returns, with no access outside an array, except in exactly these
  cases: the message taken is the watchdog test that stops the system (key 4), a test whose
  transmitter wait never ends, or the consumer itself has been told to hang, by an earlier test or
  by this one. A pass that returns has taken the oldest message, applied its setting, processed
  the oldest records of the log as far as the mutex was granted (none while paused), asked for
  another pass unless the log was emptied or paused, and checked in with the supervisor.
\<close>

theorem consumer_pass_returns:
  assumes "queue_laws len contents ops" "b_queue b = Some q" "log_ok (b_log b)" "wdog_wf (b_wdog b)"
    and "view_ok (c_view env)" and "ms = contents q" and "xs = log_contents (b_log b)"
    and "n = drain_count f (c_drain env) (pass_settings ms s)"
  shows "if pass_stops (c_view env) (b_uart b) ms (b_wdog b)
    then consumer_pass ops f env (backlog, s, b) = None
    else (\<exists>more s' b' q'. consumer_pass ops f env (backlog, s, b) = Some (more, s', b') \<and>
      b_queue b' = Some q' \<and> contents q' = tl ms \<and>
      stream_enabled s' = stream_enabled (pass_settings ms s) \<and> stream_slow s' = stream_slow (pass_settings ms s) \<and>
      drain_paused s' = drain_paused (pass_settings ms s) \<and>
      received_count s' = received_count s + of_nat (length (take n xs)) \<and>
      log_ok (b_log b') \<and> log_contents (b_log b') = drop n xs \<and>
      (more \<longleftrightarrow> \<not> drain_paused s' \<and> n \<le> length xs) \<and>
      wdog_wf (b_wdog b') \<and> last_checkin_tick (s_clients (b_wdog b') ! 2) = c_checkin_tick env)"
proof -
  define r where "r = do { (msg, sb) \<leftarrow> consumer_receive ops (if backlog then 0 else f APP_CONSUMER_POLL_MS) (s, b);
      case msg of None \<Rightarrow> Some sb | Some m \<Rightarrow> consumer_handle_msg f (c_view env) m sb }"
  have pass: "consumer_pass ops f env (backlog, s, b) = r \<bind> pass_rest f env"
    by (simp only: consumer_pass_split r_def)
  have msg: "if \<exists>m. first_msg ms = Some m \<and> msg_stops (c_view env) (b_uart b) m then r = None
    else (\<exists>s' b' q'. r = Some (s', b') \<and> contents q' = tl ms \<and>
            told (b\<lparr>b_queue := Some q'\<rparr>) (pass_wdog ms (b_wdog b)) b' \<and>
            s' = (pass_settings ms s)\<lparr>queue_depth_peak := queue_depth_peak s'\<rparr>)"
    unfolding assms(6) by (rule pass_message [OF assms(1-5) r_def])
  show ?thesis
  proof (cases "\<exists>m. first_msg ms = Some m \<and> msg_stops (c_view env) (b_uart b) m")
    case True
    then show ?thesis using msg by (simp add: pass_stops_def pass)
  next
    case False
    then obtain s1 b1 q1 where 1: "r = Some (s1, b1)" "contents q1 = tl ms"
        "told (b\<lparr>b_queue := Some q1\<rparr>) (pass_wdog ms (b_wdog b)) b1"
        "s1 = (pass_settings ms s)\<lparr>queue_depth_peak := queue_depth_peak s1\<rparr>"
      using msg by (simp only: if_False) blast
    note t = told_simps [OF 1(3)]
    have fields: "drain_paused s1 = drain_paused (pass_settings ms s)"
      "stream_enabled s1 = stream_enabled (pass_settings ms s)" "stream_slow s1 = stream_slow (pass_settings ms s)"
      "received_count s1 = received_count s"
      by (subst 1(4), simp add: pass_settings_def split: option.split)+
    have n: "n = drain_count f (c_drain env) s1" by (simp add: assms(8) drain_count_def fields)
    have xs: "xs = log_contents (b_log b1)" using t(6) by (simp add: assms(7) log_contents_def)
    have wf: "wdog_wf (b_wdog b1)"
      using assms(4) by (auto simp: t(4) pass_wdog_def msg_wdog_wf split: option.split)
    have stops: "pass_stops (c_view env) (b_uart b) ms (b_wdog b) \<longleftrightarrow> hangs WDOG_CLIENT_CONSUMER (b_wdog b1)"
      using False unfolding pass_stops_def t(4) by blast
    have rest: "consumer_pass ops f env (backlog, s, b) = pass_rest f env (s1, b1)" by (simp add: pass 1(1))
    show ?thesis
      using pass_rest_eq [OF t(5) wf n xs] t(1) 1(2) unfolding stops rest by (auto simp: fields split: if_splits)
  qed
qed

text \<open>What the consumer reads in the examples.\<close>

definition demo_view :: consumer_view where
  "demo_view = \<lparr>v_prod_stats = producer_stats_start, v_now_ms = 5000, v_log_env = env_ok, v_log_base = 0x00130DB0,
     v_ui_dropped = 0, v_stack_words = None, v_heap_free = 20000, v_reset_cause = RESET_CAUSE_POWER_ON,
     v_tx_status = [0], v_uart_bits = demo_bits\<rparr>"

definition demo_consumer_env :: consumer_env where
  "demo_consumer_env = \<lparr>c_view = demo_view, c_drain = (\<lambda>_. env_ok), c_now_tick = 100, c_samples = 1,
     c_now_us = 1000000, c_checkin_tick = 101\<rparr>"

lemma consumer_pass_returns_witness:
  "(\<exists>s' b'. consumer_pass (list_queue 16) (\<lambda>ms. ms) demo_consumer_env
      (False, consumer_idle, one_waiting\<lparr>b_queue := Some [data_ready]\<rparr>) = Some (False, s', b') \<and>
     b_queue b' = Some [] \<and> received_count s' = 1 \<and> log_contents (b_log b') = []) \<and>
   consumer_pass (list_queue 16) (\<lambda>ms. ms) demo_consumer_env
      (False, consumer_idle, one_waiting\<lparr>b_queue := Some [\<lparr>msg_id = CONSUMER_MSG_WDT_TEST, msg_key = CHR ''4''\<rparr>]\<rparr>) = None"
proof -
  have q: "queue_laws 16 (\<lambda>q. q) (list_queue 16)" by (rule list_queue_laws)
  have log: "log_ok (b_log (one_waiting\<lparr>b_queue := x\<rparr>))" "log_contents (b_log (one_waiting\<lparr>b_queue := x\<rparr>)) = [make_record 1]"
    "wdog_wf (b_wdog (one_waiting\<lparr>b_queue := x\<rparr>))" for x
    using one_waiting_log by (simp_all, simp add: one_waiting_def)
  have v: "view_ok (c_view demo_consumer_env)"
    by (simp add: demo_consumer_env_def demo_view_def view_ok_def producer_stats_start_def zero_sample_def)
  have hang: "\<not> hangs WDOG_CLIENT_CONSUMER (b_wdog one_waiting)"
    by (simp add: one_waiting_def wdog_boot_def)
  have n: "64 = drain_count (\<lambda>ms. ms) (c_drain demo_consumer_env) consumer_idle"
    by (simp add: drain_count_def consumer_idle_def demo_consumer_env_def env_ok_def upt_4)
  let ?m4 = "\<lparr>msg_id = CONSUMER_MSG_WDT_TEST, msg_key = CHR ''4''\<rparr>"
  have data: "pass_settings [data_ready] consumer_idle = consumer_idle" "pass_wdog [data_ready] w = w"
      "\<not> pass_stops v u [data_ready] (b_wdog one_waiting)" for v u w
    using hang by (simp_all add: pass_settings_def pass_wdog_def pass_stops_def first_msg_def msg_settings_def
        msg_wdog_def msg_stops_def test_client_def data_ready_def)
  have n': "64 = drain_count (\<lambda>ms. ms) (c_drain demo_consumer_env) (pass_settings [data_ready] consumer_idle)"
    by (simp only: data n [symmetric])
  have idle: "received_count consumer_idle = 0" "\<not> drain_paused consumer_idle"
    by (simp_all add: consumer_idle_def)
  have four: "pass_stops v u [?m4] w" for v u w
    by (simp add: pass_stops_def first_msg_def msg_stops_def)
  show ?thesis
    using consumer_pass_returns [where f = "\<lambda>ms. ms" and s = consumer_idle and backlog = False and n = 64 and
        b = "one_waiting\<lparr>b_queue := Some [data_ready]\<rparr>" and q = "[data_ready]", OF q _ log(1) log(3) v refl refl n']
      consumer_pass_returns [where f = "\<lambda>ms. ms" and s = consumer_idle and backlog = False and
        b = "one_waiting\<lparr>b_queue := Some [?m4]\<rparr>" and q = "[?m4]", OF q _ log(1) log(3) v refl refl refl]
    by (auto simp: data four idle one_waiting_log(2))
qed


text \<open>
  C34: While the producer's sample count does not move, any number of stall checks prints at most
  one warning, at the first check that finds the last progress at least \<open>APP_STALL_WARN_MS\<close> ago
  (in ticks, across the wrap of the tick counter), and none if no check does. A new sample count
  records the progress and arms the warning again, without printing.
\<close>

theorem consumer_stall_warns_once:
  assumes "s_uart_ready (b_uart b)" "last_producer_samples s = n" "\<not> stall_reported s"
    and "late = filter (\<lambda>(now, us). now - last_progress_tick s \<ge> f APP_STALL_WARN_MS) checks"
    and "n' \<noteq> n"
  shows "\<exists>s' b'. for_each (\<lambda>(now, us). consumer_check_stall f now n us) checks (s, b) = Some (s', b') \<and>
    sent (b_uart b') = sent (b_uart b) @ (if late = [] then [] else crlf (stall_text (snd (hd late)) n)) \<and>
    (stall_reported s' \<longleftrightarrow> late \<noteq> []) \<and>
    (\<exists>s''. consumer_check_stall f now' n' us' (s', b') = Some (s'', b') \<and>
       \<not> stall_reported s'' \<and> last_progress_tick s'' = now' \<and> last_producer_samples s'' = n')"
proof -
  have quiet: "for_each (\<lambda>(now, us). consumer_check_stall f now n us) cs (s, b) = Some (s, b)"
    if "last_producer_samples s = n" "stall_reported s" for cs s and b :: "'a board"
    using that by (induction cs) (auto simp: check_stall_eq)
  have run: "for_each (\<lambda>(now, us). consumer_check_stall f now n us) checks (s, b) =
      Some (if late = [] then (s, b)
            else (s\<lparr>stall_reported := True\<rparr>, b\<lparr>b_uart := console_text (stall_text (snd (hd late)) n) (b_uart b)\<rparr>))"
    using assms(2-4)
  proof (induction checks arbitrary: late)
    case Nil
    then show ?case by simp
  next
    case (Cons c cs)
    obtain now us where c: "c = (now, us)" by (cases c)
    show ?case
    proof (cases "now - last_progress_tick s \<ge> f APP_STALL_WARN_MS")
      case True
      then show ?thesis using Cons.prems by (simp add: c check_stall_eq quiet)
    next
      case False
      then show ?thesis using Cons.IH [OF Cons.prems(1,2) refl] Cons.prems by (simp add: c check_stall_eq)
    qed
  qed
  show ?thesis
    unfolding run using assms by (cases "late = []") (simp_all add: check_stall_eq sent_console_text)
qed

lemma consumer_stall_warns_once_witness:
  "\<exists>s' b'. for_each (\<lambda>(now, us). consumer_check_stall (\<lambda>ms. ms) now 0 us) [(999, 1), (1000, 2), (1250, 3)]
       (consumer_idle, demo_board) = Some (s', b') \<and>
     sent (b_uart b') = crlf (stall_text 2 0) \<and> stall_reported s'"
  using consumer_stall_warns_once [where b = demo_board and s = consumer_idle and n = 0 and n' = 1 and
      f = "\<lambda>ms. ms" and late = "[(1000, 2), (1250, 3)]" and checks = "[(999, 1), (1000, 2), (1250, 3)]" and
      now' = 1500 and us' = 4]
  by (auto simp: consumer_idle_def APP_STALL_WARN_MS_def simp del: for_each.simps)

end
