(* ===== verification/System.thy ===== *)
theory System
  imports Consumer_Loop
begin

text \<open>
  The four tasks together. A step of the system is one task doing what lies between two points
  where another task can come in: the producer takes a sample and writes it to the log, or checks
  in; the UI task scans and polls, or checks in; the supervisor makes a pass; the consumer receives
  a message, handles it, reads one batch from the log, processes one record, or ends its pass. Which
  task moves next, and what the kernel, the hardware and the clock answer, is arbitrary. \<open>sys_pc\<close> says
  where the consumer is in its loop. The last three fields only record history.

  Handling one message is a single step: what it shares with other tasks is a read of the newest
  record and of statistics, and its requests to hang.
\<close>

section \<open>Steps\<close>

datatype consumer_pc =
    Waiting bool
  | Handling "consumer_msg_t option"
  | Draining nat
  | Processing nat bool "sensor_record_t list"
  | Finishing bool

record 'q sys =
  sys_board :: "'q board"
  sys_prod :: producer_state
  sys_checkin_due :: bool
  sys_ui_due :: bool
  sys_ui_dropped :: u32
  sys_kicking :: bool
  sys_cons :: consumer_state_t
  sys_pc :: consumer_pc
  sys_stored :: "sensor_record_t list"
  sys_received :: "sensor_record_t list"
  sys_unstored :: nat

text \<open>The supervisor's part of the state.\<close>

definition sys_wdog :: "'q sys \<Rightarrow> wdog_task_state" where
  "sys_wdog s = \<lparr>kicking = sys_kicking s, wdog = b_wdog (sys_board s), wdog_wdt = b_wdt (sys_board s),
     wdog_uart = b_uart (sys_board s)\<rparr>"

inductive sys_step :: "'q rtos_queue \<Rightarrow> (u32 \<Rightarrow> u32) \<Rightarrow> u32 \<Rightarrow> 'q sys \<Rightarrow> 'q sys \<Rightarrow> bool"
  for ops :: "'q rtos_queue" and f :: "u32 \<Rightarrow> u32" and tick_hz :: u32 where
  producer_timeout:
    "\<not> sys_checkin_due s \<Longrightarrow> ulTaskNotifyTake env = 0 \<Longrightarrow>
     producer_sample ops (f APP_LOG_WRITE_WAIT_MS) env (sys_prod s, sys_board s) = Some (due, p, b) \<Longrightarrow>
     sys_step ops f tick_hz s (s\<lparr>sys_prod := p, sys_board := b, sys_checkin_due := due\<rparr>)"
| producer_takes_sample:
    "\<not> sys_checkin_due s \<Longrightarrow> ulTaskNotifyTake env \<noteq> 0 \<Longrightarrow> w = f APP_LOG_WRITE_WAIT_MS \<Longrightarrow>
     producer_sample ops w env (sys_prod s, sys_board s) = Some (due, p, b) \<Longrightarrow>
     sys_step ops f tick_hz s
       (s\<lparr>sys_prod := p, sys_board := b, sys_checkin_due := due,
          sys_stored := (if stored env w then sys_stored s @ [p_record p] else sys_stored s),
          sys_unstored := (if stored env w then 0 else Suc (sys_unstored s))\<rparr>)"
| producer_checks_in:
    "sys_checkin_due s \<Longrightarrow> task_watchdog_checkin now WDOG_CLIENT_PRODUCER (b_wdog (sys_board s)) = Some w \<Longrightarrow>
     sys_step ops f tick_hz s (s\<lparr>sys_board := (sys_board s)\<lparr>b_wdog := w\<rparr>, sys_checkin_due := False\<rparr>)"
| ui_polls:
    "\<not> sys_ui_due s \<Longrightarrow> \<exists>x\<in>set polls. \<not> rx_has_data x \<Longrightarrow>
     ui_poll ops bits pins polls ch (sys_ui_dropped s, sys_board s) = Some (d, b) \<Longrightarrow>
     sys_step ops f tick_hz s (s\<lparr>sys_ui_dropped := d, sys_board := b, sys_ui_due := True\<rparr>)"
| ui_checks_in:
    "sys_ui_due s \<Longrightarrow> task_watchdog_checkin now WDOG_CLIENT_UI (b_wdog (sys_board s)) = Some w \<Longrightarrow>
     sys_step ops f tick_hz s (s\<lparr>sys_board := (sys_board s)\<lparr>b_wdog := w\<rparr>, sys_ui_due := False\<rparr>)"
| supervisor_pass:
    "wdog_pass tick_hz now (sys_wdog s) = Some t \<Longrightarrow>
     sys_step ops f tick_hz s
       (s\<lparr>sys_kicking := kicking t,
          sys_board := (sys_board s)\<lparr>b_wdog := wdog t, b_wdt := wdog_wdt t, b_uart := wdog_uart t\<rparr>\<rparr>)"
| consumer_receives:
    "sys_pc s = Waiting backlog \<Longrightarrow>
     consumer_receive ops (if backlog then 0 else f APP_CONSUMER_POLL_MS) (sys_cons s, sys_board s) = Some (msg, c, b) \<Longrightarrow>
     sys_step ops f tick_hz s (s\<lparr>sys_cons := c, sys_board := b, sys_pc := Handling msg\<rparr>)"
| consumer_has_no_message:
    "sys_pc s = Handling None \<Longrightarrow> sys_step ops f tick_hz s (s\<lparr>sys_pc := Draining 0\<rparr>)"
| consumer_handles:
    "sys_pc s = Handling (Some m) \<Longrightarrow> v_prod_stats v = p_stats (sys_prod s) \<Longrightarrow> v_ui_dropped v = sys_ui_dropped s \<Longrightarrow>
     consumer_handle_msg f v m (sys_cons s, sys_board s) = Some (c, b) \<Longrightarrow>
     sys_step ops f tick_hz s (s\<lparr>sys_cons := c, sys_board := b, sys_pc := Draining 0\<rparr>)"
| consumer_paused:
    "sys_pc s = Draining 0 \<Longrightarrow> drain_paused (sys_cons s) \<Longrightarrow>
     sys_step ops f tick_hz s (s\<lparr>sys_pc := Finishing False\<rparr>)"
| consumer_reads:
    "sys_pc s = Draining n \<Longrightarrow> n = 0 \<longrightarrow> \<not> drain_paused (sys_cons s) \<Longrightarrow> n < 4 \<Longrightarrow> length batch = 16 \<Longrightarrow>
     sensor_log_read env (Some batch) APP_LOG_READ_BATCH (f APP_LOG_READ_WAIT_MS) (Some 0) (b_log (sys_board s))
       = Some (True, Some out, Some count, l) \<Longrightarrow>
     sys_step ops f tick_hz s
       (s\<lparr>sys_board := (sys_board s)\<lparr>b_log := l\<rparr>,
          sys_pc := Processing n (count < APP_LOG_READ_BATCH) (take (unat count) out)\<rparr>)"
| consumer_read_times_out:
    "sys_pc s = Draining n \<Longrightarrow> n = 0 \<longrightarrow> \<not> drain_paused (sys_cons s) \<Longrightarrow> n < 4 \<Longrightarrow> length batch = 16 \<Longrightarrow>
     sensor_log_read env (Some batch) APP_LOG_READ_BATCH (f APP_LOG_READ_WAIT_MS) (Some 0) (b_log (sys_board s))
       = Some (False, out, count, l) \<Longrightarrow>
     sys_step ops f tick_hz s
       (s\<lparr>sys_cons := (sys_cons s)\<lparr>log_lock_timeouts := log_lock_timeouts (sys_cons s) + 1\<rparr>,
          sys_board := (sys_board s)\<lparr>b_log := l\<rparr>, sys_pc := Finishing True\<rparr>)"
| consumer_processes:
    "sys_pc s = Processing n short (r # rs) \<Longrightarrow>
     consumer_process_record r (sys_cons s, sys_board s) = Some (c, b) \<Longrightarrow>
     sys_step ops f tick_hz s
       (s\<lparr>sys_cons := c, sys_board := b, sys_pc := Processing n short rs, sys_received := sys_received s @ [r]\<rparr>)"
| consumer_batch_ends:
    "sys_pc s = Processing n short [] \<Longrightarrow>
     sys_step ops f tick_hz s
       (s\<lparr>sys_pc := (if short then Finishing False else if Suc n < 4 then Draining (Suc n) else Finishing True)\<rparr>)"
| consumer_ends_pass:
    "sys_pc s = Finishing again \<Longrightarrow>
     consumer_check_stall f now (task_producer_sample_count (sys_prod s)) us (sys_cons s, sys_board s) = Some (c, b) \<Longrightarrow>
     task_watchdog_checkin tick WDOG_CLIENT_CONSUMER (b_wdog b) = Some w \<Longrightarrow>
     sys_step ops f tick_hz s (s\<lparr>sys_cons := c, sys_board := b\<lparr>b_wdog := w\<rparr>, sys_pc := Waiting again\<rparr>)"

section \<open>The invariant\<close>

fun pending :: "consumer_pc \<Rightarrow> sensor_record_t list" where
  "pending (Processing n short rs) = rs"
| "pending _ = []"

text \<open>The consumer will look into the log before it waits for a message again.\<close>

fun awake :: "consumer_pc \<Rightarrow> bool" where
  "awake (Waiting backlog) = backlog"
| "awake (Handling m) = True"
| "awake (Draining n) = True"
| "awake (Processing n short rs) = (\<not> short)"
| "awake (Finishing again) = again"

definition sys_log :: "'q sys \<Rightarrow> sensor_record_t list" where
  "sys_log s = log_contents (b_log (sys_board s))"

definition sys_overwritten :: "'q sys \<Rightarrow> u32" where
  "sys_overwritten s = overwritten (s_ring (b_log (sys_board s)))"

definition sys_drops :: "'q sys \<Rightarrow> u32" where
  "sys_drops s = log_write_drops (p_stats (sys_prod s))"

definition sys_seq :: "'q sys \<Rightarrow> u32" where
  "sys_seq s = seq (p_record (sys_prod s))"

text \<open>The records stored and not yet processed, oldest first.\<close>

definition outstanding :: "'q sys \<Rightarrow> sensor_record_t list" where
  "outstanding s = pending (sys_pc s) @ sys_log s"

definition board_ok :: "'q board \<Rightarrow> bool" where
  "board_ok b \<longleftrightarrow> log_ok (b_log b) \<and> gpio_wf (b_gpio b) \<and> s_gpio_ready (b_gpio b) \<and> s_uart_ready (b_uart b) \<and>
     wdog_wf (b_wdog b) \<and> b_queue b \<noteq> None"

definition sys_ok :: "'q sys \<Rightarrow> bool" where
  "sys_ok s \<longleftrightarrow> board_ok (sys_board s) \<and> prod_wf (sys_prod s) \<and> list_all rec_ok (pending (sys_pc s))"

definition sys_accounts :: "'q sys \<Rightarrow> bool" where
  "sys_accounts s \<longleftrightarrow>
     sys_seq s = received_count (sys_cons s) + of_nat (length (outstanding s)) + sys_overwritten s + sys_drops s"

definition sys_lost_ok :: "'q sys \<Rightarrow> bool" where
  "sys_lost_ok s \<longleftrightarrow> lost (sys_cons s) = last_seq (sys_cons s) - received_count (sys_cons s) \<and>
     (if outstanding s = [] then last_seq (sys_cons s) else seq (last (outstanding s))) + of_nat (sys_unstored s) = sys_seq s"

definition sys_fifo :: "'q sys \<Rightarrow> bool" where
  "sys_fifo s \<longleftrightarrow> subseq (sys_received s @ outstanding s) (sys_stored s) \<and>
     received_count (sys_cons s) = of_nat (length (sys_received s)) \<and>
     of_nat (length (sys_stored s)) = of_nat (length (sys_received s @ outstanding s)) + sys_overwritten s"

definition sys_rung :: "('q \<Rightarrow> consumer_msg_t list) \<Rightarrow> 'q sys \<Rightarrow> bool" where
  "sys_rung contents s \<longleftrightarrow>
     sys_log s = [] \<or> drain_paused (sys_cons s) \<or> awake (sys_pc s) \<or> p_doorbell_pending (sys_prod s) \<or>
     (\<exists>q. b_queue (sys_board s) = Some q \<and> data_ready \<in> set (contents q))"

definition sys_inv :: "('q \<Rightarrow> consumer_msg_t list) \<Rightarrow> 'q sys \<Rightarrow> bool" where
  "sys_inv contents s \<longleftrightarrow> sys_ok s \<and> sys_accounts s \<and> sys_lost_ok s \<and> sys_fifo s \<and> sys_rung contents s"

text \<open>How the tasks find the system when the scheduler starts.\<close>

definition sys_start :: "'q sys \<Rightarrow> bool" where
  "sys_start s \<longleftrightarrow> sys_ok s \<and> sys_log s = [] \<and> sys_overwritten s = 0 \<and> sys_seq s = 0 \<and> sys_drops s = 0 \<and>
     \<not> p_doorbell_pending (sys_prod s) \<and> sys_pc s = Waiting False \<and> received_count (sys_cons s) = 0 \<and>
     last_seq (sys_cons s) = 0 \<and> lost (sys_cons s) = 0 \<and> sys_stored s = [] \<and> sys_received s = [] \<and> sys_unstored s = 0"

lemma sys_start_inv: "sys_start s \<Longrightarrow> sys_inv contents s"
  by (simp add: sys_start_def sys_inv_def sys_accounts_def sys_lost_ok_def sys_fifo_def sys_rung_def outstanding_def)

section \<open>Every step keeps it\<close>

lemma sys_inv_frame:
  assumes "sys_inv contents s" "sys_ok t" "sys_rung contents t"
    and "s_ring (b_log (sys_board t)) = s_ring (b_log (sys_board s))"
    and "sys_seq t = sys_seq s" "sys_drops t = sys_drops s"
    and "received_count (sys_cons t) = received_count (sys_cons s)" "last_seq (sys_cons t) = last_seq (sys_cons s)"
    and "lost (sys_cons t) = lost (sys_cons s)" "pending (sys_pc t) = pending (sys_pc s)"
    and "sys_stored t = sys_stored s" "sys_received t = sys_received s" "sys_unstored t = sys_unstored s"
  shows "sys_inv contents t"
proof -
  have eqs: "outstanding t = outstanding s" "sys_overwritten t = sys_overwritten s"
    by (simp_all add: outstanding_def sys_log_def log_contents_def sys_overwritten_def assms(4,10))
  have "sys_accounts t = sys_accounts s" "sys_lost_ok t = sys_lost_ok s" "sys_fifo t = sys_fifo s"
    by (simp_all only: sys_accounts_def sys_lost_ok_def sys_fifo_def eqs assms(5-13))
  then show ?thesis using assms(1-3) by (simp add: sys_inv_def)
qed

lemma sys_rung_frame:
  assumes "sys_rung contents s" "s_ring (b_log (sys_board t)) = s_ring (b_log (sys_board s))"
    and "drain_paused (sys_cons s) \<Longrightarrow> drain_paused (sys_cons t) \<or> awake (sys_pc t)"
    and "awake (sys_pc s) \<Longrightarrow> drain_paused (sys_cons t) \<or> awake (sys_pc t)"
    and "p_doorbell_pending (sys_prod s) \<Longrightarrow> p_doorbell_pending (sys_prod t)"
    and "\<And>q. b_queue (sys_board s) = Some q \<Longrightarrow> data_ready \<in> set (contents q) \<Longrightarrow>
      awake (sys_pc t) \<or> (\<exists>q'. b_queue (sys_board t) = Some q' \<and> data_ready \<in> set (contents q'))"
  shows "sys_rung contents t"
proof -
  have "sys_log t = sys_log s" by (simp add: sys_log_def log_contents_def assms(2))
  then show ?thesis using assms(1,3-6) unfolding sys_rung_def by metis
qed

lemma board_ok_wdog: "board_ok b \<Longrightarrow> wdog_wf w \<Longrightarrow> board_ok (b\<lparr>b_wdog := w\<rparr>)"
  by (simp add: board_ok_def)

lemma told_board_ok:
  assumes "told b w b'" "board_ok b" "wdog_wf w"
  shows "board_ok b'"
  using told_simps [OF assms(1)] assms(2,3) by (simp add: board_ok_def)

lemma sys_okD:
  assumes "sys_ok s"
  shows "log_ok (b_log (sys_board s))" "gpio_wf (b_gpio (sys_board s))" "s_gpio_ready (b_gpio (sys_board s))"
    "s_uart_ready (b_uart (sys_board s))" "wdog_wf (b_wdog (sys_board s))" "prod_wf (sys_prod s)"
    "list_all rec_ok (pending (sys_pc s))" "\<exists>q. b_queue (sys_board s) = Some q" "board_ok (sys_board s)"
  using assms by (auto simp: sys_ok_def board_ok_def)

text \<open>A task that only checks in, or otherwise only touches the supervisor's state.\<close>

lemma inv_wdog_only:
  assumes "sys_inv contents s" "wdog_wf w"
  shows "sys_inv contents (s\<lparr>sys_board := (sys_board s)\<lparr>b_wdog := w\<rparr>\<rparr>)"
proof (rule sys_inv_frame [OF assms(1)])
  show "sys_ok (s\<lparr>sys_board := (sys_board s)\<lparr>b_wdog := w\<rparr>\<rparr>)"
    using assms(1,2) by (simp add: sys_inv_def sys_ok_def board_ok_def)
  show "sys_rung contents (s\<lparr>sys_board := (sys_board s)\<lparr>b_wdog := w\<rparr>\<rparr>)"
    using assms(1) by (simp add: sys_inv_def sys_rung_def sys_log_def)
qed (simp_all add: sys_seq_def sys_drops_def)

text \<open>Fields the invariant does not look at.\<close>

lemma sys_inv_flags:
  assumes "sys_inv contents s" "sys_board t = sys_board s" "sys_prod t = sys_prod s" "sys_cons t = sys_cons s"
    "sys_pc t = sys_pc s" "sys_stored t = sys_stored s" "sys_received t = sys_received s" "sys_unstored t = sys_unstored s"
  shows "sys_inv contents t"
  using assms(1)
  by (simp only: sys_inv_def sys_ok_def sys_accounts_def sys_lost_ok_def sys_fifo_def sys_rung_def outstanding_def
      sys_log_def sys_overwritten_def sys_seq_def sys_drops_def assms(2-8))

text \<open>The producer's sample.\<close>

lemma of_nat_Suc_length: "(of_nat (Suc n) :: u32) = of_nat n + 1"
  by simp

lemma subseq_append_one: "subseq (xs @ ys) zs \<Longrightarrow> subseq (xs @ ys @ [x]) (zs @ [x])"
  by (metis append_assoc list_emb_append_mono subseq_order.order_refl)

lemma subseq_drop_one: "subseq (xs @ ys) zs \<Longrightarrow> subseq (xs @ tl ys @ [x]) (zs @ [x])"
proof -
  assume "subseq (xs @ ys) zs"
  moreover have "subseq (xs @ tl ys) (xs @ ys)"
    by (cases ys) (auto intro!: list_emb_append_mono intro: list_emb_Cons)
  ultimately have "subseq (xs @ tl ys) zs" by (rule subseq_order.order_trans [rotated])
  then show ?thesis by (rule subseq_append_one)
qed

lemma push_next_overwritten:
  "overwritten (push_next r rb) = overwritten rb + (if ring_fill rb = unat (capacity rb) then 1 else 0)"
  by (simp add: push_next_def Let_def)

text \<open>What one sample does to the shared state, with everything the invariant looks at.\<close>

lemma sample_effect:
  assumes "queue_laws len contents ops" "board_ok b" "prod_wf p" "ulTaskNotifyTake env \<noteq> 0"
    and "producer_sample ops w env (p, b) = Some (due, p', b')"
  shows "board_ok b' \<and> prod_wf p' \<and> rec_ok (p_record p') \<and> seq (p_record p') = seq (p_record p) + 1 \<and>
    log_write_drops (p_stats p') = log_write_drops (p_stats p) + (if stored env w then 0 else 1) \<and>
    s_ring (b_log b') = (if stored env w then push_next (p_record p') (s_ring (b_log b)) else s_ring (b_log b)) \<and>
    (log_contents (b_log b') \<noteq> [] \<and>
       (log_contents (b_log b) \<noteq> [] \<longrightarrow> p_doorbell_pending p \<or> (\<exists>q. b_queue b = Some q \<and> data_ready \<in> set (contents q)))
     \<longrightarrow> p_doorbell_pending p' \<or> (\<exists>q. b_queue b' = Some q \<and> data_ready \<in> set (contents q))) \<and>
    (p_doorbell_pending p \<longrightarrow> p_doorbell_pending p' \<or> (\<exists>q. b_queue b' = Some q \<and> data_ready \<in> set (contents q))) \<and>
    (\<forall>q. b_queue b = Some q \<longrightarrow> (\<exists>q'. b_queue b' = Some q' \<and> set (contents q) \<subseteq> set (contents q')))"
proof -
  have ok: "log_wf (b_log b)" "gpio_wf (b_gpio b)" "log_ok (b_log b)" using assms(2) by (simp_all add: board_ok_def)
  obtain q where q: "b_queue b = Some q" using assms(2) by (auto simp: board_ok_def)
  define r where "r = sampled_record env p b"
  obtain st lwe where run: "producer_sample ops w env (p, b) = Some (True,
      \<lparr>p_stats = st, p_record = r, p_prev_capture_us = capture_us r, p_log_was_empty = lwe,
       p_doorbell_pending = (if rings env w p b then \<not> fst (xQueueSend ops data_ready q) else p_doorbell_pending p)\<rparr>,
      b\<lparr>b_log := log_next env w r (b_log b),
        b_queue := Some (if rings env w p b then snd (xQueueSend ops data_ready q) else q)\<rparr>)"
    and st: "log_write_drops st = log_write_drops (p_stats p) + (if stored env w then 0 else 1)"
      "length (raw_code (sensor_min st)) = 7" "length (raw_code (sensor_max st)) = 7"
    using producer_sample_eq [OF ok(1,2) assms(3,4) q r_def, of ops w] assms(3)
    by (auto simp: stats_next_def prod_wf_def r_def sampled_record_def data_ready_def [symmetric] simp del: upt_rec_numeral)
  have r: "rec_ok r" "seq r = seq (p_record p) + 1" by (simp_all add: r_def sampled_record_def rec_ok_length)
  have p': "p' = \<lparr>p_stats = st, p_record = r, p_prev_capture_us = capture_us r, p_log_was_empty = lwe,
       p_doorbell_pending = (if rings env w p b then \<not> fst (xQueueSend ops data_ready q) else p_doorbell_pending p)\<rparr>"
    and b': "b' = b\<lparr>b_log := log_next env w r (b_log b),
        b_queue := Some (if rings env w p b then snd (xQueueSend ops data_ready q) else q)\<rparr>"
    using assms(5) run by auto
  note qs = queue_lawsD(1,2) [OF assms(1), of data_ready q]
  have log': "log_ok (log_next env w r (b_log b))"
    using ok(3) r(1) by (simp add: log_next_def log_ok_push)
  have ring: "s_ring (log_next env w r (b_log b)) = (if stored env w then push_next r (s_ring (b_log b)) else s_ring (b_log b))"
    by (simp add: log_next_def)
  have empty: "log_contents (log_next env w r (b_log b)) \<noteq> [] \<Longrightarrow> log_contents (b_log b) = [] \<Longrightarrow> stored env w"
    using ring by (auto simp: log_contents_def split: if_splits)
  have sent: "fst (xQueueSend ops data_ready q) \<Longrightarrow> data_ready \<in> set (contents (snd (xQueueSend ops data_ready q)))"
    using qs by simp
  have kept: "set (contents q) \<subseteq> set (contents (snd (xQueueSend ops data_ready q)))"
    using qs(2) by auto
  have bell: "log_contents (log_next env w r (b_log b)) \<noteq> [] \<Longrightarrow> log_contents (b_log b) = [] \<Longrightarrow> rings env w p b"
    using empty by (simp add: rings_def)
  show ?thesis
    unfolding p' b' using assms(2) st r log' ring sent kept bell q
    by (auto simp: board_ok_def prod_wf_def rec_ok_length)
qed

lemma inv_takes_sample:
  assumes "queue_laws len contents ops" "sys_inv contents s" "ulTaskNotifyTake env \<noteq> 0"
    and "producer_sample ops w env (sys_prod s, sys_board s) = Some (due, p, b)"
    and "t = s\<lparr>sys_prod := p, sys_board := b, sys_checkin_due := due,
          sys_stored := (if stored env w then sys_stored s @ [p_record p] else sys_stored s),
          sys_unstored := (if stored env w then 0 else Suc (sys_unstored s))\<rparr>"
  shows "sys_inv contents t"
proof -
  have ok: "sys_ok s" "sys_accounts s" "sys_lost_ok s" "sys_fifo s" "sys_rung contents s"
    using assms(2) by (simp_all add: sys_inv_def)
  note okD = sys_okD [OF ok(1)]
  note e = sample_effect [OF assms(1) okD(9,6) assms(3,4)]
  have ring: "ring_wf (s_ring (b_log (sys_board s)))" using okD(1) by (simp add: log_ok_def log_wf_def)
  let ?full = "ring_fill (s_ring (b_log (sys_board s))) = unat (capacity (s_ring (b_log (sys_board s))))"
  have cap: "?full \<Longrightarrow> sys_log s \<noteq> []"
    using ring_wfD(7) [OF ring] by (metis sys_log_def log_contents_def length_ring_contents list.size(3) less_irrefl)
  have log: "sys_log t = (if stored env w then (if ?full then tl (sys_log s) else sys_log s) @ [p_record p] else sys_log s)"
    using e by (simp add: assms(5) sys_log_def log_contents_def push_next_contents [OF ring])
  have ovw: "sys_overwritten t = sys_overwritten s + (if stored env w \<and> ?full then 1 else 0)"
    using e by (simp add: assms(5) sys_overwritten_def push_next_overwritten)
  have rest: "sys_seq t = sys_seq s + 1" "sys_drops t = sys_drops s + (if stored env w then 0 else 1)"
      "sys_cons t = sys_cons s" "sys_pc t = sys_pc s" "sys_received t = sys_received s"
      "sys_stored t = (if stored env w then sys_stored s @ [p_record p] else sys_stored s)"
      "sys_unstored t = (if stored env w then 0 else Suc (sys_unstored s))" "seq (p_record p) = sys_seq t"
    using e by (simp_all add: assms(5) sys_seq_def sys_drops_def)
  have out: "outstanding t = (if stored env w then pending (sys_pc s) @ (if ?full then tl (sys_log s) else sys_log s) @ [p_record p]
      else outstanding s)"
    by (simp add: outstanding_def log rest)
  have len: "(of_nat (length (outstanding t)) :: u32) = of_nat (length (outstanding s)) +
      (if stored env w \<and> \<not> ?full then 1 else 0)"
    using cap unfolding out by (cases "sys_log s") (auto simp: outstanding_def)
  have "sys_ok t" using ok(1) e by (simp add: sys_ok_def assms(5))
  moreover have "sys_accounts t"
    using ok(2) unfolding sys_accounts_def len ovw rest by auto
  moreover have "sys_lost_ok t"
    using ok(3) unfolding sys_lost_ok_def rest by (cases "stored env w") (auto simp: out rest)
  moreover have "sys_fifo t"
  proof (cases "stored env w")
    case False
    then show ?thesis using ok(4) unfolding sys_fifo_def rest out ovw by simp
  next
    case True
    have sub: "subseq ((sys_received s @ pending (sys_pc s)) @ sys_log s) (sys_stored s)"
      using ok(4) by (simp add: sys_fifo_def outstanding_def)
    have "subseq (sys_received t @ outstanding t) (sys_stored t)"
      using True subseq_drop_one [OF sub, of "p_record p"] subseq_append_one [OF sub, of "p_record p"]
      by (simp add: out rest)
    moreover have "(of_nat (length (sys_stored t)) :: u32) = of_nat (length (sys_received t @ outstanding t)) + sys_overwritten t"
      using ok(4) True unfolding sys_fifo_def ovw length_append of_nat_add len rest by auto
    ultimately show ?thesis using ok(4) by (simp add: sys_fifo_def rest)
  qed
  moreover have "sys_rung contents t"
  proof -
    have "sys_log t \<noteq> [] \<and>
       (sys_log s \<noteq> [] \<longrightarrow> p_doorbell_pending (sys_prod s) \<or> (\<exists>q. b_queue (sys_board s) = Some q \<and> data_ready \<in> set (contents q)))
     \<longrightarrow> p_doorbell_pending p \<or> (\<exists>q. b_queue b = Some q \<and> data_ready \<in> set (contents q))"
      using e by (simp add: sys_log_def assms(5))
    then show ?thesis using ok(5) unfolding sys_rung_def by (auto simp: rest assms(5))
  qed
  ultimately show ?thesis by (simp add: sys_inv_def)
qed

text \<open>The consumer reads a batch, and processes a record.\<close>

lemma inv_reads:
  assumes "sys_inv contents s" "sys_pc s = Draining n" "length batch = 16"
    and "sensor_log_read env (Some batch) APP_LOG_READ_BATCH w (Some 0) (b_log (sys_board s)) = Some (True, Some out, Some count, l)"
    and "t = s\<lparr>sys_board := (sys_board s)\<lparr>b_log := l\<rparr>,
          sys_pc := Processing n (count < APP_LOG_READ_BATCH) (take (unat count) out)\<rparr>"
  shows "sys_inv contents t"
proof -
  have ok: "sys_ok s" "sys_accounts s" "sys_lost_ok s" "sys_fifo s" using assms(1) by (simp_all add: sys_inv_def)
  note okD = sys_okD [OF ok(1)]
  let ?xs = "sys_log s"
  note read = read_batch_eq(1,2) [OF okD(1) assms(3), of env w, folded sys_log_def]
  have granted: "xSemaphoreTake env w" using assms(4) read(1) by (auto split: if_splits)
  have out: "out = take 16 ?xs @ drop (min 16 (length ?xs)) batch" "count = of_nat (min 16 (length ?xs))"
      "l = log_locked env w ((b_log (sys_board s))\<lparr>s_ring := pop_next 16 (s_ring (b_log (sys_board s)))\<rparr>)"
    using assms(4) read(1) granted by auto
  have l: "popped_to 16 (b_log (sys_board s)) l" unfolding out(3) by (rule read(2))
  have cnt: "unat count = min 16 (length ?xs)" unfolding out(2) by (rule batch_count)
  have taken: "take (unat count) out = take 16 ?xs" by (simp add: cnt out(1) min_def)
  have short: "count < APP_LOG_READ_BATCH \<longleftrightarrow> length ?xs < 16" unfolding out(2) by (rule batch_short)
  have pend: "pending (sys_pc s) = []" "pending (sys_pc t) = take 16 ?xs" by (simp_all add: assms(2,5) taken)
  have logs: "sys_log t = drop 16 ?xs" "sys_overwritten t = sys_overwritten s"
    using l by (simp_all add: assms(5) sys_log_def sys_overwritten_def popped_to_def)
  have out_same: "outstanding t = outstanding s" by (simp add: outstanding_def pend logs)
  have rest: "sys_seq t = sys_seq s" "sys_drops t = sys_drops s" "sys_cons t = sys_cons s"
      "sys_stored t = sys_stored s" "sys_received t = sys_received s" "sys_unstored t = sys_unstored s"
    by (simp_all add: assms(5) sys_seq_def sys_drops_def)
  have "list_all rec_ok (take 16 ?xs)"
    using log_ok_contents [OF okD(1)] by (auto simp: list_all_iff sys_log_def dest: in_set_takeD)
  then have "sys_ok t" using ok(1) l by (simp add: sys_ok_def board_ok_def assms(5) taken popped_to_def)
  moreover have "sys_rung contents t"
  proof (cases "length ?xs < 16")
    case True
    then show ?thesis by (simp add: sys_rung_def logs)
  next
    case False
    then have "awake (sys_pc t)" by (simp add: assms(5) short)
    then show ?thesis by (simp add: sys_rung_def)
  qed
  moreover have "sys_accounts t = sys_accounts s" "sys_lost_ok t = sys_lost_ok s" "sys_fifo t = sys_fifo s"
    by (simp_all only: sys_accounts_def sys_lost_ok_def sys_fifo_def out_same logs(2) rest)
  ultimately show ?thesis using ok by (simp add: sys_inv_def)
qed

lemma inv_processes:
  assumes "sys_inv contents s" "sys_pc s = Processing n short (r # rs)"
    and "consumer_process_record r (sys_cons s, sys_board s) = Some (c, b)"
    and "t = s\<lparr>sys_cons := c, sys_board := b, sys_pc := Processing n short rs, sys_received := sys_received s @ [r]\<rparr>"
  shows "sys_inv contents t"
proof -
  have ok: "sys_ok s" "sys_accounts s" "sys_lost_ok s" "sys_fifo s" "sys_rung contents s"
    using assms(1) by (simp_all add: sys_inv_def)
  note okD = sys_okD [OF ok(1)]
  have r: "rec_ok r" "list_all rec_ok rs" using okD(7) by (simp_all add: assms(2))
  have c: "c = counted r (sys_cons s)"
    and b: "b = (sys_board s)\<lparr>b_gpio := blinked (sys_cons s) (b_gpio (sys_board s)),
      b_uart := console_text (line_of (sys_cons s) r) (b_uart (sys_board s))\<rparr>"
    using assms(3) by (simp_all add: process_record_eq [OF r(1)])
  have out: "outstanding s = r # outstanding t" by (simp add: outstanding_def assms(2,4) sys_log_def b)
  have rest: "sys_seq t = sys_seq s" "sys_drops t = sys_drops s" "sys_overwritten t = sys_overwritten s"
      "sys_stored t = sys_stored s" "sys_received t = sys_received s @ [r]" "sys_unstored t = sys_unstored s"
      "sys_cons t = counted r (sys_cons s)" "sys_log t = sys_log s"
    by (simp_all add: assms(4) sys_seq_def sys_drops_def sys_overwritten_def sys_log_def b c)
  have "sys_ok t" using ok(1) r by (simp add: sys_ok_def board_ok_def assms(4) b gpio_wf_def)
  moreover have "sys_accounts t" using ok(2) by (simp add: sys_accounts_def out rest)
  moreover have "sys_lost_ok t"
    using ok(3) by (auto simp: sys_lost_ok_def out rest)
  moreover have "sys_fifo t" using ok(4) by (simp add: sys_fifo_def out rest)
  moreover have "sys_rung contents t"
    using ok(5) by (simp add: sys_rung_def rest assms(2)) (simp add: assms(4) b)
  ultimately show ?thesis by (simp add: sys_inv_def)
qed

text \<open>The steps that leave the records alone.\<close>

lemma inv_timeout:
  assumes "sys_inv contents s" "ulTaskNotifyTake env = 0"
    and "producer_sample ops w env (sys_prod s, sys_board s) = Some (due, p, b)"
  shows "sys_inv contents (s\<lparr>sys_prod := p, sys_board := b, sys_checkin_due := due\<rparr>)"
proof -
  have pb: "b = sys_board s" "p = (sys_prod s)\<lparr>p_stats := (p_stats (sys_prod s))\<lparr>timeouts := timeouts (p_stats (sys_prod s)) + 1\<rparr>\<rparr>"
    using assms(2,3) by (auto simp: producer_sample_def Let_def)
  show ?thesis
  proof (rule sys_inv_frame [OF assms(1)])
    show "sys_ok (s\<lparr>sys_prod := p, sys_board := b, sys_checkin_due := due\<rparr>)"
      using assms(1) by (simp add: sys_inv_def sys_ok_def prod_wf_def pb)
    show "sys_rung contents (s\<lparr>sys_prod := p, sys_board := b, sys_checkin_due := due\<rparr>)"
      using assms(1) by (simp add: sys_inv_def sys_rung_def sys_log_def pb)
  qed (simp_all add: pb sys_seq_def sys_drops_def)
qed

lemma inv_ui:
  assumes "queue_laws len contents ops" "sys_inv contents s" "\<exists>x\<in>set polls. \<not> rx_has_data x"
    and "ui_poll ops bits pins polls ch (sys_ui_dropped s, sys_board s) = Some (d, b)"
  shows "sys_inv contents (s\<lparr>sys_ui_dropped := d, sys_board := b, sys_ui_due := True\<rparr>)"
proof -
  have ok: "sys_ok s" using assms(2) by (simp add: sys_inv_def)
  note okD = sys_okD [OF ok]
  obtain q where q: "b_queue (sys_board s) = Some q" using okD(8) by blast
  obtain d' q0 g' u' where
    run: "ui_poll ops bits pins polls ch (sys_ui_dropped s, sys_board s) =
        Some (d', (sys_board s)\<lparr>b_gpio := g', b_uart := u', b_queue := q0\<rparr>)"
      "gpio_wf g'" "s_gpio_ready g'" "s_uart_ready u'"
      "(d', q0) = fold (send_msg ops) (pass_msgs pins polls (b_gpio (sys_board s))) (sys_ui_dropped s, Some q)"
    using ui_poll_eq [OF okD(2,3,4) assms(3), of ops bits pins ch "sys_ui_dropped s"] unfolding q by blast
  obtain q' where q': "q0 = Some q'" "set (contents q) \<subseteq> set (contents q')"
    using send_all_msgs [OF assms(1), of "pass_msgs pins polls (b_gpio (sys_board s))" "sys_ui_dropped s" q] run(5) by auto
  have b: "b = (sys_board s)\<lparr>b_gpio := g', b_uart := u', b_queue := Some q'\<rparr>" using assms(4) run(1) q'(1) by simp
  show ?thesis
  proof (rule sys_inv_frame [OF assms(2)])
    show "sys_ok (s\<lparr>sys_ui_dropped := d, sys_board := b, sys_ui_due := True\<rparr>)"
      using ok run(2-4) by (simp add: sys_ok_def board_ok_def b)
    show "sys_rung contents (s\<lparr>sys_ui_dropped := d, sys_board := b, sys_ui_due := True\<rparr>)"
      using assms(2) q q'(2) by (auto simp: sys_inv_def sys_rung_def sys_log_def b)
  qed (simp_all add: sys_seq_def sys_drops_def b)
qed

lemma inv_supervisor:
  assumes "sys_inv contents s" "wdog_pass hz now (sys_wdog s) = Some t"
  shows "sys_inv contents (s\<lparr>sys_kicking := kicking t,
    sys_board := (sys_board s)\<lparr>b_wdog := wdog t, b_wdt := wdog_wdt t, b_uart := wdog_uart t\<rparr>\<rparr>)"
proof -
  have ok: "sys_ok s" using assms(1) by (simp add: sys_inv_def)
  note okD = sys_okD [OF ok]
  have wf: "wdog_wf (wdog (sys_wdog s))" using okD(5) by (simp add: sys_wdog_def)
  have t: "t = pass_next hz now (sys_wdog s)" using assms(2) wdog_pass_eq [OF wf] by simp
  have up: "s_uart_ready (wdog_uart t)"
    using okD(4) by (simp add: t pass_next_def Let_def sys_wdog_def split: option.split)
  show ?thesis
  proof (rule sys_inv_frame [OF assms(1)])
    show "sys_ok (s\<lparr>sys_kicking := kicking t,
        sys_board := (sys_board s)\<lparr>b_wdog := wdog t, b_wdt := wdog_wdt t, b_uart := wdog_uart t\<rparr>\<rparr>)"
      using ok up wf by (simp add: sys_ok_def board_ok_def t)
    show "sys_rung contents (s\<lparr>sys_kicking := kicking t,
        sys_board := (sys_board s)\<lparr>b_wdog := wdog t, b_wdt := wdog_wdt t, b_uart := wdog_uart t\<rparr>\<rparr>)"
      using assms(1) by (simp add: sys_inv_def sys_rung_def sys_log_def)
  qed (simp_all add: sys_seq_def sys_drops_def)
qed

lemma inv_receives:
  assumes "queue_laws len contents ops" "sys_inv contents s" "sys_pc s = Waiting bl"
    and "consumer_receive ops w (sys_cons s, sys_board s) = Some (msg, c, b)"
  shows "sys_inv contents (s\<lparr>sys_cons := c, sys_board := b, sys_pc := Handling msg\<rparr>)"
proof -
  have ok: "sys_ok s" using assms(2) by (simp add: sys_inv_def)
  obtain q where q: "b_queue (sys_board s) = Some q" using sys_okD(8) [OF ok] by blast
  obtain q' where "b = (sys_board s)\<lparr>b_queue := Some q'\<rparr>"
      "c = (sys_cons s)\<lparr>queue_depth_peak := queue_depth_peak c\<rparr>"
    using consumer_receive_eq [OF assms(1) q, of w "sys_cons s"] assms(4) by (auto split: if_splits)
  note b = this(1) and c = this(2)
  have cf: "received_count c = received_count (sys_cons s)" "last_seq c = last_seq (sys_cons s)" "lost c = lost (sys_cons s)"
    by (subst c, simp)+
  show ?thesis
    by (rule sys_inv_frame [OF assms(2)])
      (use ok in \<open>simp_all add: sys_ok_def board_ok_def b cf assms(3) sys_seq_def sys_drops_def sys_rung_def\<close>)
qed

lemma inv_pc_only:
  assumes "sys_inv contents s" "pending pc = pending (sys_pc s)"
    and "awake (sys_pc s) \<longrightarrow> awake pc \<or> drain_paused (sys_cons s)"
  shows "sys_inv contents (s\<lparr>sys_pc := pc\<rparr>)"
proof (rule sys_inv_frame [OF assms(1)])
  show "sys_ok (s\<lparr>sys_pc := pc\<rparr>)" using assms(1,2) by (simp add: sys_inv_def sys_ok_def)
  show "sys_rung contents (s\<lparr>sys_pc := pc\<rparr>)"
    using assms(1,3) by (auto simp: sys_inv_def sys_rung_def sys_log_def)
qed (simp_all add: sys_seq_def sys_drops_def assms(2))

lemma inv_handles:
  assumes "sys_inv contents s" "sys_pc s = Handling (Some m)" "v_prod_stats v = p_stats (sys_prod s)"
    and "consumer_handle_msg f v m (sys_cons s, sys_board s) = Some (c, b)"
  shows "sys_inv contents (s\<lparr>sys_cons := c, sys_board := b, sys_pc := Draining 0\<rparr>)"
proof -
  have ok: "sys_ok s" using assms(1) by (simp add: sys_inv_def)
  note okD = sys_okD [OF ok]
  have v: "view_ok v" using okD(6) by (simp add: view_ok_def assms(3) prod_wf_def)
  have cb: "c = msg_settings m (sys_cons s)" "told (sys_board s) (msg_wdog m (b_wdog (sys_board s))) b"
    using handle_msg_eq [OF okD(1,5) v, of m f "sys_cons s"] assms(4) by (auto split: if_splits)
  have "board_ok b" by (rule told_board_ok [OF cb(2) okD(9) msg_wdog_wf [OF okD(5)]])
  with ok told_simps(6) [OF cb(2)] show ?thesis
    by (intro sys_inv_frame [OF assms(1)])
      (simp_all add: sys_ok_def cb(1) assms(2) sys_seq_def sys_drops_def sys_rung_def)
qed

lemma inv_read_times_out:
  assumes "sys_inv contents s" "sys_pc s = Draining n" "length batch = 16"
    and "sensor_log_read env (Some batch) APP_LOG_READ_BATCH w (Some 0) (b_log (sys_board s)) = Some (False, out, count, l)"
  shows "sys_inv contents (s\<lparr>sys_cons := (sys_cons s)\<lparr>log_lock_timeouts := log_lock_timeouts (sys_cons s) + 1\<rparr>,
    sys_board := (sys_board s)\<lparr>b_log := l\<rparr>, sys_pc := Finishing True\<rparr>)"
proof -
  have ok: "sys_ok s" using assms(1) by (simp add: sys_inv_def)
  note okD = sys_okD [OF ok]
  have l: "l = log_timeout w (b_log (sys_board s))"
    using assms(4) read_batch_eq(1) [OF okD(1) assms(3), of env w] by (auto split: if_splits)
  show ?thesis
    by (rule sys_inv_frame [OF assms(1)])
      (use ok in \<open>simp_all add: sys_ok_def board_ok_def l assms(2) sys_seq_def sys_drops_def sys_rung_def\<close>)
qed

lemma inv_ends_pass:
  assumes "sys_inv contents s" "sys_pc s = Finishing again"
    and "consumer_check_stall f now n us (sys_cons s, sys_board s) = Some (c, b)"
    and "task_watchdog_checkin tick WDOG_CLIENT_CONSUMER (b_wdog b) = Some w"
  shows "sys_inv contents (s\<lparr>sys_cons := c, sys_board := b\<lparr>b_wdog := w\<rparr>, sys_pc := Waiting again\<rparr>)"
proof -
  have ok: "sys_ok s" using assms(1) by (simp add: sys_inv_def)
  note okD = sys_okD [OF ok]
  from stall_frame [of f now n us "sys_cons s" "sys_board s"] obtain tx where
    b: "b = (sys_board s)\<lparr>b_uart := console_text tx (b_uart (sys_board s))\<rparr>"
    and c: "c = (sys_cons s)\<lparr>last_producer_samples := last_producer_samples c, last_progress_tick := last_progress_tick c,
        stall_reported := stall_reported c\<rparr>"
    unfolding assms(3) by auto
  have cf: "received_count c = received_count (sys_cons s)" "last_seq c = last_seq (sys_cons s)"
      "lost c = lost (sys_cons s)" "drain_paused c = drain_paused (sys_cons s)"
    by (subst c, simp)+
  have "wdog_wf w" using checkin_wf [OF _ _ assms(4)] okD(5) by (simp add: b)
  then show ?thesis
    using ok assms(1)
    by (intro sys_inv_frame [OF assms(1)])
      (simp_all add: sys_ok_def board_ok_def b cf assms(2) sys_seq_def sys_drops_def sys_inv_def sys_rung_def sys_log_def)
qed

lemma sys_step_inv:
  assumes "queue_laws len contents ops" "sys_inv contents s" "sys_step ops f hz s t"
  shows "sys_inv contents t"
  using assms(3)
proof cases
  case (producer_timeout env due p b)
  then show ?thesis using inv_timeout [OF assms(2)] by blast
next
  case (producer_takes_sample env w due p b)
  then show ?thesis using inv_takes_sample [OF assms(1,2)] by blast
next
  case (producer_checks_in now w)
  have ok: "sys_ok s" using assms(2) by (simp add: sys_inv_def)
  have "wdog_wf w" using checkin_wf [OF _ _ producer_checks_in(3)] sys_okD(5) [OF ok] by simp
  from inv_wdog_only [OF assms(2) this]
  have "sys_inv contents (s\<lparr>sys_board := (sys_board s)\<lparr>b_wdog := w\<rparr>, sys_checkin_due := False\<rparr>)"
    by (rule sys_inv_flags) simp_all
  then show ?thesis using producer_checks_in(1) by simp
next
  case (ui_polls polls bits pins ch d b)
  then show ?thesis using inv_ui [OF assms(1,2)] by blast
next
  case (ui_checks_in now w)
  have ok: "sys_ok s" using assms(2) by (simp add: sys_inv_def)
  have "wdog_wf w" using checkin_wf [OF _ _ ui_checks_in(3)] sys_okD(5) [OF ok] by simp
  from inv_wdog_only [OF assms(2) this]
  have "sys_inv contents (s\<lparr>sys_board := (sys_board s)\<lparr>b_wdog := w\<rparr>, sys_ui_due := False\<rparr>)"
    by (rule sys_inv_flags) simp_all
  then show ?thesis using ui_checks_in(1) by simp
next
  case (supervisor_pass now u)
  then show ?thesis using inv_supervisor [OF assms(2)] by blast
next
  case (consumer_receives bl msg c b)
  then show ?thesis using inv_receives [OF assms(1,2)] by blast
next
  case consumer_has_no_message
  then show ?thesis using inv_pc_only [OF assms(2), of "Draining 0"] by simp
next
  case (consumer_handles m v c b)
  then show ?thesis using inv_handles [OF assms(2)] by blast
next
  case consumer_paused
  then show ?thesis using inv_pc_only [OF assms(2), of "Finishing False"] by simp
next
  case (consumer_reads n batch env out count l)
  then show ?thesis using inv_reads [OF assms(2)] by blast
next
  case (consumer_read_times_out n batch env out count l)
  then show ?thesis using inv_read_times_out [OF assms(2)] by blast
next
  case (consumer_processes n short r rs c b)
  then show ?thesis using inv_processes [OF assms(2)] by blast
next
  case (consumer_batch_ends n short)
  then show ?thesis
    using inv_pc_only [OF assms(2), of "if short then Finishing False else if Suc n < 4 then Draining (Suc n) else Finishing True"]
    by simp
next
  case (consumer_ends_pass again now us c b tick w)
  then show ?thesis using inv_ends_pass [OF assms(2)] by blast
qed

interpretation sys: inductive_invariant sys_start "sys_step ops f hz"
  "\<lambda>s. queue_laws len contents ops \<longrightarrow> sys_inv contents s" for ops f hz len contents
  by unfold_locales (auto intro: sys_start_inv sys_step_inv)

section \<open>Nothing faults\<close>

lemma sample_returns:
  assumes "board_ok b" "prod_wf p"
  shows "\<exists>due p' b'. producer_sample ops w env (p, b) = Some (due, p', b') \<and> (due \<longleftrightarrow> ulTaskNotifyTake env \<noteq> 0)"
proof (cases "ulTaskNotifyTake env = 0")
  case True
  then show ?thesis by (intro exI [of _ False]) (simp add: producer_sample_def)
next
  case False
  obtain q where q: "b_queue b = Some q" using assms(1) by (auto simp: board_ok_def)
  have "log_wf (b_log b)" "gpio_wf (b_gpio b)" using assms(1) by (simp_all add: board_ok_def)
  from producer_sample_eq [OF this assms(2) False q refl, of ops w] False show ?thesis by auto
qed

definition demo_sys :: "consumer_msg_t list sys" where
  "demo_sys = \<lparr>sys_board = demo_board, sys_prod = demo_producer, sys_checkin_due = False, sys_ui_due = False,
     sys_ui_dropped = 0, sys_kicking = True, sys_cons = consumer_idle, sys_pc = Waiting False, sys_stored = [],
     sys_received = [], sys_unstored = 0\<rparr>"

lemma demo_producer_wf: "prod_wf demo_producer"
  by (simp add: demo_producer_def prod_wf_def zero_record_def zero_sample_def producer_stats_start_def)

lemma demo_board_ok: "board_ok demo_board"
  by (simp add: board_ok_def)

lemma demo_sys_start: "sys_start demo_sys"
proof -
  have "overwritten (s_ring demo_log) = 0" by (simp add: demo_log_def ring_empty2_def)
  moreover have "sys_ok demo_sys" using demo_board_ok demo_producer_wf by (simp add: sys_ok_def demo_sys_def)
  moreover have "seq (p_record demo_producer) = 0" "log_write_drops (p_stats demo_producer) = 0"
      "\<not> p_doorbell_pending demo_producer"
    by (simp_all add: demo_producer_def zero_record_def producer_stats_start_def)
  ultimately show ?thesis
    by (simp add: sys_start_def sys_log_def sys_overwritten_def sys_seq_def sys_drops_def)
      (simp add: demo_sys_def consumer_idle_def)
qed

text \<open>The example after one sample, with the mutex obtained or not.\<close>

lemma demo_one_sample:
  obtains s where "(sys_step (list_queue 16) (\<lambda>ms. ms) 100)\<^sup>*\<^sup>* demo_sys s"
    "sys_cons s = consumer_idle" "sys_pc s = Waiting False" "sys_seq s = 1"
    "sys_drops s = (if mutex then 0 else 1)" "length (sys_log s) = (if mutex then 1 else 0)"
    "sys_overwritten s = 0" "sys_unstored s = (if mutex then 0 else 1)" "sys_checkin_due s"
proof -
  let ?env = "demo_env mutex" and ?w = "APP_LOG_WRITE_WAIT_MS"
  have env: "ulTaskNotifyTake ?env \<noteq> 0" "stored ?env ?w = mutex" by (simp_all add: demo_env_def stored_def)
  obtain p b where run: "producer_sample (list_queue 16) ?w ?env (demo_producer, demo_board) = Some (True, p, b)"
    using sample_returns [OF demo_board_ok demo_producer_wf, of "list_queue 16" ?w ?env] env(1) by auto
  note e = sample_effect [OF list_queue_laws demo_board_ok demo_producer_wf env(1) run]
  define s where "s = demo_sys\<lparr>sys_prod := p, sys_board := b, sys_checkin_due := True,
          sys_stored := (if stored ?env ?w then sys_stored demo_sys @ [p_record p] else sys_stored demo_sys),
          sys_unstored := (if stored ?env ?w then 0 else Suc (sys_unstored demo_sys))\<rparr>"
  have "sys_step (list_queue 16) (\<lambda>ms. ms) 100 demo_sys s"
    unfolding s_def using env(1) run by (intro sys_step.producer_takes_sample) (simp_all add: demo_sys_def)
  then have step: "(sys_step (list_queue 16) (\<lambda>ms. ms) 100)\<^sup>*\<^sup>* demo_sys s" by (rule r_into_rtranclp)
  have wf: "ring_wf ring_empty2" "ring_contents ring_empty2 = []" "s_ring demo_log = ring_empty2"
    using demo_log_wf by (simp_all add: log_wf_def log_contents_def demo_log_def)
  have ring2: "ring_fill ring_empty2 = 0" "unat (capacity ring_empty2) = 2" "overwritten ring_empty2 = 0"
    using wf(2) by (simp_all add: ring_empty2_def ring_fill_def)
  have start: "seq (p_record demo_producer) = 0" "log_write_drops (p_stats demo_producer) = 0"
    by (simp_all add: demo_producer_def zero_record_def producer_stats_start_def)
  have board: "s_ring (b_log b) = (if mutex then push_next (p_record p) ring_empty2 else ring_empty2)"
    using e by (simp add: env(2) wf(3))
  show thesis
  proof (rule that [OF step])
    show "sys_seq s = 1" "sys_drops s = (if mutex then 0 else 1)"
      using e by (simp_all add: s_def sys_seq_def sys_drops_def start env(2))
    show "length (sys_log s) = (if mutex then 1 else 0)" "sys_overwritten s = 0"
      by (simp_all add: s_def sys_log_def sys_overwritten_def log_contents_def board push_next_contents [OF wf(1)]
          push_next_overwritten push_next_fill [OF wf(1)] wf(2) ring2)
  qed (simp_all add: s_def demo_sys_def env(2))
qed

section \<open>Properties\<close>

text \<open>
  C4: In every reachable state of the four tasks, whatever the interleaving, the kernel's answers and
  the inputs, no sample is unaccounted for: the number of samples taken is the number the consumer
  has processed, plus those it has read or that wait in the log, plus those overwritten in a full
  log, plus those dropped because the mutex was busy (all modulo \<open>2 ^ 32\<close>). Once nothing is
  outstanding, the consumer's count of lost samples is the overwritten plus the dropped ones, less
  the samples dropped since the last one that was stored.
\<close>

theorem sys_samples_accounted:
  assumes "queue_laws len contents ops" "sys_start s0" "(sys_step ops f hz)\<^sup>*\<^sup>* s0 s"
  shows "sys_seq s = received_count (sys_cons s) + of_nat (length (outstanding s)) + sys_overwritten s + sys_drops s \<and>
    lost (sys_cons s) = last_seq (sys_cons s) - received_count (sys_cons s) \<and>
    (outstanding s = [] \<longrightarrow> lost (sys_cons s) = sys_overwritten s + sys_drops s - of_nat (sys_unstored s))"
proof -
  have "sys_inv contents s"
    using sys.inv_reachable [OF assms(3,2)] assms(1) by blast
  then have acc: "sys_seq s = received_count (sys_cons s) + of_nat (length (outstanding s)) + sys_overwritten s + sys_drops s"
    and lost: "lost (sys_cons s) = last_seq (sys_cons s) - received_count (sys_cons s)"
    and newest: "outstanding s = [] \<longrightarrow> last_seq (sys_cons s) = sys_seq s - of_nat (sys_unstored s)"
    by (auto simp: sys_inv_def sys_accounts_def sys_lost_ok_def eq_diff_eq)
  have "lost (sys_cons s) = sys_overwritten s + sys_drops s - of_nat (sys_unstored s)" if "outstanding s = []"
    using that newest unfolding lost acc by simp
  then show ?thesis using acc lost by blast
qed

lemma sys_samples_accounted_witness:
  "\<exists>s. (sys_step (list_queue 16) (\<lambda>ms. ms) 100)\<^sup>*\<^sup>* demo_sys s \<and> sys_seq s = 1 \<and> outstanding s = [] \<and>
     sys_seq s = received_count (sys_cons s) + sys_overwritten s + sys_drops s"
proof -
  obtain s where s: "(sys_step (list_queue 16) (\<lambda>ms. ms) 100)\<^sup>*\<^sup>* demo_sys s"
    "sys_pc s = Waiting False" "sys_seq s = 1" "sys_log s = []"
    using demo_one_sample [of False] by auto
  have out: "outstanding s = []" by (simp add: outstanding_def s)
  show ?thesis
    using sys_samples_accounted [OF list_queue_laws demo_sys_start s(1)] s(1,3) out by (intro exI [of _ s]) simp
qed

text \<open>
  C3: No wake-up is lost. In every reachable state in which the log holds a record, draining is not
  paused and the consumer is not already on its way to the log, a doorbell message waits in the
  consumer's queue or the producer still owes one; so when the consumer blocks on an empty queue
  the log is empty, or the producer rings with the next sample it stores.
\<close>

theorem sys_no_lost_wakeup:
  assumes "queue_laws len contents ops" "sys_start s0" "(sys_step ops f hz)\<^sup>*\<^sup>* s0 s"
    and "sys_log s \<noteq> []" "\<not> drain_paused (sys_cons s)" "\<not> awake (sys_pc s)"
  shows "p_doorbell_pending (sys_prod s) \<or>
    (\<exists>q. b_queue (sys_board s) = Some q \<and> data_ready \<in> set (contents q))"
  using sys.inv_reachable [OF assms(3,2)] assms(1,4-6) unfolding sys_inv_def sys_rung_def by blast

lemma sys_no_lost_wakeup_witness:
  "\<exists>s. (sys_step (list_queue 16) (\<lambda>ms. ms) 100)\<^sup>*\<^sup>* demo_sys s \<and> length (sys_log s) = 1 \<and>
     (p_doorbell_pending (sys_prod s) \<or> (\<exists>q. b_queue (sys_board s) = Some q \<and> data_ready \<in> set q))"
proof -
  obtain s where s: "(sys_step (list_queue 16) (\<lambda>ms. ms) 100)\<^sup>*\<^sup>* demo_sys s"
    "sys_cons s = consumer_idle" "sys_pc s = Waiting False" "length (sys_log s) = 1"
    using demo_one_sample [of True] by auto
  have "sys_log s \<noteq> []" using s(4) by auto
  moreover have "\<not> drain_paused (sys_cons s)" "\<not> awake (sys_pc s)" by (simp_all add: s consumer_idle_def)
  ultimately show ?thesis
    using sys_no_lost_wakeup [OF list_queue_laws demo_sys_start s(1)] s(1,4) by blast
qed

text \<open>
  C21: From the producer to the consumer, records keep their order and none is invented, repeated or
  changed: in every reachable state the records processed, followed by those outstanding, are a
  subsequence of the records stored; exactly as many are missing as the log counted as overwritten,
  and the consumer's counter is the number processed (both modulo \<open>2 ^ 32\<close>).
\<close>

theorem sys_delivers_in_order:
  assumes "queue_laws len contents ops" "sys_start s0" "(sys_step ops f hz)\<^sup>*\<^sup>* s0 s"
  shows "subseq (sys_received s @ outstanding s) (sys_stored s) \<and>
    of_nat (length (sys_stored s)) = of_nat (length (sys_received s @ outstanding s)) + sys_overwritten s \<and>
    received_count (sys_cons s) = of_nat (length (sys_received s))"
  using sys.inv_reachable [OF assms(3,2)] assms(1) unfolding sys_inv_def sys_fifo_def by blast

lemma sys_delivers_in_order_witness:
  "\<exists>s. (sys_step (list_queue 16) (\<lambda>ms. ms) 100)\<^sup>*\<^sup>* demo_sys s \<and> length (sys_log s) = 1 \<and>
     subseq (sys_received s @ outstanding s) (sys_stored s) \<and> (of_nat (length (sys_stored s)) :: u32) = 1 + of_nat (length (sys_received s))"
proof -
  obtain s where s: "(sys_step (list_queue 16) (\<lambda>ms. ms) 100)\<^sup>*\<^sup>* demo_sys s" "sys_pc s = Waiting False"
    "length (sys_log s) = 1" "sys_overwritten s = 0"
    using demo_one_sample [of True] by auto
  have "length (outstanding s) = 1" by (simp add: outstanding_def s)
  then show ?thesis
    using sys_delivers_in_order [OF list_queue_laws demo_sys_start s(1)] s by (intro exI [of _ s]) simp
qed

text \<open>
  C22: No task of a running system ever leaves an array, in any interleaving: in every reachable
  state the producer's next sample, the supervisor's pass, the UI's poll (once the receiver is empty),
  the consumer's receive, its read of a batch and its processing of every record it holds all return;
  handling a message returns unless it is a watchdog test that stops the consumer.
\<close>

theorem sys_never_faults:
  assumes "queue_laws len contents ops" "sys_start s0" "(sys_step ops f hz)\<^sup>*\<^sup>* s0 s"
  shows "producer_sample ops w env (sys_prod s, sys_board s) \<noteq> None \<and>
    wdog_pass hz now (sys_wdog s) \<noteq> None \<and>
    (list_all rx_has_data polls \<or> ui_poll ops bits pins polls ch (sys_ui_dropped s, sys_board s) \<noteq> None) \<and>
    consumer_receive ops w' (sys_cons s, sys_board s) \<noteq> None \<and>
    sensor_log_read lenv (Some (replicate 16 zero_record)) APP_LOG_READ_BATCH w' (Some 0) (b_log (sys_board s)) \<noteq> None \<and>
    list_all (\<lambda>r. consumer_process_record r (sys_cons s, sys_board s) \<noteq> None) (pending (sys_pc s)) \<and>
    (consumer_handle_msg f (v\<lparr>v_prod_stats := p_stats (sys_prod s)\<rparr>) m (sys_cons s, sys_board s) = None \<longleftrightarrow>
       msg_stops v (b_uart (sys_board s)) m)"
proof -
  have ok: "sys_ok s" using sys.inv_reachable [OF assms(3,2)] assms(1) unfolding sys_inv_def by blast
  note okD = sys_okD [OF ok]
  obtain q where q: "b_queue (sys_board s) = Some q" using okD(8) by blast
  have v: "view_ok (v\<lparr>v_prod_stats := p_stats (sys_prod s)\<rparr>)" using okD(6) by (simp add: view_ok_def prod_wf_def)
  have stop: "msg_stops (v\<lparr>v_prod_stats := p_stats (sys_prod s)\<rparr>) u m = msg_stops v u m" for u
    by (simp add: msg_stops_def)
  have "wdog_pass hz now (sys_wdog s) \<noteq> None" using okD(5) by (simp add: sys_wdog_def wdog_pass_eq)
  moreover have "list_all rx_has_data polls \<or> ui_poll ops bits pins polls ch (sys_ui_dropped s, sys_board s) \<noteq> None"
    using ui_poll_eq [OF okD(2-4), of polls ops bits pins ch "sys_ui_dropped s"] by (auto simp: list_all_iff)
  moreover have "consumer_receive ops w' (sys_cons s, sys_board s) \<noteq> None"
    using consumer_receive_eq [OF assms(1) q, of w' "sys_cons s"] by auto
  moreover have "sensor_log_read lenv (Some (replicate 16 zero_record)) APP_LOG_READ_BATCH w' (Some 0) (b_log (sys_board s)) \<noteq> None"
    by (simp add: read_batch_eq(1) [OF okD(1), of "replicate 16 zero_record" lenv w'] del: not_None_eq)
  moreover have "list_all (\<lambda>r. consumer_process_record r (sys_cons s, sys_board s) \<noteq> None) (pending (sys_pc s))"
    using okD(7) by (auto simp: list_all_iff process_record_eq)
  moreover have "consumer_handle_msg f (v\<lparr>v_prod_stats := p_stats (sys_prod s)\<rparr>) m (sys_cons s, sys_board s) = None \<longleftrightarrow>
       msg_stops v (b_uart (sys_board s)) m"
    using handle_msg_eq [OF okD(1,5) v, of m f "sys_cons s"] unfolding stop by (auto split: if_splits)
  ultimately show ?thesis using sample_returns [OF okD(9,6), of ops w env] by auto
qed

lemma sys_never_faults_witness:
  "producer_sample (list_queue 16) 20 (demo_env True) (demo_producer, demo_board) \<noteq> None \<and>
   consumer_handle_msg (\<lambda>ms. ms) (demo_view\<lparr>v_prod_stats := p_stats demo_producer\<rparr>)
     \<lparr>msg_id = CONSUMER_MSG_STATS, msg_key = CHR ''d''\<rparr> (consumer_idle, demo_board) \<noteq> None"
proof -
  have d: "sys_prod demo_sys = demo_producer" "sys_board demo_sys = demo_board" "sys_cons demo_sys = consumer_idle"
    by (simp_all add: demo_sys_def)
  have "\<not> msg_stops demo_view (b_uart demo_board) \<lparr>msg_id = CONSUMER_MSG_STATS, msg_key = CHR ''d''\<rparr>"
    by (simp add: msg_stops_def)
  then show ?thesis
    using sys_never_faults [OF list_queue_laws demo_sys_start rtranclp.rtrancl_refl [where r = "sys_step (list_queue 16) (\<lambda>ms. ms) 100"],
        of 20 "demo_env True" 0 "[]" demo_bits "\<lambda>_. 0" NUL 10 env_ok demo_view "\<lparr>msg_id = CONSUMER_MSG_STATS, msg_key = CHR ''d''\<rparr>"]
    unfolding d by simp
qed

text \<open>
  C14: The log's mutex is never left held, taken twice or given back by a task that does not hold it: in
  every reachable state, on every path through write, read, peek and the statistics, timeouts
  included, the mutex calls made since the boot are takes that each gave up or were followed by
  exactly one give before the next take, and nobody holds the mutex between two steps.
\<close>

theorem sys_mutex_released:
  assumes "queue_laws len contents ops" "sys_start s0" "(sys_step ops f hz)\<^sup>*\<^sup>* s0 s"
  shows "mutex_trace False (mutex_calls (b_log (sys_board s))) = Some False"
proof -
  have "sys_ok s" using sys.inv_reachable [OF assms(3,2)] assms(1) unfolding sys_inv_def by blast
  then have "log_ok (b_log (sys_board s))" by (rule sys_okD)
  then show ?thesis by (simp add: log_ok_def mutex_free_def)
qed

lemma sys_mutex_released_witness:
  "\<exists>s. (sys_step (list_queue 16) (\<lambda>ms. ms) 100)\<^sup>*\<^sup>* demo_sys s \<and> length (sys_log s) = 1 \<and>
     mutex_trace False (mutex_calls (b_log (sys_board s))) = Some False"
proof -
  obtain s where s: "(sys_step (list_queue 16) (\<lambda>ms. ms) 100)\<^sup>*\<^sup>* demo_sys s" "length (sys_log s) = 1"
    using demo_one_sample [of True] by auto
  show ?thesis
    using sys_mutex_released [OF list_queue_laws demo_sys_start s(1)] s by (intro exI [of _ s]) simp
qed


end
