(* ===== verification/Fault.thy ===== *)
theory Fault
  imports Messages Uptime
begin

text \<open>
  \<open>system/fault.c\<close> and \<open>system/rtos_hooks.c\<close>: the last-resort error handling. \<open>fault_halt\<close> never
  returns, so its model says what the machine looks like when the LED has been toggled \<open>n\<close> times;
  \<open>None\<close> is a machine that is still busy before that. The readings of the UART's status and of
  the global timer are arguments.
\<close>

section \<open>The code\<close>

record fault_env =
  f_bits :: uart_bits
  f_tx_status :: "u32 list"
  f_init_counts :: u64
  f_counts_per_sec :: u64
  f_clock :: "nat \<Rightarrow> u64 list"

text \<open>The drivers' states, and whether interrupts are masked at the CPU.\<close>

record 'q machine =
  irq_masked :: bool
  m_board :: "'q board"

definition FAULT_BLINK_HALF_PERIOD_US :: u32 where "FAULT_BLINK_HALF_PERIOD_US = 100000"

definition fault_busy_wait_us :: "u64 \<Rightarrow> u32 \<Rightarrow> u64 list \<Rightarrow> u64 list option" where
  "fault_busy_wait_us counts_per_sec delay_us counts =
     (case counts of [] \<Rightarrow> None
      | start # later \<Rightarrow>
          let start_us = uptime_us counts_per_sec start
          in poll_until (\<lambda>c. \<not> uptime_us counts_per_sec c - start_us < ucast delay_us) later)"

text \<open>One turn of the endless loop: \<open>f_clock env i\<close> are the timer readings of turn \<open>i\<close>.\<close>

definition fault_blink :: "fault_env \<Rightarrow> nat \<Rightarrow> 'q machine \<Rightarrow> 'q machine option" where
  "fault_blink env i m = do {
     let m = m\<lparr>m_board := (m_board m)\<lparr>b_gpio := gpio_drv_led_toggle (b_gpio (m_board m))\<rparr>\<rparr>;
     _ \<leftarrow> fault_busy_wait_us (f_counts_per_sec env) FAULT_BLINK_HALF_PERIOD_US (f_clock env i);
     Some m
   }"

definition fault_park :: "fault_env \<Rightarrow> nat \<Rightarrow> 'q machine \<Rightarrow> 'q machine option" where
  "fault_park env n m = do {
     u \<leftarrow> (if wdt_drv_is_running (b_wdt (m_board m))
          then console_write (lit ''\<newline>waiting for the watchdog to reset the board\<newline>'') (b_uart (m_board m))
          else console_write (lit ''\<newline>system halted\<newline>'') (b_uart (m_board m)));
     _ \<leftarrow> uart_drv_wait_tx_idle (f_bits env) (f_tx_status env) u;
     let _ = uptime_init (f_init_counts env);
     for_each (fault_blink env) [0..<n] (m\<lparr>m_board := (m_board m)\<lparr>b_uart := u\<rparr>\<rparr>)
   }"

definition fault_halt :: "fault_env \<Rightarrow> nat \<Rightarrow> char list option \<Rightarrow> int \<Rightarrow> 'q machine \<Rightarrow> 'q machine option" where
  "fault_halt env n what code m = do {
     let m = m\<lparr>irq_masked := True\<rparr>;
     u \<leftarrow> console_write (lit ''\<newline>\<newline>FATAL: '') (b_uart (m_board m));
     u \<leftarrow> console_write what u;
     u \<leftarrow> console_write (lit '' failed, code '') u;
     u \<leftarrow> (if code < 0 then console_write (lit ''-'') u else Some u);
     u \<leftarrow> console_write_dec (if code < 0 then word_of_int (- (code + 1)) + 1 else word_of_int code) u;
     fault_park env n (m\<lparr>m_board := (m_board m)\<lparr>b_uart := u\<rparr>\<rparr>)
   }"

definition fault_halt_str ::
  "fault_env \<Rightarrow> nat \<Rightarrow> char list option \<Rightarrow> char list option \<Rightarrow> 'q machine \<Rightarrow> 'q machine option" where
  "fault_halt_str env n what detail m = do {
     let m = m\<lparr>irq_masked := True\<rparr>;
     u \<leftarrow> console_write (lit ''\<newline>\<newline>FATAL: '') (b_uart (m_board m));
     u \<leftarrow> console_write what u;
     u \<leftarrow> console_write (lit '': '') u;
     u \<leftarrow> console_write detail u;
     fault_park env n (m\<lparr>m_board := (m_board m)\<lparr>b_uart := u\<rparr>\<rparr>)
   }"

text \<open>The kernel's hooks.\<close>

definition vApplicationStackOverflowHook ::
  "fault_env \<Rightarrow> nat \<Rightarrow> char list option \<Rightarrow> 'q machine \<Rightarrow> 'q machine option" where
  "vApplicationStackOverflowHook env n task_name m =
     fault_halt_str env n (lit ''stack overflow in task'')
       (if task_name \<noteq> None then task_name else lit ''?'') m"

definition vApplicationMallocFailedHook :: "fault_env \<Rightarrow> nat \<Rightarrow> 'q machine \<Rightarrow> 'q machine option" where
  "vApplicationMallocFailedHook env n m =
     fault_halt_str env n (lit ''heap exhausted'') (lit ''pvPortMalloc() returned NULL'') m"

section \<open>The LED loop\<close>

definition blinked_machine :: "nat \<Rightarrow> 'q machine \<Rightarrow> 'q machine" where
  "blinked_machine n m = m\<lparr>m_board := (m_board m)\<lparr>b_gpio := (gpio_drv_led_toggle ^^ n) (b_gpio (m_board m))\<rparr>\<rparr>"

definition wait_ends :: "fault_env \<Rightarrow> nat \<Rightarrow> bool" where
  "wait_ends env i \<longleftrightarrow> fault_busy_wait_us (f_counts_per_sec env) FAULT_BLINK_HALF_PERIOD_US (f_clock env i) \<noteq> None"

lemma blink_loop_eq:
  "for_each (fault_blink env) [0..<n] m = (if \<forall>i<n. wait_ends env i then Some (blinked_machine n m) else None)"
proof (induction n)
  case 0
  then show ?case by (simp add: blinked_machine_def)
next
  case (Suc n)
  show ?case
  proof (cases "\<forall>i<n. wait_ends env i")
    case True
    have "fault_blink env n (blinked_machine n m) = (if wait_ends env n then Some (blinked_machine (Suc n) m) else None)"
      by (auto simp: fault_blink_def wait_ends_def blinked_machine_def)
    with True Suc show ?thesis by (auto simp: for_each_append less_Suc_eq)
  next
    case False
    with Suc show ?thesis by (auto simp: for_each_append less_Suc_eq)
  qed
qed

lemma toggle_fields:
  assumes "s_gpio_ready g"
  shows "s_gpio_ready (gpio_drv_led_toggle g)" "s_led_on (gpio_drv_led_toggle g) \<longleftrightarrow> \<not> s_led_on g"
    "gpio_calls (gpio_drv_led_toggle g) = gpio_calls g @ [XGpioPs_WritePin BOARD_MIO_LED4 (if s_led_on g then 0 else 1)]"
  using assms by (simp_all add: gpio_drv_led_toggle_def gpio_drv_led_set_def gpio_call_def)

lemma toggles_led:
  assumes "s_gpio_ready g"
  shows "s_gpio_ready ((gpio_drv_led_toggle ^^ n) g)" "s_led_on ((gpio_drv_led_toggle ^^ n) g) \<longleftrightarrow> s_led_on g \<noteq> odd n"
  using assms by (induction n) (auto simp: toggle_fields)

text \<open>The writes to the LED's pin: the levels alternate.\<close>

lemma toggles_calls:
  "s_gpio_ready g \<Longrightarrow> gpio_calls ((gpio_drv_led_toggle ^^ n) g) =
     gpio_calls g @ map (\<lambda>i. XGpioPs_WritePin BOARD_MIO_LED4 (if s_led_on g = odd i then 1 else 0)) [0..<n]"
proof (induction n)
  case (Suc n)
  then show ?case
    by (simp add: toggle_fields toggles_led)
qed simp

section \<open>What is printed\<close>

definition park_text :: "'q board \<Rightarrow> string" where
  "park_text b = (if s_wdt_running (b_wdt b) then ''\<newline>waiting for the watchdog to reset the board\<newline>''
     else ''\<newline>system halted\<newline>'')"

text \<open>The transmitter goes idle, as far as the code waits for it.\<close>

definition tx_drains :: "fault_env \<Rightarrow> uart_state \<Rightarrow> bool" where
  "tx_drains env u \<longleftrightarrow> uart_drv_wait_tx_idle (f_bits env) (f_tx_status env) u \<noteq> None"

definition parked :: "nat \<Rightarrow> string \<Rightarrow> 'q machine \<Rightarrow> 'q machine" where
  "parked n t m = blinked_machine n
     (m\<lparr>irq_masked := True,
        m_board := (m_board m)\<lparr>b_uart := console_text (t @ park_text (m_board m)) (b_uart (m_board m))\<rparr>\<rparr>)"

lemma fault_park_eq:
  "fault_park env n (m\<lparr>irq_masked := True, m_board := (m_board m)\<lparr>b_uart := console_text t (b_uart (m_board m))\<rparr>\<rparr>) =
     (if tx_drains env (b_uart (m_board m)) \<and> (\<forall>i<n. wait_ends env i) then Some (parked n t m) else None)"
proof -
  have w: "console_write (lit ''\<newline>waiting for the watchdog to reset the board\<newline>'') u =
      Some (console_text ''\<newline>waiting for the watchdog to reset the board\<newline>'' u)"
    "console_write (lit ''\<newline>system halted\<newline>'') u = Some (console_text ''\<newline>system halted\<newline>'' u)" for u
    by (simp_all add: console_write_lit NUL_def)
  let ?m = "m\<lparr>irq_masked := True, m_board := (m_board m)\<lparr>b_uart := console_text t (b_uart (m_board m))\<rparr>\<rparr>"
  have "fault_park env n ?m =
      (if tx_drains env (b_uart (m_board m))
       then for_each (fault_blink env) [0..<n]
              (m\<lparr>irq_masked := True,
                 m_board := (m_board m)\<lparr>b_uart := console_text (t @ park_text (m_board m)) (b_uart (m_board m))\<rparr>\<rparr>)
       else None)"
    unfolding fault_park_def w wdt_drv_is_running_def
    by (cases "uart_drv_wait_tx_idle (f_bits env) (f_tx_status env) (b_uart (m_board m))")
      (simp_all add: park_text_def tx_drains_def)
  then show ?thesis by (simp add: blink_loop_eq parked_def)
qed

text \<open>The code as it is printed: a sign only if it is negative.\<close>

definition code_text :: "int \<Rightarrow> string" where
  "code_text code = (if code < 0 then ''-'' else '''') @ dec_str (nat \<bar>code\<bar>)"

lemma magnitude:
  assumes "- 2147483648 \<le> code" "code < 2147483648"
  shows "unat (if code < 0 then word_of_int (- (code + 1)) + 1 else word_of_int code :: u32) = nat \<bar>code\<bar>"
proof (cases "code < 0")
  case True
  have "(word_of_int (- (code + 1)) + 1 :: u32) = word_of_int (- code)"
    using wi_hom_add [of "- (code + 1)" 1, where ?'a = 32] by simp
  moreover have "unat (word_of_int (- code) :: u32) = nat (- code)"
    using assms True by (simp only: unsigned_of_int) (simp add: take_bit_int_eq_self)
  ultimately show ?thesis using True by simp
next
  case False
  then have "unat (word_of_int code :: u32) = nat code"
    using assms by (simp only: unsigned_of_int) (simp add: take_bit_int_eq_self)
  then show ?thesis using False by simp
qed

lemma fault_halt_eq:
  assumes "- 2147483648 \<le> code" "code < 2147483648" "NUL \<notin> set what"
  shows "fault_halt env n (Some (what @ NUL # rest)) code m =
     (if tx_drains env (b_uart (m_board m)) \<and> (\<forall>i<n. wait_ends env i)
      then Some (parked n (''\<newline>\<newline>FATAL: '' @ what @ '' failed, code '' @ code_text code) m) else None)"
proof -
  let ?v = "if code < 0 then word_of_int (- (code + 1)) + 1 else word_of_int code :: u32"
  have lits: "NUL \<notin> set ''\<newline>\<newline>FATAL: ''" "NUL \<notin> set '' failed, code ''" "NUL \<notin> set ''-''" by (simp_all add: NUL_def)
  have dec: "console_write_dec ?v u = Some (console_text (dec_str (nat \<bar>code\<bar>)) u)" for u
    using console_write_dec_eq [of ?v u] unfolding magnitude [OF assms(1,2)] .
  show ?thesis
    unfolding fault_halt_def Let_def dec console_write_lit [OF lits(1)] console_write_lit [OF lits(2)]
      console_write_lit [OF lits(3)]
    using fault_park_eq [where env = env and n = n and m = m and t = "''\<newline>\<newline>FATAL: '' @ what @ '' failed, code '' @ code_text code"]
    by (cases "code < 0") (simp_all add: code_text_def console_write_def console_write_from_eq [OF assms(3)])
qed

lemma fault_halt_str_eq:
  assumes "NUL \<notin> set what" "NUL \<notin> set detail"
  shows "fault_halt_str env n (Some (what @ NUL # rest)) (Some (detail @ NUL # rest')) m =
     (if tx_drains env (b_uart (m_board m)) \<and> (\<forall>i<n. wait_ends env i)
      then Some (parked n (''\<newline>\<newline>FATAL: '' @ what @ '': '' @ detail) m) else None)"
proof -
  have lits: "NUL \<notin> set ''\<newline>\<newline>FATAL: ''" "NUL \<notin> set '': ''" by (simp_all add: NUL_def)
  show ?thesis
    unfolding fault_halt_str_def Let_def console_write_lit [OF lits(1)] console_write_lit [OF lits(2)]
    using fault_park_eq [where env = env and n = n and m = m and t = "''\<newline>\<newline>FATAL: '' @ what @ '': '' @ detail"]
    by (simp add: console_write_def console_write_from_eq [OF assms(1)] console_write_from_eq [OF assms(2)])
qed

lemma parked_simps [simp]:
  "irq_masked (parked n t m)" "b_wdt (m_board (parked n t m)) = b_wdt (m_board m)"
  "b_gpio (m_board (parked n t m)) = (gpio_drv_led_toggle ^^ n) (b_gpio (m_board m))"
  "b_uart (m_board (parked n t m)) = console_text (t @ park_text (m_board m)) (b_uart (m_board m))"
  "b_log (m_board (parked n t m)) = b_log (m_board m)" "b_queue (m_board (parked n t m)) = b_queue (m_board m)"
  by (simp_all add: parked_def blinked_machine_def)

lemma read_code_text: "read_decimal (code_text code) = Some (code, 0)"
proof -
  have all: "takeWhile is_digit (dec_str k) = dec_str k" "dropWhile is_digit (dec_str k) = []" for k
    by (simp_all add: takeWhile_eq_all_conv dec_str_digits)
  have "take 1 (dec_str k) \<noteq> ''-''" for k using hd_dec_str [of k "[]"] by simp
  then show ?thesis by (simp add: code_text_def read_decimal_def Let_def all dec_str_digits)
qed

section \<open>Properties\<close>

text \<open>
  C30: A fatal error with any \<open>int32_t\<close> code, the most negative one included, masks the interrupts,
  prints on a UART that is up the name of what failed, a decimal numeral whose value is the code, and
  whether a watchdog reset is to be expected, sends nothing on a UART that is not up and does not
  wait for it, never touches the watchdog, and then switches the LED's level with every turn of its loop.
\<close>

theorem fault_halt_reports:
  assumes "- 2147483648 \<le> code" "code < 2147483648" "NUL \<notin> set what" "s_gpio_ready (b_gpio (m_board m))"
    and "\<forall>i<n. wait_ends env i"
    and "s_uart_ready (b_uart (m_board m)) \<Longrightarrow> tx_drains env (b_uart (m_board m))"
  shows "\<exists>m' num. fault_halt env n (Some (what @ NUL # rest)) code m = Some m' \<and> irq_masked m' \<and>
    sent (b_uart (m_board m')) = sent (b_uart (m_board m)) @
      (if s_uart_ready (b_uart (m_board m))
       then crlf (''\<newline>\<newline>FATAL: '' @ what @ '' failed, code '' @ num @
              (if wdt_drv_is_running (b_wdt (m_board m))
               then ''\<newline>waiting for the watchdog to reset the board\<newline>'' else ''\<newline>system halted\<newline>''))
       else []) \<and>
    read_decimal num = Some (code, 0) \<and>
    b_wdt (m_board m') = b_wdt (m_board m) \<and>
    gpio_calls (b_gpio (m_board m')) = gpio_calls (b_gpio (m_board m)) @
      map (\<lambda>i. XGpioPs_WritePin BOARD_MIO_LED4 (if s_led_on (b_gpio (m_board m)) = odd i then 1 else 0)) [0..<n]"
proof -
  have tx: "tx_drains env (b_uart (m_board m))"
    using assms(6) by (cases "s_uart_ready (b_uart (m_board m))") (simp_all add: tx_drains_def uart_drv_wait_tx_idle_def)
  have "sent (console_text t (b_uart (m_board m))) =
      sent (b_uart (m_board m)) @ (if s_uart_ready (b_uart (m_board m)) then crlf t else [])" for t
    by (simp add: console_text_def)
  then show ?thesis
    unfolding fault_halt_eq [OF assms(1-3)]
    using tx assms(5) read_code_text [of code]
    by (intro exI [of _ "parked n (''\<newline>\<newline>FATAL: '' @ what @ '' failed, code '' @ code_text code) m"]
        exI [of _ "code_text code"])
      (simp add: toggles_calls [OF assms(4)] park_text_def wdt_drv_is_running_def)
qed

lemma scaled_gap:
  fixes r c k d :: nat
  assumes "r * 10 ^ 6 div k - c * 10 ^ 6 div k \<ge> d" "0 < d" "0 < k" "c \<le> r"
  shows "r - c > (d - 1) * k div 10 ^ 6"
proof -
  define b where "b = c * 10 ^ 6 div k"
  have "b + d \<le> r * 10 ^ 6 div k" using assms(1,2) by (simp add: b_def)
  then have "(b + d) * k \<le> r * 10 ^ 6"
    using assms(3) by (simp only: less_eq_div_iff_mult_less_eq)
  moreover have "c * 10 ^ 6 < (b + 1) * k"
    using div_less_iff_less_mult [OF assms(3), of "c * 10 ^ 6" "b + 1"] by (simp add: b_def)
  moreover have "(b + d) * k = (b + 1) * k + (d - 1) * k"
    using assms(2) by (cases d) (simp_all add: add_mult_distrib)
  ultimately have "c * 10 ^ 6 + (d - 1) * k < r * 10 ^ 6" by linarith
  then have "(d - 1) * k < (r - c) * 10 ^ 6" by (simp add: diff_mult_distrib)
  then show ?thesis by (simp add: less_mult_imp_div_less)
qed

text \<open>A machine in trouble, for the examples: the timer runs at 1 MHz, the transmitter is idle at once.\<close>

definition demo_fault_env :: fault_env where
  "demo_fault_env = \<lparr>f_bits = demo_bits, f_tx_status = [0x8], f_init_counts = 1, f_counts_per_sec = 1000000,
     f_clock = (\<lambda>i. [0, 99999, 100000])\<rparr>"

definition demo_machine :: "consumer_msg_t list machine" where
  "demo_machine = \<lparr>irq_masked = False, m_board = demo_board\<rparr>"

lemma demo_fault [simp]: "wait_ends demo_fault_env i" "tx_drains demo_fault_env uart_up"
  "m_board demo_machine = demo_board"
  by (simp_all add: wait_ends_def demo_fault_env_def fault_busy_wait_us_def uptime_us_def USEC_PER_SEC_def
      FAULT_BLINK_HALF_PERIOD_US_def tx_drains_def uart_drv_wait_tx_idle_def demo_bits_def uart_up_def demo_machine_def)

lemma fault_halt_reports_witness:
  "\<exists>m' num. fault_halt demo_fault_env 2 (Some (''sample timer init'' @ NUL # [])) (- 2147483648) demo_machine = Some m' \<and>
     irq_masked m' \<and> read_decimal num = Some (- 2147483648, 0) \<and>
     gpio_calls (b_gpio (m_board m')) = [XGpioPs_WritePin 7 1, XGpioPs_WritePin 7 0]"
proof -
  have n: "NUL \<notin> set ''sample timer init''" by (simp add: NUL_def)
  have "[0..<2] = [0, 1::nat]" by (simp add: upt_2)
  then show ?thesis
    using fault_halt_reports [where code = "- 2147483648" and what = "''sample timer init''" and m = demo_machine and
        n = 2 and env = demo_fault_env and rest = "[]", OF _ _ n]
    by (auto simp: gpio_idle_def BOARD_MIO_LED4_def)
qed

text \<open>
  The delay of the LED loop ends at the first reading of the timer that is at least the delay
  after the first one; unless the count wrapped, that many microseconds, less at most one, have then
  really passed. With a timer that stands still it never ends.
\<close>

theorem fault_busy_wait_long_enough:
  assumes "10 ^ 6 \<le> unat cps" "unat cps \<le> 2 ^ 44" "d \<noteq> 0"
  shows "(fault_busy_wait_us cps d (c0 # cs) = Some rest \<longleftrightarrow>
      (\<exists>early r. cs = early @ r # rest \<and> uptime_us cps r - uptime_us cps c0 \<ge> ucast d \<and>
         (\<forall>x\<in>set early. uptime_us cps x - uptime_us cps c0 < ucast d))) \<and>
    (c0 \<le> r \<longrightarrow> uptime_us cps r - uptime_us cps c0 \<ge> ucast d \<longrightarrow>
       unat r - unat c0 > (unat d - 1) * unat cps div 10 ^ 6) \<and>
    ((\<forall>x\<in>set cs. x = c0) \<longrightarrow> fault_busy_wait_us cps d (c0 # cs) = None)"
proof -
  note us = unat_uptime_us [OF assms(1,2)]
  have k: "0 < unat cps" using assms(1) by simp
  have d: "unat (ucast d :: u64) = unat d" by (rule unat_ucast_64)
  have d0: "(0::u64) < ucast d" using assms(3) d unfolding word_less_nat_alt by (simp add: unat_gt_0)
  have "unat r - unat c0 > (unat d - 1) * unat cps div 10 ^ 6"
    if le: "c0 \<le> r" and ge: "uptime_us cps r - uptime_us cps c0 \<ge> ucast d"
  proof -
    have "uptime_us cps c0 \<le> uptime_us cps r"
      using le by (simp add: word_le_nat_alt us div_le_mono)
    then have "unat r * 10 ^ 6 div unat cps - unat c0 * 10 ^ 6 div unat cps \<ge> unat d"
      using ge by (simp add: word_le_nat_alt unat_sub us d)
    then show ?thesis
      by (rule scaled_gap) (use assms le k in \<open>simp_all add: word_le_nat_alt unat_gt_0\<close>)
  qed
  moreover have "fault_busy_wait_us cps d (c0 # cs) = Some rest \<longleftrightarrow>
      (\<exists>early r. cs = early @ r # rest \<and> uptime_us cps r - uptime_us cps c0 \<ge> ucast d \<and>
         (\<forall>x\<in>set early. uptime_us cps x - uptime_us cps c0 < ucast d))"
    by (simp add: fault_busy_wait_us_def Let_def poll_until_Some not_less not_le)
  moreover have "(\<forall>x\<in>set cs. x = c0) \<longrightarrow> fault_busy_wait_us cps d (c0 # cs) = None"
    using d0 by (simp add: fault_busy_wait_us_def Let_def poll_until_None)
  ultimately show ?thesis by blast
qed

lemma fault_busy_wait_long_enough_witness:
  "fault_busy_wait_us 1000000 100000 [5, 100004, 100005, 7] = Some [7] \<and>
   unat (100005 :: u64) - unat (5 :: u64) > (100000 - 1) * 1000000 div 10 ^ 6 \<and>
   fault_busy_wait_us 1000000 100000 [0, 0, 0] = None"
proof -
  have k: "10 ^ 6 \<le> unat (1000000 :: u64)" "unat (1000000 :: u64) \<le> 2 ^ 44" "(100000 :: u32) \<noteq> 0" by simp_all
  have us: "uptime_us 1000000 100004 = 100004" "uptime_us 1000000 100005 = 100005" "uptime_us 1000000 5 = 5"
    by (simp_all add: uptime_us_def USEC_PER_SEC_def)
  have "fault_busy_wait_us 1000000 100000 [5, 100004, 100005, 7] = Some [7]"
    using fault_busy_wait_long_enough [OF k, of 5 "[100004, 100005, 7]" "[7]" 100005]
    by (auto simp: us intro!: exI [of _ "[100004]"])
  moreover have "fault_busy_wait_us 1000000 100000 [0, 0, 0] = None"
    using fault_busy_wait_long_enough [OF k, of 0 "[0, 0]"] by simp
  ultimately show ?thesis by simp
qed

text \<open>
  A stack overflow prints the name of the task, or a question mark if there is none, and a failed
  allocation what happened; either masks the interrupts and then only switches the LED, leaving the
  watchdog to expire.
\<close>

theorem rtos_hooks_report:
  assumes "s_uart_ready (b_uart (m_board m))" "tx_drains env (b_uart (m_board m))" "\<forall>i<n. wait_ends env i"
    and "task_name = None \<or> (\<exists>rest. task_name = Some (who @ NUL # rest) \<and> NUL \<notin> set who)"
  shows "\<exists>m1 m2. vApplicationStackOverflowHook env n task_name m = Some m1 \<and>
    vApplicationMallocFailedHook env n m = Some m2 \<and>
    sent (b_uart (m_board m1)) = sent (b_uart (m_board m)) @
      crlf (''\<newline>\<newline>FATAL: stack overflow in task: '' @ (if task_name = None then ''?'' else who) @ park_text (m_board m)) \<and>
    sent (b_uart (m_board m2)) = sent (b_uart (m_board m)) @
      crlf (''\<newline>\<newline>FATAL: heap exhausted: pvPortMalloc() returned NULL'' @ park_text (m_board m)) \<and>
    list_all (\<lambda>m'. irq_masked m' \<and> b_wdt (m_board m') = b_wdt (m_board m) \<and>
      b_gpio (m_board m') = (gpio_drv_led_toggle ^^ n) (b_gpio (m_board m))) [m1, m2]"
proof -
  have nul: "NUL \<notin> set ''stack overflow in task''" "NUL \<notin> set ''?''" "NUL \<notin> set ''heap exhausted''"
    "NUL \<notin> set ''pvPortMalloc() returned NULL''" by (simp_all add: NUL_def)
  define w where "w = (if task_name = None then ''?'' else who)"
  obtain rest where w: "(if task_name \<noteq> None then task_name else lit ''?'') = Some (w @ NUL # rest)" "NUL \<notin> set w"
    using assms(4) nul(2) by (auto simp: lit_def w_def)
  note runs = if_P [OF conjI [OF assms(2,3)]]
  have "vApplicationStackOverflowHook env n task_name m =
      Some (parked n (''\<newline>\<newline>FATAL: '' @ ''stack overflow in task'' @ '': '' @ w) m)"
    unfolding vApplicationStackOverflowHook_def w(1)
    unfolding lit_def fault_halt_str_eq [OF nul(1) w(2)] runs ..
  moreover have "vApplicationMallocFailedHook env n m = Some (parked n
      (''\<newline>\<newline>FATAL: '' @ ''heap exhausted'' @ '': '' @ ''pvPortMalloc() returned NULL'') m)"
    unfolding vApplicationMallocFailedHook_def lit_def fault_halt_str_eq [OF nul(3,4)] runs ..
  ultimately show ?thesis using assms(1) by (simp add: sent_console_text w_def)
qed

lemma rtos_hooks_report_witness:
  "\<exists>m1. vApplicationStackOverflowHook demo_fault_env 3 (Some (''ui'' @ NUL # [])) demo_machine = Some m1 \<and>
     sent (b_uart (m_board m1)) = crlf ''\<newline>\<newline>FATAL: stack overflow in task: ui\<newline>system halted\<newline>''"
proof -
  have who: "Some (''ui'' @ NUL # []) = None \<or>
      (\<exists>rest. Some (''ui'' @ NUL # []) = Some (''ui'' @ NUL # rest) \<and> NUL \<notin> set ''ui'')"
    by (simp add: NUL_def)
  have up: "s_uart_ready (b_uart (m_board demo_machine))" "tx_drains demo_fault_env (b_uart (m_board demo_machine))"
    "\<forall>i<3. wait_ends demo_fault_env i"
    by simp_all
  have park: "park_text (m_board demo_machine) = ''\<newline>system halted\<newline>''"
    by (simp add: park_text_def demo_board_def wdt_reset_def)
  show ?thesis
    using rtos_hooks_report [OF up who] unfolding park by (elim exE conjE) (intro exI conjI, assumption, simp)
qed

end
