(* ===== verification/Boot.thy ===== *)
theory Boot
  imports System Fault Reset_Cause
begin

text \<open>
  \<open>main.c\<close>: the checks at build time and the boot sequence. What the vendor drivers, the kernel and
  the compiler answer is \<open>boot_env\<close>; \<open>boot_state\<close> are the static variables and the SLCR hardware. A
  call of \<open>fault_halt\<close> does not come back, so \<open>main_start\<close> ends with one of \<open>Spins\<close> (the loop after a
  failed GPIO driver), \<open>Faults what code\<close>, or \<open>Schedules\<close>, and \<open>main\<close> continues from there.
\<close>

section \<open>Settings\<close>

definition BOARD_CONSOLE_BAUD :: u32 where "BOARD_CONSOLE_BAUD = 115200"
definition APP_FW_VERSION :: string where "APP_FW_VERSION = ''0.4.0''"
definition APP_TEST_LOG_HOLD_US :: u32 where "APP_TEST_LOG_HOLD_US = 0"
definition APP_WDT_ENABLE :: nat where "APP_WDT_ENABLE = 1"
definition APP_PRIO_WATCHDOG :: "u32 \<Rightarrow> u32" where "APP_PRIO_WATCHDOG tskIDLE_PRIORITY = tskIDLE_PRIORITY + 5"
definition APP_PRIO_PRODUCER :: "u32 \<Rightarrow> u32" where "APP_PRIO_PRODUCER tskIDLE_PRIORITY = tskIDLE_PRIORITY + 4"
definition APP_PRIO_UI :: "u32 \<Rightarrow> u32" where "APP_PRIO_UI tskIDLE_PRIORITY = tskIDLE_PRIORITY + 2"
definition APP_PRIO_CONSUMER :: "u32 \<Rightarrow> u32" where "APP_PRIO_CONSUMER tskIDLE_PRIORITY = tskIDLE_PRIORITY + 1"

text \<open>The static assertions, over the kernel's configuration.\<close>

definition static_asserts :: "u32 \<Rightarrow> u32 \<Rightarrow> (u32 \<Rightarrow> u32) \<Rightarrow> bool" where
  "static_asserts configMAX_PRIORITIES tskIDLE_PRIORITY pdMS_TO_TICKS \<longleftrightarrow>
     APP_PRIO_WATCHDOG tskIDLE_PRIORITY < configMAX_PRIORITIES \<and>
     (APP_PRIO_WATCHDOG tskIDLE_PRIORITY > APP_PRIO_PRODUCER tskIDLE_PRIORITY \<and>
      APP_PRIO_PRODUCER tskIDLE_PRIORITY > APP_PRIO_UI tskIDLE_PRIORITY \<and>
      APP_PRIO_UI tskIDLE_PRIORITY > APP_PRIO_CONSUMER tskIDLE_PRIORITY) \<and>
     pdMS_TO_TICKS APP_UI_SCAN_PERIOD_MS > 0 \<and>
     pdMS_TO_TICKS APP_SAMPLE_TIMEOUT_MS > pdMS_TO_TICKS (1000 div APP_SAMPLE_RATE_HZ) \<and>
     (APP_LOG_CAPACITY \<noteq> 0 \<and> APP_LOG_CAPACITY AND (APP_LOG_CAPACITY - 1) = 0) \<and>
     (APP_LOG_READ_BATCH > 0 \<and> APP_LOG_READ_BATCH \<le> APP_LOG_CAPACITY) \<and>
     2 * APP_LOG_WRITE_WAIT_MS < 1000 div APP_SAMPLE_RATE_HZ \<and>
     2 * APP_WDT_CHECK_PERIOD_MS < APP_WDT_TIMEOUT_MS \<and>
     (APP_WDT_LIMIT_PRODUCER_MS \<ge> 2 * APP_WDT_CHECK_PERIOD_MS \<and>
      APP_WDT_LIMIT_UI_MS \<ge> 2 * APP_WDT_CHECK_PERIOD_MS) \<and>
     APP_WDT_LIMIT_CONSUMER_MS > 4 * APP_CONSUMER_POLL_MS"

section \<open>Status codes\<close>

fun gpio_status_code :: "gpio_drv_status_t \<Rightarrow> int" where
  "gpio_status_code GPIO_DRV_OK = 0" | "gpio_status_code GPIO_DRV_ERR_LOOKUP = 1"
| "gpio_status_code GPIO_DRV_ERR_INIT = 2"

fun uart_status_code :: "uart_drv_status_t \<Rightarrow> int" where
  "uart_status_code UART_DRV_OK = 0" | "uart_status_code UART_DRV_ERR_LOOKUP = 1"
| "uart_status_code UART_DRV_ERR_INIT = 2" | "uart_status_code UART_DRV_ERR_FORMAT = 3"

fun xadc_status_code :: "xadc_drv_status_t \<Rightarrow> int" where
  "xadc_status_code XADC_DRV_OK = 0" | "xadc_status_code XADC_DRV_ERR_LOOKUP = 1"
| "xadc_status_code XADC_DRV_ERR_INIT = 2" | "xadc_status_code XADC_DRV_ERR_SELFTEST = 3"
| "xadc_status_code XADC_DRV_ERR_SEQ_CONFIG = 4"

fun log_status_code :: "sensor_log_status_t \<Rightarrow> int" where
  "log_status_code SENSOR_LOG_OK = 0" | "log_status_code SENSOR_LOG_ERR_NOT_DDR = 1"
| "log_status_code SENSOR_LOG_ERR_CAPACITY = 2" | "log_status_code SENSOR_LOG_ERR_NO_MUTEX = 3"

fun wdt_status_code :: "wdt_drv_status_t \<Rightarrow> int" where
  "wdt_status_code WDT_DRV_OK = 0" | "wdt_status_code WDT_DRV_ERR_LOOKUP = 1"
| "wdt_status_code WDT_DRV_ERR_INIT = 2" | "wdt_status_code WDT_DRV_ERR_RANGE = 3"

section \<open>The boot sequence\<close>

record ('h, 'q) boot_env =
  m_io :: "'h slcr_io"
  m_gpio :: gpio_init_env
  m_bits :: uart_bits
  m_uart :: uart_init_env
  m_timer_counts :: u64
  m_date :: string
  m_time :: string
  m_xadc_flags :: "xadcps_seq_flag \<Rightarrow> u32"
  m_xadc :: xadc_init_env
  m_log_storage :: u32
  m_log_mutex :: bool
  m_wdt :: wdt_init_env
  m_queue :: "'q option"
  m_watchdog_task :: bool
  m_consumer_task :: bool
  m_ui_task :: bool
  m_producer_task :: bool
  m_scheduler_returns :: bool

record ('h, 'q) boot_state =
  bt_hw :: 'h
  bt_cause :: reset_cause_t
  bt_board :: "'q board"
  bt_prod :: producer_state
  bt_cons :: consumer_state_t

datatype 's boot_end = Spins 's | Faults string int 's | Schedules 's

text \<open>Whether the kernel could create the task.\<close>

definition task_watchdog_create :: "bool \<Rightarrow> bool" where
  "task_watchdog_create xTaskCreate_ok = xTaskCreate_ok"

definition task_ui_create :: "bool \<Rightarrow> bool" where
  "task_ui_create xTaskCreate_ok = xTaskCreate_ok"

definition or_fault :: "bool \<Rightarrow> string \<Rightarrow> int \<Rightarrow> 's \<Rightarrow> 's boot_end option \<Rightarrow> 's boot_end option" where
  "or_fault ok what code s rest = (if \<not> ok then Some (Faults what code s) else rest)"

definition set_board :: "'q board \<Rightarrow> ('h, 'q) boot_state \<Rightarrow> ('h, 'q) boot_state" where
  "set_board b s = s\<lparr>bt_board := b\<rparr>"

definition set_uart :: "uart_state \<Rightarrow> ('h, 'q) boot_state \<Rightarrow> ('h, 'q) boot_state" where
  "set_uart u s = set_board ((bt_board s)\<lparr>b_uart := u\<rparr>) s"

text \<open>The last lines of \<open>main\<close> before the scheduler: the watchdog is started and announced.\<close>

definition main_launch :: "('h, 'q) boot_state \<Rightarrow> ('h, 'q) boot_state boot_end option" where
  "main_launch s = do {
     s \<leftarrow> (if APP_WDT_ENABLE \<noteq> 0
          then do {
            let s = set_board ((bt_board s)\<lparr>b_wdt := wdt_drv_start (b_wdt (bt_board s))\<rparr>) s;
            u \<leftarrow> console_printf ''watchdog: SWDT %lu ms, supervisor every %u ms\<newline>''
                  [UInt (wdt_drv_timeout_ms (b_wdt (bt_board s))), UInt APP_WDT_CHECK_PERIOD_MS] (b_uart (bt_board s));
            Some (set_uart u s)
          }
          else Some s);
     u \<leftarrow> console_write (lit ''tasks created, starting scheduler\<newline>'') (b_uart (bt_board s));
     Some (Schedules (set_uart u s))
   }"

text \<open>Creating the tasks.\<close>

definition main_tasks :: "('h, 'q) boot_env \<Rightarrow> ('h, 'q) boot_state \<Rightarrow> ('h, 'q) boot_state boot_end option" where
  "main_tasks env s =
     or_fault (task_watchdog_create (m_watchdog_task env)) ''watchdog task create'' 0 s
     (let (ok, c, b) = task_consumer_create (m_queue env) (m_consumer_task env) (bt_cons s, bt_board s);
          s = (set_board b s)\<lparr>bt_cons := c\<rparr>
      in or_fault ok ''consumer task/queue create'' 0 s
     (or_fault (task_ui_create (m_ui_task env)) ''ui task create'' 0 s
     (let (ok, p) = task_producer_create (m_producer_task env) (bt_prod s);
          s = s\<lparr>bt_prod := p\<rparr>
      in or_fault ok ''producer task create'' 0 s (main_launch s))))"

text \<open>The XADC, the sensor log and the watchdog.\<close>

definition main_modules :: "('h, 'q) boot_env \<Rightarrow> ('h, 'q) boot_state \<Rightarrow> ('h, 'q) boot_state boot_end option" where
  "main_modules env s =
     (let (status, x) = xadc_drv_init (m_xadc_flags env) (m_xadc env) (b_xadc (bt_board s));
          s = set_board ((bt_board s)\<lparr>b_xadc := x\<rparr>) s
      in or_fault (status = XADC_DRV_OK) ''XADC init'' (xadc_status_code status) s (do {
        u \<leftarrow> console_write (lit ''XADC up: continuous sequencer, 16x averaging, calibration on\<newline>'') (b_uart (bt_board s));
        let s = set_uart u s;
        let (status, l) = sensor_log_init (m_log_storage env) (m_log_mutex env) (b_log (bt_board s));
        let s = set_board ((bt_board s)\<lparr>b_log := l\<rparr>) s;
        or_fault (status = SENSOR_LOG_OK) ''sensor log init'' (log_status_code status) s (do {
          let (log_base, log_bytes, log_capacity) =
            sensor_log_storage_info (m_log_storage env) (Some 0) (Some 0) (Some 0);
          base \<leftarrow> log_base;
          bytes \<leftarrow> log_bytes;
          cap \<leftarrow> log_capacity;
          u \<leftarrow> console_printf ''sensor log: %lu records, %lu bytes at 0x%08lX (DDR)\<newline>''
                [UInt cap, UInt bytes, UInt base] (b_uart (bt_board s));
          let s = set_uart u s;
          if APP_WDT_ENABLE \<noteq> 0
          then let (status, w) = wdt_drv_init (m_wdt env) APP_WDT_TIMEOUT_MS (b_wdt (bt_board s));
                   s = set_board ((bt_board s)\<lparr>b_wdt := w\<rparr>) s
               in or_fault (status = WDT_DRV_OK) ''watchdog init'' (wdt_status_code status) s (main_tasks env s)
          else do {
            u \<leftarrow> console_write (lit ''*** watchdog DISABLED (APP_WDT_ENABLE) ***\<newline>'') (b_uart (bt_board s));
            main_tasks env (set_uart u s)
          }
        })
      }))"

definition main_banner :: "('h, 'q) boot_env \<Rightarrow> reset_cause_t \<Rightarrow> uart_state \<Rightarrow> uart_state option" where
  "main_banner env last_reset u = do {
     u \<leftarrow> console_write (lit (''\<newline>\<newline>'' @ ''========================================================\<newline>'' @
           '' Zybo sensor aggregator - stage 4, watchdog\<newline>'')) u;
     u \<leftarrow> console_printf '' fw %s, built %s %s\<newline>'' [Str APP_FW_VERSION, Str (m_date env), Str (m_time env)] u;
     u \<leftarrow> console_write (lit ''========================================================\<newline>'') u;
     u \<leftarrow> console_printf ''last reset: %s\<newline>'' [Str (reset_cause_name last_reset)] u;
     if APP_TEST_LOG_HOLD_US > 0
     then console_printf ''*** TEST BUILD: log mutex held an extra %u us on every read ***\<newline>''
            [UInt APP_TEST_LOG_HOLD_US] u
     else Some u
   }"

definition main_start :: "('h, 'q) boot_env \<Rightarrow> ('h, 'q) boot_state \<Rightarrow> ('h, 'q) boot_state boot_end option" where
  "main_start env s = do {
     let (last_reset, cause, h) = reset_cause_capture (m_io env) (bt_cause s) (bt_hw s);
     let s = s\<lparr>bt_cause := cause, bt_hw := h\<rparr>;
     (status, g, h) \<leftarrow> gpio_drv_init (m_io env) (m_gpio env) (b_gpio (bt_board s)) (bt_hw s);
     let s = (set_board ((bt_board s)\<lparr>b_gpio := g\<rparr>) s)\<lparr>bt_hw := h\<rparr>;
     if status \<noteq> GPIO_DRV_OK then Some (Spins s)
     else do {
       (status, u) \<leftarrow> uart_drv_init (m_bits env) (m_uart env) BOARD_CONSOLE_BAUD (b_uart (bt_board s));
       let s = set_uart u s;
       or_fault (status = UART_DRV_OK) ''UART init'' (uart_status_code status) s
       (or_fault (uptime_init (m_timer_counts env)) ''uptime (global timer) init'' 0 s (do {
         u \<leftarrow> main_banner env last_reset (b_uart (bt_board s));
         main_modules env (set_uart u s)
       }))
     }
   }"

text \<open>
  The whole function, up to the LED loop's \<open>n\<close>th turn where it halts. Once the scheduler runs, the
  tasks take over (theory \<open>System\<close>).
\<close>

datatype ('h, 'q) boot_outcome = Spinning "('h, 'q) boot_state" | Halted "'q machine" | Running "('h, 'q) boot_state"

definition main_fault ::
  "fault_env \<Rightarrow> nat \<Rightarrow> string \<Rightarrow> int \<Rightarrow> ('h, 'q) boot_state \<Rightarrow> ('h, 'q) boot_outcome option" where
  "main_fault fenv n what code s =
     map_option Halted (fault_halt fenv n (lit what) code \<lparr>irq_masked = False, m_board = bt_board s\<rparr>)"

definition main ::
  "('h, 'q) boot_env \<Rightarrow> fault_env \<Rightarrow> nat \<Rightarrow> ('h, 'q) boot_state \<Rightarrow> ('h, 'q) boot_outcome option" where
  "main env fenv n s = do {
     e \<leftarrow> main_start env s;
     case e of
       Spins s \<Rightarrow> Some (Spinning s)
     | Faults what code s \<Rightarrow> main_fault fenv n what code s
     | Schedules s \<Rightarrow>
         if m_scheduler_returns env then main_fault fenv n ''scheduler start'' 0 s else Some (Running s)
   }"

text \<open>
  The producer's way into its loop: a sample timer that cannot be set up is fatal as well (the left
  side, at the LED loop's \<open>n\<close>th turn).
\<close>

fun timer_status_code :: "sample_timer_status_t \<Rightarrow> int" where
  "timer_status_code SAMPLE_TIMER_OK = 0" | "timer_status_code SAMPLE_TIMER_ERR_PARAM = 1"
| "timer_status_code SAMPLE_TIMER_ERR_LOOKUP = 2" | "timer_status_code SAMPLE_TIMER_ERR_INIT = 3"
| "timer_status_code SAMPLE_TIMER_ERR_RATE = 4" | "timer_status_code SAMPLE_TIMER_ERR_IRQ = 5"
| "timer_status_code SAMPLE_TIMER_ERR_BUSY = 6"

definition producer_start ::
  "timer_init_env \<Rightarrow> 'cb option \<Rightarrow> fault_env \<Rightarrow> nat \<Rightarrow> 'cb timer_state \<times> producer_state \<times> 'q machine
     \<Rightarrow> ('q machine + (producer_state \<times> 'cb timer_state)) option" where
  "producer_start tenv cb fenv n tpm = do {
     let (t, p, m) = tpm;
     r \<leftarrow> producer_begin tenv cb t p;
     case r of
       Inl status \<Rightarrow> map_option Inl (fault_halt fenv n (lit ''sample timer init'') (timer_status_code status) m)
     | Inr pt \<Rightarrow> Some (Inr pt)
   }"

section \<open>Power-up\<close>

text \<open>The static variables as the C startup code leaves them: zero, except the supervisor's table.\<close>

definition uart_bss :: uart_state where
  "uart_bss = \<lparr>s_uart_base = 0, s_uart_ready = False,
     s_err_counters = \<lparr>rx_overrun = 0, rx_framing = 0, rx_parity = 0\<rparr>, uart_calls = []\<rparr>"

definition gpio_bss :: gpio_state where
  "gpio_bss = \<lparr>s_gpio_ready = False, s_led_on = False,
     s_btn_state = replicate 2 \<lparr>is_down = False, mismatch_scans = 0, press_latched = False\<rparr>, gpio_calls = []\<rparr>"

definition board_bss :: "'q board" where
  "board_bss = \<lparr>b_uart = uart_bss, b_gpio = gpio_bss, b_xadc = \<lparr>s_xadc_ready = False, xadc_calls = []\<rparr>, b_log = log_bss, b_wdt = wdt_reset, b_wdog = wdog_boot,
     b_queue = None\<rparr>"

definition producer_bss :: producer_state where
  "producer_bss = \<lparr>p_stats = producer_stats_start\<lparr>period_min_us := 0\<rparr>, p_record = zero_record, p_prev_capture_us = 0,
     p_log_was_empty = False, p_doorbell_pending = False\<rparr>"

definition consumer_bss :: consumer_state_t where
  "consumer_bss = \<lparr>stream_enabled = False, stream_slow = False, drain_paused = False, stall_reported = False,
     received_count = 0, last_seq = 0, lost = 0, log_lock_timeouts = 0, queue_depth_peak = 0,
     last_producer_samples = 0, last_progress_tick = 0\<rparr>"

definition power_up :: "'h \<Rightarrow> ('h, 'q) boot_state" where
  "power_up h = \<lparr>bt_hw = h, bt_cause = RESET_CAUSE_UNKNOWN, bt_board = board_bss, bt_prod = producer_bss,
     bt_cons = consumer_bss\<rparr>"

text \<open>The system the scheduler starts from, before any task has run.\<close>

definition boot_sys :: "('h, 'q) boot_state \<Rightarrow> 'q sys" where
  "boot_sys s = \<lparr>sys_board = bt_board s, sys_prod = bt_prod s, sys_checkin_due = False, sys_ui_due = False,
     sys_ui_dropped = 0, sys_kicking = True, sys_cons = bt_cons s, sys_pc = Waiting False, sys_stored = [],
     sys_received = [], sys_unstored = 0\<rparr>"

section \<open>How a sequence of checked steps ends\<close>

text \<open>With the first check that fails, or with the scheduler if none does.\<close>

definition ends_as ::
  "(bool \<times> string \<times> int) list \<Rightarrow> ('s \<Rightarrow> bool) \<Rightarrow> ('s \<Rightarrow> bool) \<Rightarrow> 's boot_end option \<Rightarrow> bool" where
  "ends_as checks bad good r \<longleftrightarrow>
     (case find (\<lambda>(ok, _). \<not> ok) checks of
        Some (_, what, code) \<Rightarrow> \<exists>s. r = Some (Faults what code s) \<and> bad s
      | None \<Rightarrow> \<exists>s. r = Some (Schedules s) \<and> good s)"

definition halted_ok :: "bool \<Rightarrow> ('h, 'q) boot_state \<Rightarrow> bool" where
  "halted_ok up s \<longleftrightarrow> s_uart_ready (b_uart (bt_board s)) = up \<and> \<not> wdt_drv_is_running (b_wdt (bt_board s)) \<and> s_gpio_ready (b_gpio (bt_board s))"

lemma ends_or_fault:
  "(\<not> ok \<Longrightarrow> bad s) \<Longrightarrow> (ok \<Longrightarrow> ends_as checks bad good r) \<Longrightarrow>
     ends_as ((ok, what, code) # checks) bad good (or_fault ok what code s r)"
  by (simp add: ends_as_def or_fault_def)

lemma ends_check:
  "halted_ok up s \<Longrightarrow> (ok \<Longrightarrow> ends_as checks (halted_ok up) good r) \<Longrightarrow>
     ends_as ((ok, what, code) # checks) (halted_ok up) good (or_fault ok what code s r)"
  by (rule ends_or_fault)

lemma ends_prints:
  assumes "prints u r" "\<And>t. ends_as checks bad good (f (console_text t u))"
  shows "ends_as checks bad good (r \<bind> f)"
  using assms by (auto elim!: printsE)

text \<open>
  At the scheduler's start: the running system's start state, the supervisor's table as it is built,
  and the watchdog as its initialisation left it, started.
\<close>

definition wdt_came_up :: "('h, 'q) boot_env \<Rightarrow> wdt_state \<Rightarrow> bool" where
  "wdt_came_up env w \<longleftrightarrow> wdt_drv_init (m_wdt env) APP_WDT_TIMEOUT_MS wdt_reset = (WDT_DRV_OK, w)"

definition launched_ok :: "('h, 'q) boot_env \<Rightarrow> ('h, 'q) boot_state \<Rightarrow> bool" where
  "launched_ok env s \<longleftrightarrow> sys_start (boot_sys s) \<and> b_wdog (bt_board s) = wdog_boot \<and>
     wdt_drv_is_running (b_wdt (bt_board s)) \<and> (\<exists>w. wdt_came_up env w \<and> b_wdt (bt_board s) = wdt_drv_start w)"

text \<open>What each stage needs, and hands to the next.\<close>

definition up_to_console :: "('h, 'q) boot_state \<Rightarrow> bool" where
  "up_to_console s \<longleftrightarrow> (let b = bt_board s in
     s_uart_ready (b_uart b) \<and> s_gpio_ready (b_gpio b) \<and> gpio_wf (b_gpio b) \<and> \<not> s_wdt_running (b_wdt b) \<and>
     b_wdog b = wdog_boot \<and> bt_prod s = producer_bss \<and> bt_cons s = consumer_bss)"

definition up_to_log :: "('h, 'q) boot_state \<Rightarrow> bool" where
  "up_to_log s \<longleftrightarrow> up_to_console s \<and> log_ok (b_log (bt_board s)) \<and> log_contents (b_log (bt_board s)) = [] \<and>
     overwritten (s_ring (b_log (bt_board s))) = 0"

definition up_to_wdt :: "('h, 'q) boot_env \<Rightarrow> ('h, 'q) boot_state \<Rightarrow> bool" where
  "up_to_wdt env s \<longleftrightarrow> up_to_log s \<and> s_wdt_ready (b_wdt (bt_board s)) \<and> wdt_came_up env (b_wdt (bt_board s))"

lemmas up_to_defs = up_to_console_def up_to_log_def up_to_wdt_def Let_def

lemma up_to_text [simp]:
  "up_to_console (set_uart (console_text t (b_uart (bt_board s))) s) = up_to_console s"
  "up_to_log (set_uart (console_text t (b_uart (bt_board s))) s) = up_to_log s"
  "up_to_wdt env (set_uart (console_text t (b_uart (bt_board s))) s) = up_to_wdt env s"
  by (simp_all add: up_to_defs set_uart_def set_board_def)

lemma halted_ok_before: "up_to_console s \<Longrightarrow> halted_ok True s"
  by (simp add: halted_ok_def up_to_defs wdt_drv_is_running_def)

section \<open>The stages\<close>

text \<open>With the queue and the tasks created, the watchdog is started and the scheduler takes over.\<close>

lemma launch_ends:
  assumes "s_wdt_ready (b_wdt (bt_board s))" "wdt_came_up env (b_wdt (bt_board s))" "sys_start (boot_sys s)"
    and "b_wdog (bt_board s) = wdog_boot"
  shows "ends_as [] bad (launched_ok env) (main_launch s)"
proof -
  let ?w = "wdt_drv_start (b_wdt (bt_board s))"
  have start: "s_wdt_running ?w" using assms(1) by (simp add: wdt_drv_start_def wdt_call_def)
  have good: "launched_ok env (set_uart (console_text t (b_uart (bt_board s)))
      (set_board ((bt_board s)\<lparr>b_wdt := ?w\<rparr>) s))" for t
    using assms(2-4) start
    by (auto simp: launched_ok_def set_uart_def set_board_def wdt_drv_is_running_def boot_sys_def sys_start_def
        sys_ok_def board_ok_def sys_log_def sys_overwritten_def sys_seq_def sys_drops_def)
  have p: "prints u (console_printf ''watchdog: SWDT %lu ms, supervisor every %u ms\<newline>'' [UInt a, UInt b] u)" for u a b
    by (rule prints_printf) (simp add: printf_eval)
  have w: "console_write (lit ''tasks created, starting scheduler\<newline>'') u =
      Some (console_text ''tasks created, starting scheduler\<newline>'' u)" for u
    by (simp add: console_write_lit NUL_def)
  obtain t where t: "console_printf ''watchdog: SWDT %lu ms, supervisor every %u ms\<newline>''
      [UInt (wdt_drv_timeout_ms ?w), UInt APP_WDT_CHECK_PERIOD_MS] (b_uart (bt_board s)) =
      Some (console_text t (b_uart (bt_board s)))"
    using p by (rule printsE)
  show ?thesis
    using good by (simp add: main_launch_def APP_WDT_ENABLE_def ends_as_def set_board_def set_uart_def t w)
qed

definition task_checks :: "('h, 'q) boot_env \<Rightarrow> (bool \<times> string \<times> int) list" where
  "task_checks env =
     [(m_watchdog_task env, ''watchdog task create'', 0),
      (m_queue env \<noteq> None \<and> m_consumer_task env, ''consumer task/queue create'', 0),
      (m_ui_task env, ''ui task create'', 0), (m_producer_task env, ''producer task create'', 0)]"

lemma tasks_end:
  assumes "up_to_wdt env s"
  shows "ends_as (task_checks env) (halted_ok True) (launched_ok env) (main_tasks env s)"
proof -
  define c where "c = (bt_cons s)\<lparr>stream_enabled := True, stream_slow := False, drain_paused := False\<rparr>"
  define p where "p = (bt_prod s)\<lparr>p_stats := (p_stats (bt_prod s))\<lparr>period_min_us := 0xFFFFFFFF\<rparr>\<rparr>"
  define s1 where "s1 = (set_board ((bt_board s)\<lparr>b_queue := m_queue env\<rparr>) s)\<lparr>bt_cons := c\<rparr>"
  define s2 where "s2 = s1\<lparr>bt_prod := p\<rparr>"
  have consumer: "task_consumer_create (m_queue env) (m_consumer_task env) (bt_cons s, bt_board s) =
      (m_queue env \<noteq> None \<and> m_consumer_task env, c, (bt_board s)\<lparr>b_queue := m_queue env\<rparr>)"
    by (simp add: task_consumer_create_def Let_def c_def)
  have producer: "task_producer_create (m_producer_task env) (bt_prod s1) = (m_producer_task env, p)"
    by (simp add: task_producer_create_def p_def s1_def set_board_def)
  have up: "halted_ok True s" "halted_ok True s1" "halted_ok True s2"
    using halted_ok_before [of s] assms by (simp_all add: up_to_defs halted_ok_def set_board_def s1_def s2_def)
  have start: "sys_start (boot_sys s2)" if "m_queue env \<noteq> None"
    using assms that
    by (simp add: up_to_defs sys_start_def boot_sys_def sys_ok_def board_ok_def set_board_def sys_log_def
        sys_overwritten_def sys_seq_def sys_drops_def s1_def s2_def c_def p_def
        producer_bss_def consumer_bss_def producer_stats_start_def prod_wf_def zero_record_def zero_sample_def)
  have wdt: "s_wdt_ready (b_wdt (bt_board s2))" "wdt_came_up env (b_wdt (bt_board s2))" "b_wdog (bt_board s2) = wdog_boot"
    using assms by (simp_all add: up_to_defs set_board_def s1_def s2_def)
  have "main_tasks env s =
      or_fault (m_watchdog_task env) ''watchdog task create'' 0 s
      (or_fault (m_queue env \<noteq> None \<and> m_consumer_task env) ''consumer task/queue create'' 0 s1
      (or_fault (m_ui_task env) ''ui task create'' 0 s1
      (or_fault (m_producer_task env) ''producer task create'' 0 s2 (main_launch s2))))"
    by (simp only: main_tasks_def task_watchdog_create_def task_ui_create_def consumer Let_def prod.case
        s1_def [symmetric] producer s2_def [symmetric])
  then show ?thesis
    unfolding task_checks_def by (simp only:) (intro ends_or_fault up launch_ends wdt start, blast)
qed

lemma log_init_status:
  assumes "sensor_log_init a m log_bss = (status, l)" "status = SENSOR_LOG_OK"
  shows "log_ok l" "log_contents l = []" "overwritten (s_ring l) = 0"
proof -
  note ok = log_init_OK_cases [OF assms(1) [unfolded assms(2)]]
  have "storage (s_ring l) = Some (s_log_storage log_bss) \<and> overwritten (s_ring l) = 0"
    using ok(1) by (auto simp: ring_buffer_init_def split: if_splits dest!: sym [of _ "s_ring l"])
  moreover have "list_all rec_ok (s_log_storage log_bss)"
    by (simp add: s_log_storage_def log_bss_def blank_ring_def list_all_iff)
  moreover have "mutex_free l" by (simp add: mutex_free_def ok(3))
  ultimately show "log_ok l" "overwritten (s_ring l) = 0"
    using ok(4) by (simp_all add: log_ok_def ring_storage_def)
  show "log_contents l = []" by (rule ok(5))
qed

lemma wdt_init_ready:
  assumes "wdt_drv_init env t s = (status, s')"
  shows "s_wdt_ready s' \<longleftrightarrow> status = WDT_DRV_OK"
proof -
  have search: "s_wdt_ready (snd (wdt_find_prescaler t c ps w)) \<longleftrightarrow> fst (wdt_find_prescaler t c ps w) = WDT_DRV_OK"
    if "\<not> s_wdt_ready w" for c ps w
    using that
  proof (induction ps)
    case (Cons p ps)
    then show ?case by (simp add: Let_def wdt_call_def)
  qed simp
  have stopped: "\<not> s_wdt_ready (wdt_call XWdtPs_Stop (s\<lparr>s_wdt_ready := False\<rparr>))" by (simp add: wdt_call_def)
  have "s_wdt_ready (snd (wdt_drv_init env t s)) \<longleftrightarrow> fst (wdt_drv_init env t s) = WDT_DRV_OK"
    unfolding wdt_drv_init_def Let_def using search [OF stopped] by simp
  with assms show ?thesis by simp
qed

text \<open>The drivers' own statuses decide.\<close>

definition module_checks :: "('h, 'q) boot_env \<Rightarrow> (bool \<times> string \<times> int) list" where
  "module_checks env =
     (let x = fst (xadc_drv_init (m_xadc_flags env) (m_xadc env) \<lparr>s_xadc_ready = False, xadc_calls = []\<rparr>);
          l = fst (sensor_log_init (m_log_storage env) (m_log_mutex env) log_bss);
          w = fst (wdt_drv_init (m_wdt env) APP_WDT_TIMEOUT_MS wdt_reset)
      in [(x = XADC_DRV_OK, ''XADC init'', xadc_status_code x),
          (l = SENSOR_LOG_OK, ''sensor log init'', log_status_code l),
          (w = WDT_DRV_OK, ''watchdog init'', wdt_status_code w)])"

definition unused_modules :: "('h, 'q) boot_state \<Rightarrow> bool" where
  "unused_modules s \<longleftrightarrow> b_xadc (bt_board s) = \<lparr>s_xadc_ready = False, xadc_calls = []\<rparr> \<and>
     b_log (bt_board s) = log_bss \<and> b_wdt (bt_board s) = wdt_reset"

lemma wdt_end:
  assumes "up_to_log s" "wdt_drv_init (m_wdt env) APP_WDT_TIMEOUT_MS wdt_reset = (wst, w)"
  shows "ends_as ((wst = WDT_DRV_OK, ''watchdog init'', wdt_status_code wst) # task_checks env) (halted_ok True) (launched_ok env)
    (or_fault (wst = WDT_DRV_OK) ''watchdog init'' (wdt_status_code wst)
      (set_board ((bt_board s)\<lparr>b_wdt := w\<rparr>) s) (main_tasks env (set_board ((bt_board s)\<lparr>b_wdt := w\<rparr>) s)))"
proof -
  have w: "\<not> s_wdt_running w" "wst = WDT_DRV_OK \<Longrightarrow> s_wdt_ready w \<and> wdt_came_up env w"
    using wdt_init_calls(2) [of "m_wdt env" APP_WDT_TIMEOUT_MS wdt_reset] wdt_init_ready [OF assms(2)] assms(2)
    by (simp_all add: wdt_came_up_def) (simp add: wdt_reset_def)
  have "up_to_log (set_board ((bt_board s)\<lparr>b_wdt := w\<rparr>) s)"
    using assms(1) w(1) by (simp add: up_to_defs set_board_def)
  then show ?thesis
    using w(2) by (intro ends_check tasks_end)
      (simp_all add: halted_ok_before up_to_log_def up_to_wdt_def, simp_all add: set_board_def)
qed

text \<open>The three module stages of \<open>main_modules\<close>, as a chain of checks.\<close>

definition xadc_text :: string where
  "xadc_text = ''XADC up: continuous sequencer, 16x averaging, calibration on\<newline>''"

lemma main_modules_chain:
  assumes "unused_modules s" "xadc_drv_init (m_xadc_flags env) (m_xadc env) \<lparr>s_xadc_ready = False, xadc_calls = []\<rparr> = (xst, x)"
    and "sensor_log_init (m_log_storage env) (m_log_mutex env) log_bss = (lst, l)"
    and "wdt_drv_init (m_wdt env) APP_WDT_TIMEOUT_MS wdt_reset = (wst, w)"
    and "s1 = set_board ((bt_board s)\<lparr>b_xadc := x\<rparr>) s"
    and "s2 = set_uart (console_text xadc_text (b_uart (bt_board s1))) s1"
    and "s3 = set_board ((bt_board s2)\<lparr>b_log := l\<rparr>) s2"
  shows "main_modules env s =
      or_fault (xst = XADC_DRV_OK) ''XADC init'' (xadc_status_code xst) s1
      (or_fault (lst = SENSOR_LOG_OK) ''sensor log init'' (log_status_code lst) s3
        (console_printf ''sensor log: %lu records, %lu bytes at 0x%08lX (DDR)\<newline>''
           [UInt APP_LOG_CAPACITY, UInt sizeof_log_storage, UInt (m_log_storage env)] (b_uart (bt_board s3)) \<bind>
         (\<lambda>u. or_fault (wst = WDT_DRV_OK) ''watchdog init'' (wdt_status_code wst)
           (set_board ((bt_board (set_uart u s3))\<lparr>b_wdt := w\<rparr>) (set_uart u s3))
           (main_tasks env (set_board ((bt_board (set_uart u s3))\<lparr>b_wdt := w\<rparr>) (set_uart u s3))))))"
proof -
  have wr: "console_write (lit xadc_text) u = Some (console_text xadc_text u)" for u
    by (simp add: xadc_text_def console_write_lit NUL_def)
  have "b_log (bt_board s2) = log_bss" "b_wdt (bt_board (set_uart u s3)) = wdt_reset" for u
    using assms(1) by (simp_all add: assms(5-7) set_uart_def set_board_def unused_modules_def)
  then show ?thesis
    using assms(1)
    by (simp add: main_modules_def unused_modules_def assms(2) assms(5) [symmetric] xadc_text_def [symmetric] wr
        assms(6) [symmetric] assms(3) assms(7) [symmetric] sensor_log_storage_info_def APP_WDT_ENABLE_def assms(4) Let_def)
qed

lemma modules_end:
  assumes "up_to_console s" "unused_modules s"
  shows "ends_as (module_checks env @ task_checks env) (halted_ok True) (launched_ok env) (main_modules env s)"
proof -
  obtain xst x where x: "xadc_drv_init (m_xadc_flags env) (m_xadc env) \<lparr>s_xadc_ready = False, xadc_calls = []\<rparr> = (xst, x)"
    by fastforce
  obtain lst l where l: "sensor_log_init (m_log_storage env) (m_log_mutex env) log_bss = (lst, l)" by fastforce
  obtain wst w where w: "wdt_drv_init (m_wdt env) APP_WDT_TIMEOUT_MS wdt_reset = (wst, w)" by fastforce
  define s1 where "s1 = set_board ((bt_board s)\<lparr>b_xadc := x\<rparr>) s"
  define s2 where "s2 = set_uart (console_text xadc_text (b_uart (bt_board s1))) s1"
  define s3 where "s3 = set_board ((bt_board s2)\<lparr>b_log := l\<rparr>) s2"
  have s1: "up_to_console s1" using assms by (simp add: s1_def up_to_defs set_board_def)
  then have "up_to_console s2" by (simp add: s2_def)
  then have s3: "up_to_console s3" "b_log (bt_board s3) = l" by (simp_all add: s3_def up_to_defs set_board_def)
  have s4: "up_to_log (set_uart (console_text t (b_uart (bt_board s3))) s3)" if "lst = SENSOR_LOG_OK" for t
    unfolding up_to_text using s3 log_init_status [OF l that] by (simp add: up_to_log_def)
  have pr: "prints u (console_printf ''sensor log: %lu records, %lu bytes at 0x%08lX (DDR)\<newline>'' [UInt a, UInt b, UInt c] u)"
    for u a b c
    by (rule prints_printf) (simp add: printf_eval)
  show ?thesis
    unfolding module_checks_def Let_def x l w fst_conv append_Cons append_Nil
      main_modules_chain [OF assms(2) x l w s1_def s2_def s3_def]
    by (intro ends_check halted_ok_before s1 s3 ends_prints [OF pr] wdt_end [OF _ w] s4)
qed

lemma banner_prints: "prints u (main_banner env cause u)"
proof -
  have nul: "NUL \<notin> set (''\<newline>\<newline>'' @ ''========================================================\<newline>'' @
           '' Zybo sensor aggregator - stage 4, watchdog\<newline>'')"
    "NUL \<notin> set ''========================================================\<newline>''" by (simp_all add: NUL_def)
  have fw: "printf_text '' fw %s, built %s %s\<newline>'' [Str a, Str b, Str c] \<noteq> None" for a b c
    by (simp add: printf_eval)
  have why: "printf_text ''last reset: %s\<newline>'' [Str a] \<noteq> None" for a
    by (simp add: printf_eval)
  have last: "prints u (if APP_TEST_LOG_HOLD_US > 0
      then console_printf ''*** TEST BUILD: log mutex held an extra %u us on every read ***\<newline>'' [UInt APP_TEST_LOG_HOLD_US] u
      else Some u)" for u
    by (simp add: APP_TEST_LOG_HOLD_US_def)
  show ?thesis
    unfolding main_banner_def
    by (intro prints_bind prints_lit nul prints_printf fw why last)
qed

text \<open>The UART driver's status, if its transmitter drains before it is set up again.\<close>

definition uart_failure :: "uart_init_env \<Rightarrow> uart_drv_status_t" where
  "uart_failure e =
     (if XUartPs_LookupConfig e = None then UART_DRV_ERR_LOOKUP
      else if \<not> XUartPs_CfgInitialize_ok e then UART_DRV_ERR_INIT
      else if \<not> XUartPs_SetDataFormat_ok e then UART_DRV_ERR_FORMAT else UART_DRV_OK)"

definition uart_drains :: "uart_bits \<Rightarrow> uart_init_env \<Rightarrow> bool" where
  "uart_drains b e \<longleftrightarrow> (\<exists>sr\<in>set (sr_answers e). sr AND XUARTPS_SR_TXEMPTY b \<noteq> 0)"

lemma uart_init_status:
  assumes "uart_drains b e"
  obtains u' where "uart_drv_init b e baud u = Some (uart_failure e, u')" "s_uart_ready u' \<longleftrightarrow> uart_failure e = UART_DRV_OK"
proof -
  have "poll_until (\<lambda>sr. sr AND XUARTPS_SR_TXEMPTY b \<noteq> 0) (sr_answers e) \<noteq> None"
    using assms by (auto simp: poll_until_None uart_drains_def)
  then obtain rest where poll: "poll_until (\<lambda>sr. sr AND XUARTPS_SR_TXEMPTY b \<noteq> 0) (sr_answers e) = Some rest" by blast
  show thesis
  proof (cases "XUartPs_LookupConfig e")
    case None
    then show thesis
      by (intro that [of "u\<lparr>s_uart_ready := False\<rparr>"]) (simp_all add: uart_drv_init_def uart_failure_def)
  next
    case (Some base)
    have "\<exists>u'. uart_drv_init b e baud u = Some (uart_failure e, u') \<and>
        (s_uart_ready u' \<longleftrightarrow> uart_failure e = UART_DRV_OK)"
      using Some poll
      by (cases "XUartPs_CfgInitialize_ok e"; cases "XUartPs_SetDataFormat_ok e")
        (simp_all add: uart_drv_init_def uart_failure_def uart_call_def Let_def)
    then show thesis using that by blast
  qed
qed

definition boot_checks :: "('h, 'q) boot_env \<Rightarrow> (bool \<times> string \<times> int) list" where
  "boot_checks env =
     [(uart_failure (m_uart env) = UART_DRV_OK, ''UART init'', uart_status_code (uart_failure (m_uart env))),
      (m_timer_counts env \<noteq> 0, ''uptime (global timer) init'', 0)] @ module_checks env @ task_checks env"

lemma start_ends:
  fixes env :: "('h, 'q) boot_env"
  assumes "XGpioPs_LookupConfig_ok (m_gpio env)" "XGpioPs_CfgInitialize_ok (m_gpio env)"
    and "uart_drains (m_bits env) (m_uart env)"
  shows "ends_as (boot_checks env) (halted_ok (uart_failure (m_uart env) = UART_DRV_OK)) (launched_ok env) (main_start env (power_up h))"
proof -
  obtain last cause h1 where r: "reset_cause_capture (m_io env) RESET_CAUSE_UNKNOWN h = (last, cause, h1)"
    using prod_cases3 by blast
  define g where "g = (gpio_bss)\<lparr>s_gpio_ready := True, s_led_on := False,
      s_btn_state := map (\<lambda>i. \<lparr>is_down = raw_level i (init_pins (m_gpio env)), mismatch_scans = 0, press_latched = False\<rparr>) [0, 1],
      gpio_calls := gpio_calls (gpio_bss) @ [XGpioPs_WritePin 7 0, XGpioPs_SetDirectionPin 7 1,
        XGpioPs_SetOutputEnablePin 7 1, XGpioPs_SetDirectionPin 50 0, XGpioPs_SetDirectionPin 51 0]\<rparr>"
  have g: "gpio_drv_init (m_io env) (m_gpio env) (gpio_bss) h1 = Some (GPIO_DRV_OK, g, init_hw (m_io env) h1)"
    unfolding g_def by (rule gpio_drv_init_ok) (simp_all add: assms gpio_bss_def)
  have gw: "gpio_wf g" "s_gpio_ready g" by (simp_all add: g_def gpio_wf_def GPIO_DRV_DEBOUNCE_SCANS_def)
  obtain u where u: "uart_drv_init (m_bits env) (m_uart env) BOARD_CONSOLE_BAUD (uart_bss) =
      Some (uart_failure (m_uart env), u)" "s_uart_ready u \<longleftrightarrow> uart_failure (m_uart env) = UART_DRV_OK"
    using uart_init_status [OF assms(3)] by blast
  define s1 :: "('h, 'q) boot_state" where "s1 = \<lparr>bt_hw = init_hw (m_io env) h1, bt_cause = cause, bt_board = board_bss\<lparr>b_gpio := g, b_uart := u\<rparr>,
      bt_prod = producer_bss, bt_cons = consumer_bss\<rparr>"
  have fields: "\<not> s_wdt_running wdt_reset" "wdog_wf wdog_boot"
    by (simp add: wdt_reset_def) (rule wdog_boot_wf)
  have start: "main_start env (power_up h) =
      or_fault (uart_failure (m_uart env) = UART_DRV_OK) ''UART init'' (uart_status_code (uart_failure (m_uart env))) s1
       (or_fault (m_timer_counts env \<noteq> 0) ''uptime (global timer) init'' 0 s1
         (main_banner env last u \<bind> (\<lambda>u'. main_modules env (set_uart u' s1))))"
    by (simp add: main_start_def power_up_def board_bss_def r g set_board_def set_uart_def u(1) s1_def uptime_init_def Let_def)
  have halted: "halted_ok (uart_failure (m_uart env) = UART_DRV_OK) s1"
    using gw u(2) by (simp add: halted_ok_def s1_def board_bss_def wdt_drv_is_running_def wdt_reset_def)
  have mods: "ends_as (module_checks env @ task_checks env) (halted_ok (uart_failure (m_uart env) = UART_DRV_OK)) (launched_ok env)
      (main_modules env (set_uart (console_text t u) s1))" if "uart_failure (m_uart env) = UART_DRV_OK" for t
    unfolding eqTrueI [OF that] by (rule modules_end) (use u(2) that gw fields in \<open>simp_all add: up_to_defs unused_modules_def s1_def set_uart_def
        set_board_def board_bss_def\<close>)
  show ?thesis
    unfolding start boot_checks_def append_Cons append_Nil
    by (rule ends_check [OF halted], rule ends_check [OF halted], rule ends_prints [OF banner_prints], rule mods)
qed

section \<open>From the scheduler's start into the tasks' loops\<close>

lemma checks_in_range:
  assumes "(ok, what, code) \<in> set (boot_checks env)"
  shows "NUL \<notin> set what" "0 \<le> code" "code < 2147483648"
proof -
  have codes: "0 \<le> uart_status_code us \<and> uart_status_code us \<le> 3" "0 \<le> xadc_status_code xs \<and> xadc_status_code xs \<le> 4"
    "0 \<le> log_status_code ls \<and> log_status_code ls \<le> 3" "0 \<le> wdt_status_code ws \<and> wdt_status_code ws \<le> 3"
    for us xs ls ws by (cases us; cases xs; cases ls; cases ws; simp)+
  have "0 \<le> code \<and> code \<le> 4"
    using assms codes(1) [of "uart_failure (m_uart env)"]
      codes(2) [of "fst (xadc_drv_init (m_xadc_flags env) (m_xadc env) \<lparr>s_xadc_ready = False, xadc_calls = []\<rparr>)"]
      codes(3) [of "fst (sensor_log_init (m_log_storage env) (m_log_mutex env) log_bss)"]
      codes(4) [of "fst (wdt_drv_init (m_wdt env) APP_WDT_TIMEOUT_MS wdt_reset)"]
    unfolding boot_checks_def module_checks_def task_checks_def Let_def by fastforce
  then show "0 \<le> code" "code < 2147483648" by simp_all
  show "NUL \<notin> set what"
    using assms unfolding boot_checks_def module_checks_def task_checks_def Let_def NUL_def by fastforce
qed

lemma producer_begin_state:
  assumes "producer_begin tenv cb t p = Some (Inr (p', t'))"
  shows "p' = p\<lparr>p_stats := (p_stats p)\<lparr>timer_period_us := timer_period_us (p_stats p')\<rparr>, p_record := (p_record p)\<lparr>seq := 0\<rparr>,
    p_prev_capture_us := 0, p_log_was_empty := False, p_doorbell_pending := False\<rparr>"
  using assms by (auto simp: producer_begin_def split: bind_splits if_splits)

lemma consumer_begin_state:
  obtains t where "consumer_begin st tick (c, b) = Some (c\<lparr>last_progress_tick := tick\<rparr>, b\<lparr>b_uart := console_text t (b_uart b)\<rparr>)"
proof -
  have p: "printf_text ''scheduler running, sample period %lu us\<newline>'' [UInt x] \<noteq> None" for x
    by (simp add: printf_eval)
  have "prints (b_uart b) (console_printf ''scheduler running, sample period %lu us\<newline>'' [UInt (timer_period_us st)] (b_uart b) \<bind>
      consumer_print_help)"
    by (intro prints_bind prints_printf p prints_help)
  then obtain x where "console_printf ''scheduler running, sample period %lu us\<newline>'' [UInt (timer_period_us st)] (b_uart b) \<bind>
      consumer_print_help = Some (console_text x (b_uart b))" by (rule printsE)
  then show thesis
    by (intro that [of x]) (auto simp: consumer_begin_def split: bind_splits)
qed

text \<open>The tasks run what precedes their loops, the producer first because of its priority.\<close>

definition tasks_begun :: "producer_state \<Rightarrow> consumer_state_t \<Rightarrow> 'q board \<Rightarrow> ('h, 'q) boot_state \<Rightarrow> 'q sys" where
  "tasks_begun p c b s = boot_sys (s\<lparr>bt_prod := p, bt_cons := c, bt_board := b\<rparr>)"

lemma tasks_begun_start:
  assumes "sys_start (boot_sys s)" "producer_begin tenv cb t (bt_prod s) = Some (Inr (p, t'))"
    and "consumer_begin (p_stats p) tick (bt_cons s, bt_board s) = Some (c, b)"
  shows "sys_start (tasks_begun p c b s)"
proof -
  obtain x where x: "consumer_begin (p_stats p) tick (bt_cons s, bt_board s) =
      Some ((bt_cons s)\<lparr>last_progress_tick := tick\<rparr>, (bt_board s)\<lparr>b_uart := console_text x (b_uart (bt_board s))\<rparr>)"
    by (rule consumer_begin_state)
  then have cb: "c = (bt_cons s)\<lparr>last_progress_tick := tick\<rparr>" "b = (bt_board s)\<lparr>b_uart := console_text x (b_uart (bt_board s))\<rparr>"
    using assms(3) by simp_all
  obtain us where p: "p = (bt_prod s)\<lparr>p_stats := (p_stats (bt_prod s))\<lparr>timer_period_us := us\<rparr>,
      p_record := (p_record (bt_prod s))\<lparr>seq := 0\<rparr>, p_prev_capture_us := 0, p_log_was_empty := False, p_doorbell_pending := False\<rparr>"
    using producer_begin_state [OF assms(2)] by blast
  show ?thesis
    using assms(1)
    by (simp add: tasks_begun_def p cb boot_sys_def sys_start_def sys_ok_def board_ok_def sys_log_def sys_overwritten_def
        sys_seq_def sys_drops_def prod_wf_def)
qed

section \<open>Properties\<close>

text \<open>
  C8: At boot, the first step that fails decides: with the GPIO driver up, \<open>main\<close> halts with that step's
  name and status code, interrupts masked and the watchdog not running; the message is on the wire
  unless it is the UART's own initialisation that failed, and then nothing is sent. No later step is
  run: the code is the failing driver's own status.
\<close>

theorem boot_failure_halts:
  assumes "XGpioPs_LookupConfig_ok (m_gpio env)" "XGpioPs_CfgInitialize_ok (m_gpio env)"
    and "uart_drains (m_bits env) (m_uart env)"
    and "find (\<lambda>(ok, _). \<not> ok) (boot_checks env) = Some (ok, what, code)"
    and "\<And>u. tx_drains fenv u" "\<forall>i<n. wait_ends fenv i"
  shows "\<exists>s m. main_start env (power_up h) = Some (Faults what code s) \<and>
    main env fenv n (power_up h) = Some (Halted m) \<and>
    irq_masked m \<and> \<not> wdt_drv_is_running (b_wdt (m_board m)) \<and>
    sent (b_uart (m_board m)) = sent (b_uart (bt_board s)) @
      (if uart_failure (m_uart env) = UART_DRV_OK
       then crlf (''\<newline>\<newline>FATAL: '' @ what @ '' failed, code '' @ code_text code @ ''\<newline>system halted\<newline>'') else [])"
proof -
  let ?up = "uart_failure (m_uart env) = UART_DRV_OK"
  have "(ok, what, code) \<in> set (boot_checks env)"
    using assms(4) nth_mem by (fastforce simp: find_Some_iff)
  note range = checks_in_range [OF this]
  obtain s where s: "main_start env (power_up h) = Some (Faults what code s)" "halted_ok ?up s"
    using start_ends [OF assms(1-3), of h] assms(4) by (auto simp: ends_as_def)
  let ?m = "\<lparr>irq_masked = False, m_board = bt_board s\<rparr>"
  let ?t = "''\<newline>\<newline>FATAL: '' @ what @ '' failed, code '' @ code_text code"
  have "fault_halt fenv n (lit what) code ?m = Some (parked n ?t ?m)"
    using fault_halt_eq [where rest = "[]" and env = fenv and n = n and m = ?m, OF _ range(3,1)] range(2) assms(5,6)
    by (simp add: lit_def)
  then have "main env fenv n (power_up h) = Some (Halted (parked n ?t ?m))"
    by (simp add: main_def s(1) main_fault_def)
  moreover have "park_text (bt_board s) = ''\<newline>system halted\<newline>''"
    using s(2) by (simp add: halted_ok_def park_text_def wdt_drv_is_running_def)
  ultimately show ?thesis
    using s unfolding halted_ok_def
    by (intro exI [of _ s] exI [of _ "parked n ?t ?m"]) (simp add: console_text_def)
qed

text \<open>A board on which everything works, for the examples.\<close>

definition zybo_boot :: "((bool \<times> (u32 \<Rightarrow> u32)), consumer_msg_t list) boot_env" where
  "zybo_boot = \<lparr>m_io = slcr_bank,
     m_gpio = \<lparr>XGpioPs_LookupConfig_ok = True, XGpioPs_CfgInitialize_ok = True, init_pins = (\<lambda>_. 0)\<rparr>,
     m_bits = demo_bits,
     m_uart = \<lparr>XUartPs_LookupConfig = Some 0xE0001000, sr_answers = [0x0, 0x8], XUartPs_CfgInitialize_ok = True,
       XUartPs_SetDataFormat_ok = True, isr_answer = 0\<rparr>,
     m_timer_counts = 333, m_date = ''Jan  1 2026'', m_time = ''12:00:00'', m_xadc_flags = (\<lambda>_. 0),
     m_xadc = \<lparr>XAdcPs_LookupConfig_ok = True, XAdcPs_CfgInitialize_ok = True, XAdcPs_SelfTest_ok = True,
       XAdcPs_SetSeqAvgEnables_ok = True, XAdcPs_SetSeqChEnables_ok = True\<rparr>,
     m_log_storage = 0x00130DB0, m_log_mutex = True,
     m_wdt = \<lparr>XWdtPs_LookupConfig_ok = True, XWdtPs_CfgInitialize_ok = True, wdt_clock_hz = 111111115\<rparr>,
     m_queue = Some [], m_watchdog_task = True, m_consumer_task = True, m_ui_task = True, m_producer_task = True,
     m_scheduler_returns = False\<rparr>"

lemma zybo_boot_fields [simp]:
  "XGpioPs_LookupConfig_ok (m_gpio zybo_boot)" "XGpioPs_CfgInitialize_ok (m_gpio zybo_boot)"
  "uart_drains (m_bits zybo_boot) (m_uart zybo_boot)"
  by (simp_all add: zybo_boot_def uart_drains_def demo_bits_def)

lemma zybo_wdt_status: "fst (wdt_drv_init (m_wdt zybo_boot) APP_WDT_TIMEOUT_MS wdt_reset) = WDT_DRV_OK"
  by (subst wdt_init_search) (simp_all add: zybo_boot_def APP_WDT_TIMEOUT_MS_def s_prescalers_def)

lemma zybo_checks:
  "find (\<lambda>(ok, _). \<not> ok) (boot_checks zybo_boot) = None"
  "find (\<lambda>(ok, _). \<not> ok) (boot_checks (zybo_boot\<lparr>m_log_mutex := False\<rparr>)) = Some (False, ''sensor log init'', 3)"
proof -
  have uart: "uart_failure (m_uart zybo_boot) = UART_DRV_OK" by (simp add: zybo_boot_def uart_failure_def)
  have xadc: "fst (xadc_drv_init (m_xadc_flags zybo_boot) (m_xadc zybo_boot) x) = XADC_DRV_OK" for x
    by (simp add: zybo_boot_def xadc_drv_init_def)
  have log: "sensor_log_init (m_log_storage zybo_boot) (m_log_mutex zybo_boot) log_bss = (SENSOR_LOG_OK, log_ready)"
    using log_ready_init by (simp add: zybo_boot_def)
  have log': "fst (sensor_log_init (m_log_storage zybo_boot) False log_bss) = SENSOR_LOG_ERR_NO_MUTEX"
    using log by (auto simp: sensor_log_init_def zybo_boot_def Let_def split: if_splits prod.splits option.splits bool.splits)
  have fields: "m_timer_counts zybo_boot \<noteq> 0" "m_queue zybo_boot = Some []" "m_watchdog_task zybo_boot"
    "m_consumer_task zybo_boot" "m_ui_task zybo_boot" "m_producer_task zybo_boot"
    by (simp_all add: zybo_boot_def)
  show "find (\<lambda>(ok, _). \<not> ok) (boot_checks zybo_boot) = None"
    unfolding boot_checks_def module_checks_def task_checks_def Let_def using uart xadc log fields zybo_wdt_status
    by simp
  show "find (\<lambda>(ok, _). \<not> ok) (boot_checks (zybo_boot\<lparr>m_log_mutex := False\<rparr>)) = Some (False, ''sensor log init'', 3)"
    unfolding boot_checks_def module_checks_def task_checks_def Let_def using uart xadc log' fields
    by simp
qed

lemma demo_fault_drains: "tx_drains demo_fault_env u"
  by (simp add: demo_fault_env_def tx_drains_def uart_drv_wait_tx_idle_def demo_bits_def)

lemma boot_failure_halts_witness:
  "\<exists>s m. main_start (zybo_boot\<lparr>m_log_mutex := False\<rparr>) (power_up (True, \<lambda>_. 0)) = Some (Faults ''sensor log init'' 3 s) \<and>
     main (zybo_boot\<lparr>m_log_mutex := False\<rparr>) demo_fault_env 4 (power_up (True, \<lambda>_. 0)) = Some (Halted m) \<and>
     irq_masked m \<and>
     sent (b_uart (m_board m)) = sent (b_uart (bt_board s)) @
       crlf (''\<newline>\<newline>FATAL: '' @ ''sensor log init'' @ '' failed, code '' @ code_text 3 @ ''\<newline>system halted\<newline>'')"
proof -
  let ?env = "zybo_boot\<lparr>m_log_mutex := False\<rparr>"
  have pre: "XGpioPs_LookupConfig_ok (m_gpio ?env)" "XGpioPs_CfgInitialize_ok (m_gpio ?env)"
    "uart_drains (m_bits ?env) (m_uart ?env)" "\<forall>i<4. wait_ends demo_fault_env i"
    by simp_all
  have up: "uart_failure (m_uart ?env) = UART_DRV_OK" by (simp add: zybo_boot_def uart_failure_def)
  show ?thesis
    using boot_failure_halts [OF pre(1-3) zybo_checks(2) demo_fault_drains pre(4), of "(True, \<lambda>_. 0)"]
    unfolding if_P [OF up] by (elim exE conjE) (intro exI conjI, assumption+)
qed

text \<open>
  C9: If every step succeeds, the watchdog is running when the scheduler starts, and once the producer
  has set up its timer and the consumer has said hello, the tasks find what the analysis of the running
  system starts from: an empty log, a queue, all counters zero. If the scheduler comes back, \<open>main\<close>
  halts, and then the message announces the watchdog reset that ends it.
\<close>

theorem boot_launches:
  assumes "XGpioPs_LookupConfig_ok (m_gpio env)" "XGpioPs_CfgInitialize_ok (m_gpio env)"
    and "uart_drains (m_bits env) (m_uart env)"
    and "find (\<lambda>(ok, _). \<not> ok) (boot_checks env) = None"
    and "\<And>u. tx_drains fenv u" "\<forall>i<n. wait_ends fenv i"
  shows "\<exists>s m. main_start env (power_up h) = Some (Schedules s) \<and> wdt_drv_is_running (b_wdt (bt_board s)) \<and>
    main env fenv n (power_up h) = Some (if m_scheduler_returns env then Halted m else Running s) \<and>
    irq_masked m \<and> sent (b_uart (m_board m)) = sent (b_uart (bt_board s)) @
      crlf ''\<newline>\<newline>FATAL: scheduler start failed, code 0\<newline>waiting for the watchdog to reset the board\<newline>'' \<and>
    (\<forall>p t' c b. producer_begin tenv cb t (bt_prod s) = Some (Inr (p, t')) \<longrightarrow>
       consumer_begin (p_stats p) tick (bt_cons s, bt_board s) = Some (c, b) \<longrightarrow> sys_start (tasks_begun p c b s))"
proof -
  obtain s where s: "main_start env (power_up h) = Some (Schedules s)" "launched_ok env s"
    using start_ends [OF assms(1-3), of h] assms(4) by (auto simp: ends_as_def)
  let ?m = "\<lparr>irq_masked = False, m_board = bt_board s\<rparr>"
  let ?t = "''\<newline>\<newline>FATAL: '' @ ''scheduler start'' @ '' failed, code '' @ code_text 0"
  have up: "s_uart_ready (b_uart (bt_board s))" and start: "sys_start (boot_sys s)"
    and wdt: "wdt_drv_is_running (b_wdt (bt_board s))"
    using s(2) by (simp_all add: launched_ok_def sys_start_def sys_ok_def board_ok_def boot_sys_def)
  have nul: "NUL \<notin> set ''scheduler start''" by (simp add: NUL_def)
  have zero: "char_of (48 :: nat) = CHR ''0''" by code_simp
  have "fault_halt fenv n (lit ''scheduler start'') 0 ?m = Some (parked n ?t ?m)"
    unfolding lit_def using fault_halt_eq [where rest = "[]" and env = fenv and n = n and m = ?m and code = 0, OF _ _ nul]
      assms(5,6) by simp
  then have "main env fenv n (power_up h) =
      Some (if m_scheduler_returns env then Halted (parked n ?t ?m) else Running s)"
    by (simp add: main_def s(1) main_fault_def)
  moreover have "code_text 0 = ''0''" by (simp add: code_text_def dec_str.simps digit_char_def zero)
  ultimately show ?thesis
    using s(1) wdt up tasks_begun_start [OF start]
    by (intro exI [of _ s] exI [of _ "parked n ?t ?m"])
      (auto simp: sent_console_text park_text_def wdt_drv_is_running_def)
qed

lemma boot_launches_witness:
  "\<exists>s p t' c b. main zybo_boot demo_fault_env 1 (power_up (True, \<lambda>_. 0)) = Some (Running s) \<and>
     wdt_drv_is_running (b_wdt (bt_board s)) \<and>
     producer_begin zybo_timer_env (Some 7) timer_unused (bt_prod s) = Some (Inr (p, t')) \<and>
     consumer_begin (p_stats p) 0 (bt_cons s, bt_board s) = Some (c, b) \<and> sys_start (tasks_begun p c b s)"
proof -
  have waits: "\<forall>i<1. wait_ends demo_fault_env i" by simp
  have "\<not> m_scheduler_returns zybo_boot" by (simp add: zybo_boot_def)
  then obtain s where s: "main zybo_boot demo_fault_env 1 (power_up (True, \<lambda>_. 0)) = Some (Running s)"
      "wdt_drv_is_running (b_wdt (bt_board s))"
      "\<And>p t' c b. producer_begin zybo_timer_env (Some 7) timer_unused (bt_prod s) = Some (Inr (p, t')) \<Longrightarrow>
         consumer_begin (p_stats p) 0 (bt_cons s, bt_board s) = Some (c, b) \<Longrightarrow> sys_start (tasks_begun p c b s)"
    using boot_launches [OF zybo_boot_fields zybo_checks(1) demo_fault_drains waits, of "(True, \<lambda>_. 0)" zybo_timer_env
        "Some 7" timer_unused 0]
    by auto
  obtain p t' where p: "producer_begin zybo_timer_env (Some 7) timer_unused (bt_prod s) = Some (Inr (p, t'))"
    by (auto simp: producer_begin_def zybo_timer_env_def timer_unused_def sample_timer_init_def APP_SAMPLE_RATE_HZ_def
        TTC_PRESCALER_INVALID_def ttc_call_def Let_def)
  obtain x where "consumer_begin (p_stats p) 0 (bt_cons s, bt_board s) =
      Some ((bt_cons s)\<lparr>last_progress_tick := 0\<rparr>, (bt_board s)\<lparr>b_uart := console_text x (b_uart (bt_board s))\<rparr>)"
    by (rule consumer_begin_state)
  with s p show ?thesis by blast
qed

text \<open>
  The checks at build time pass exactly if the kernel has more than five priorities and ticks at
  100 Hz at least (for tick rates up to 1 MHz, whose conversion from milliseconds does not overflow, and
  the idle task at priority 0); every other assertion holds for the settings as they are.
\<close>

theorem static_asserts_exact:
  assumes "unat tick_hz \<le> 10 ^ 6"
  shows "static_asserts max_priorities 0 (\<lambda>ms. (ms * tick_hz) div 1000) \<longleftrightarrow> 5 < max_priorities \<and> 100 \<le> tick_hz"
proof -
  have scan: "(10 * tick_hz) div 1000 > 0 \<longleftrightarrow> 100 \<le> tick_hz"
    using assms by (simp add: word_less_nat_alt word_le_nat_alt unat_div unat_word_ariths div_greater_zero_iff)
  have sample: "(300 * tick_hz) div 1000 > (100 * tick_hz) div 1000" if "100 \<le> tick_hz"
  proof -
    have "100 \<le> unat tick_hz" using that by (simp add: word_le_nat_alt)
    then have "100 * unat tick_hz div 1000 < 300 * unat tick_hz div 1000" by linarith
    then show ?thesis using assms by (simp add: word_less_nat_alt unat_div unat_word_ariths)
  qed
  show ?thesis
    using scan sample
    by (auto simp: static_asserts_def APP_PRIO_WATCHDOG_def APP_PRIO_PRODUCER_def APP_PRIO_UI_def APP_PRIO_CONSUMER_def
        APP_UI_SCAN_PERIOD_MS_def APP_SAMPLE_TIMEOUT_MS_def APP_SAMPLE_RATE_HZ_def APP_LOG_CAPACITY_def
        APP_LOG_READ_BATCH_def APP_LOG_WRITE_WAIT_MS_def APP_WDT_CHECK_PERIOD_MS_def APP_WDT_TIMEOUT_MS_def
        APP_WDT_LIMIT_PRODUCER_MS_def APP_WDT_LIMIT_UI_MS_def APP_WDT_LIMIT_CONSUMER_MS_def APP_CONSUMER_POLL_MS_def)
qed

lemma static_asserts_exact_witness:
  "static_asserts 8 0 (\<lambda>ms. (ms * 1000) div 1000) \<and> \<not> static_asserts 8 0 (\<lambda>ms. (ms * 50) div 1000)"
  using static_asserts_exact [of 1000 8] static_asserts_exact [of 50 8] by simp

end
