(* ===== verification/Pass_Steps.thy ===== *)
theory Pass_Steps
  imports System
begin

text \<open>
  The steps of theory \<open>System\<close> are the code's: each pass of a task's loop, as the component theories
  define it, is a sequence of such steps when no other task comes in between.
\<close>

section \<open>Moving the consumer\<close>

definition moved ::
  "'q sys \<Rightarrow> consumer_state_t \<times> 'q board \<Rightarrow> consumer_pc \<Rightarrow> sensor_record_t list \<Rightarrow> 'q sys" where
  "moved s sb pc rs = s\<lparr>sys_cons := fst sb, sys_board := snd sb, sys_pc := pc, sys_received := rs\<rparr>"

lemma moved_simps [simp]:
  "sys_cons (moved s sb pc rs) = fst sb" "sys_board (moved s sb pc rs) = snd sb" "sys_pc (moved s sb pc rs) = pc"
  "sys_received (moved s sb pc rs) = rs" "sys_prod (moved s sb pc rs) = sys_prod s"
  "sys_ui_dropped (moved s sb pc rs) = sys_ui_dropped s"
  by (simp_all add: moved_def)

lemma moved_updates [simp]:
  "(moved s sb pc rs)\<lparr>sys_pc := pc'\<rparr> = moved s sb pc' rs"
  "(moved s sb pc rs)\<lparr>sys_cons := c, sys_board := b, sys_pc := pc'\<rparr> = moved s (c, b) pc' rs"
  "(moved s sb pc rs)\<lparr>sys_board := b, sys_pc := pc'\<rparr> = moved s (fst sb, b) pc' rs"
  "(moved s sb pc rs)\<lparr>sys_received := rs'\<rparr> = moved s sb pc rs'"
  by (cases s; simp add: moved_def)+

lemma moved_here: "moved s (sys_cons s, sys_board s) (sys_pc s) (sys_received s) = s"
  by (simp add: moved_def)

text \<open>The rules of the relation, for a consumer that has moved.\<close>

lemma step_receives:
  "consumer_receive ops (if backlog then 0 else f APP_CONSUMER_POLL_MS) (c, b) = Some (msg, c', b') \<Longrightarrow>
     sys_step ops f hz (moved s (c, b) (Waiting backlog) rs) (moved s (c', b') (Handling msg) rs)"
  using consumer_receives [where ops = ops and f = f and s = "moved s (c, b) (Waiting backlog) rs"]
  by simp

lemma step_no_message:
  "sys_step ops f hz (moved s sb (Handling None) rs) (moved s sb (Draining 0) rs)"
  using consumer_has_no_message [where ops = ops and f = f and s = "moved s sb (Handling None) rs"]
  by simp

lemma step_handles:
  "v_prod_stats v = p_stats (sys_prod s) \<Longrightarrow> v_ui_dropped v = sys_ui_dropped s \<Longrightarrow>
   consumer_handle_msg f v m (c, b) = Some (c', b') \<Longrightarrow>
     sys_step ops f hz (moved s (c, b) (Handling (Some m)) rs) (moved s (c', b') (Draining 0) rs)"
  using consumer_handles [where ops = ops and f = f and s = "moved s (c, b) (Handling (Some m)) rs"]
  by simp

lemma step_paused:
  "drain_paused c \<Longrightarrow> sys_step ops f hz (moved s (c, b) (Draining 0) rs) (moved s (c, b) (Finishing False) rs)"
  using consumer_paused [where ops = ops and f = f and s = "moved s (c, b) (Draining 0) rs"]
  by simp

lemma step_reads:
  "n = 0 \<longrightarrow> \<not> drain_paused c \<Longrightarrow> n < 4 \<Longrightarrow> length batch = 16 \<Longrightarrow>
   sensor_log_read env (Some batch) APP_LOG_READ_BATCH (f APP_LOG_READ_WAIT_MS) (Some 0) (b_log b) =
     Some (True, Some out, Some count, l) \<Longrightarrow>
     sys_step ops f hz (moved s (c, b) (Draining n) rs)
       (moved s (c, b\<lparr>b_log := l\<rparr>) (Processing n (count < APP_LOG_READ_BATCH) (take (unat count) out)) rs)"
  using consumer_reads [where ops = ops and f = f and s = "moved s (c, b) (Draining n) rs"]
  by simp

lemma step_times_out:
  "n = 0 \<longrightarrow> \<not> drain_paused c \<Longrightarrow> n < 4 \<Longrightarrow> length batch = 16 \<Longrightarrow>
   sensor_log_read env (Some batch) APP_LOG_READ_BATCH (f APP_LOG_READ_WAIT_MS) (Some 0) (b_log b) =
     Some (False, out, count, l) \<Longrightarrow>
     sys_step ops f hz (moved s (c, b) (Draining n) rs)
       (moved s (c\<lparr>log_lock_timeouts := log_lock_timeouts c + 1\<rparr>, b\<lparr>b_log := l\<rparr>) (Finishing True) rs)"
  using consumer_read_times_out [where ops = ops and f = f and s = "moved s (c, b) (Draining n) rs"]
  by simp

lemma step_processes:
  "consumer_process_record r (c, b) = Some sb \<Longrightarrow>
     sys_step ops f hz (moved s (c, b) (Processing n short (r # todo)) rs) (moved s sb (Processing n short todo) (rs @ [r]))"
  using consumer_processes [where ops = ops and f = f and s = "moved s (c, b) (Processing n short (r # todo)) rs"]
  by (cases sb) simp

lemma step_batch_ends:
  "sys_step ops f hz (moved s sb (Processing n short []) rs)
     (moved s sb (if short then Finishing False else if Suc n < 4 then Draining (Suc n) else Finishing True) rs)"
  using consumer_batch_ends [where ops = ops and f = f and s = "moved s sb (Processing n short []) rs"]
  by simp

lemma step_ends_pass:
  "consumer_check_stall f now (task_producer_sample_count (sys_prod s)) us (c, b) = Some (c', b') \<Longrightarrow>
   task_watchdog_checkin tick WDOG_CLIENT_CONSUMER (b_wdog b') = Some w \<Longrightarrow>
     sys_step ops f hz (moved s (c, b) (Finishing again) rs) (moved s (c', b'\<lparr>b_wdog := w\<rparr>) (Waiting again) rs)"
  using consumer_ends_pass [where ops = ops and f = f and s = "moved s (c, b) (Finishing again) rs"]
  by simp

section \<open>One pass of the consumer\<close>

lemma batch_steps:
  assumes "list_all rec_ok todo"
  shows "(sys_step ops f hz)\<^sup>*\<^sup>* (moved s sb (Processing n short todo) rs)
    (moved s (processed todo sb) (Processing n short []) (rs @ todo))"
  using assms
proof (induction todo arbitrary: sb rs)
  case Nil
  then show ?case by simp
next
  case (Cons r todo)
  obtain c b where sb: "sb = (c, b)" by (cases sb)
  have "consumer_process_record r (c, b) = Some (processed [r] sb)"
    using Cons.prems by (simp add: process_record_eq processed_def sb)
  then have "sys_step ops f hz (moved s sb (Processing n short (r # todo)) rs)
      (moved s (processed [r] sb) (Processing n short todo) (rs @ [r]))"
    unfolding sb by (rule step_processes)
  moreover have "(sys_step ops f hz)\<^sup>*\<^sup>* (moved s (processed [r] sb) (Processing n short todo) (rs @ [r]))
      (moved s (processed todo (processed [r] sb)) (Processing n short []) ((rs @ [r]) @ todo))"
    using Cons.prems by (intro Cons.IH) simp
  ultimately show ?case
    by (simp add: processed_append [of "[r]" todo, simplified] converse_rtranclp_into_rtranclp)
qed

lemma drain_steps:
  assumes "log_ok (b_log b)" "length batch = 16" "n + length envs = 4" "envs \<noteq> []" "n = 0 \<longrightarrow> \<not> drain_paused c"
    and "consumer_drain_from (f APP_LOG_READ_WAIT_MS) envs batch (c, b) = Some (again, sb')"
  shows "\<exists>new. (sys_step ops f hz)\<^sup>*\<^sup>* (moved s (c, b) (Draining n) rs) (moved s sb' (Finishing again) (rs @ new))"
  using assms
proof (induction envs arbitrary: c b batch n rs)
  case Nil
  then show ?case by simp
next
  case (Cons env envs)
  let ?w = "f APP_LOG_READ_WAIT_MS" and ?xs = "log_contents (b_log b)"
  note ok = Cons.prems(1) and len = Cons.prems(2) and paused = Cons.prems(5) and run = Cons.prems(6)
  note read = read_batch_eq(1) [OF ok len, of env ?w]
  have n: "n < 4" using Cons.prems(3) by simp
  show ?case
  proof (cases "xSemaphoreTake env ?w")
    case False
    then have r: "sensor_log_read env (Some batch) APP_LOG_READ_BATCH ?w (Some 0) (b_log b) =
        Some (False, Some batch, Some 0, log_timeout ?w (b_log b))" using read by simp
    then have "again" "sb' = (c\<lparr>log_lock_timeouts := log_lock_timeouts c + 1\<rparr>, b\<lparr>b_log := log_timeout ?w (b_log b)\<rparr>)"
      using run by auto
    then show ?thesis
      using step_times_out [where f = f and s = s and rs = rs and ops = ops and hz = hz, OF paused n len r]
      by (intro exI [of _ "[]"]) auto
  next
    case True
    obtain l out where l: "popped_to 16 (b_log b) l" and out: "length out = 16" "take (min 16 (length ?xs)) out = take 16 ?xs"
      and r: "sensor_log_read env (Some batch) APP_LOG_READ_BATCH ?w (Some 0) (b_log b) =
        Some (True, Some out, Some (of_nat (min 16 (length ?xs))), l)"
      and rest: "consumer_drain_from ?w (env # envs) batch (c, b) =
        (if length ?xs < 16 then Some (False, processed (take 16 ?xs) (c, b\<lparr>b_log := l\<rparr>))
         else consumer_drain_from ?w envs out (processed (take 16 ?xs) (c, b\<lparr>b_log := l\<rparr>)))"
      using ok len True refl by (rule drain_batch)
    define sb where "sb = processed (take 16 ?xs) (c, b\<lparr>b_log := l\<rparr>)"
    have recs: "list_all rec_ok (take 16 ?xs)"
      using log_ok_contents [OF ok] by (auto simp: list_all_iff dest: in_set_takeD)
    have "sys_step ops f hz (moved s (c, b) (Draining n) rs)
        (moved s (c, b\<lparr>b_log := l\<rparr>) (Processing n (length ?xs < 16) (take 16 ?xs)) rs)"
      using step_reads [where f = f, OF paused n len r] by (simp only: batch_short batch_count out(2))
    moreover have "(sys_step ops f hz)\<^sup>*\<^sup>* (moved s (c, b\<lparr>b_log := l\<rparr>) (Processing n (length ?xs < 16) (take 16 ?xs)) rs)
        (moved s sb (Processing n (length ?xs < 16) []) (rs @ take 16 ?xs))"
      unfolding sb_def by (rule batch_steps [OF recs])
    ultimately have upto: "(sys_step ops f hz)\<^sup>*\<^sup>* (moved s (c, b) (Draining n) rs)
        (moved s sb (if length ?xs < 16 then Finishing False else if Suc n < 4 then Draining (Suc n) else Finishing True)
          (rs @ take 16 ?xs))"
      by (meson converse_rtranclp_into_rtranclp rtranclp.rtrancl_into_rtrancl step_batch_ends)
    show ?thesis
    proof (cases "length ?xs < 16 \<or> envs = []")
      case True
      then have "sb' = sb" "again \<longleftrightarrow> \<not> length ?xs < 16" "length ?xs < 16 \<or> \<not> Suc n < 4"
        using run Cons.prems(3) unfolding rest sb_def by (auto split: if_splits)
      then show ?thesis using upto by (intro exI [of _ "take 16 ?xs"]) (auto split: if_splits)
    next
      case False
      obtain c1 b1 where sb1: "sb = (c1, b1)" by (cases sb)
      have "b_log b1 = l" "drain_paused c1 = drain_paused c" using sb1 by (auto simp: sb_def processed_def)
      moreover have "consumer_drain_from ?w envs out (c1, b1) = Some (again, sb')"
        using run False unfolding rest sb_def [symmetric] sb1 by simp
      ultimately obtain new where "(sys_step ops f hz)\<^sup>*\<^sup>* (moved s (c1, b1) (Draining (Suc n)) (rs @ take 16 ?xs))
          (moved s sb' (Finishing again) ((rs @ take 16 ?xs) @ new))"
        using Cons.IH [of b1 out "Suc n" c1 "rs @ take 16 ?xs"] l out(1) Cons.prems(3) False
        by (auto simp: popped_to_def)
      then show ?thesis
        using upto False Cons.prems(3) sb1
        by (intro exI [of _ "take 16 ?xs @ new"]) (cases envs; simp)
    qed
  qed
qed

lemma drain_log_steps:
  assumes "log_ok (b_log b)" "consumer_drain_log f envs (c, b) = Some (again, sb')"
  shows "\<exists>new. (sys_step ops f hz)\<^sup>*\<^sup>* (moved s (c, b) (Draining 0) rs) (moved s sb' (Finishing again) (rs @ new))"
proof (cases "drain_paused c")
  case True
  then have "sb' = (c, b)" "\<not> again" using assms(2) by (simp_all add: consumer_drain_log_def)
  with step_paused [OF True, of ops f hz s b rs] show ?thesis by (intro exI [of _ "[]"]) auto
next
  case False
  have "consumer_drain_from (f APP_LOG_READ_WAIT_MS) (map envs [0..<4]) (replicate 16 zero_record) (c, b) = Some (again, sb')"
    using assms(2) False by (simp add: consumer_drain_log_def drain_batches APP_LOG_READ_BATCH_def del: upt_rec_numeral)
  from drain_steps [where f = f and n = 0, OF assms(1) _ _ _ _ this] False show ?thesis by simp
qed

text \<open>The message, if any, keeps what the drain relies on.\<close>

lemma handle_steps:
  assumes "board_ok b" "view_ok v" "v_prod_stats v = p_stats (sys_prod s)" "v_ui_dropped v = sys_ui_dropped s"
    and "(case msg of None \<Rightarrow> Some (c, b) | Some m \<Rightarrow> consumer_handle_msg f v m (c, b)) = Some (c', b')"
  shows "sys_step ops f hz (moved s (c, b) (Handling msg) rs) (moved s (c', b') (Draining 0) rs) \<and> log_ok (b_log b')"
proof (cases msg)
  case None
  then show ?thesis using assms(1,5) step_no_message [of ops f hz s "(c, b)" rs] by (simp add: board_ok_def)
next
  case (Some m)
  have ok: "log_ok (b_log b)" "wdog_wf (b_wdog b)" using assms(1) by (simp_all add: board_ok_def)
  have "told b (msg_wdog m (b_wdog b)) b'"
    using handle_msg_eq [OF ok assms(2), of m f c] assms(5) Some by (auto split: if_splits)
  then have "log_ok (b_log b')" by (rule told_simps)
  then show ?thesis using step_handles [OF assms(3,4)] assms(5) Some by simp
qed

section \<open>One pass of the producer, of the UI task and of the supervisor\<close>

lemma producer_pass_steps:
  assumes "\<not> sys_checkin_due s"
    and "producer_pass ops (f APP_LOG_WRITE_WAIT_MS) env (sys_prod s, sys_board s) = Some (p, b)"
  shows "\<exists>st un. (sys_step ops f hz)\<^sup>*\<^sup>* s (s\<lparr>sys_prod := p, sys_board := b, sys_stored := st, sys_unstored := un\<rparr>)"
proof -
  obtain due b1 where 1: "producer_sample ops (f APP_LOG_WRITE_WAIT_MS) env (sys_prod s, sys_board s) = Some (due, p, b1)"
    using assms(2) by (auto simp: producer_pass_def split: bind_splits if_splits)
  have due: "due \<longleftrightarrow> ulTaskNotifyTake env \<noteq> 0"
    using 1 by (auto simp: producer_sample_def Let_def split: bind_splits if_splits prod.splits option.splits)
  show ?thesis
  proof (cases due)
    case False
    then have "b = b1" using assms(2) 1 by (simp add: producer_pass_def)
    then have "sys_step ops f hz s (s\<lparr>sys_prod := p, sys_board := b, sys_checkin_due := False\<rparr>)"
      using producer_timeout [where f = f, OF assms(1) _ 1, of hz] due False by simp
    then show ?thesis
      using assms(1) by (intro exI [of _ "sys_stored s"] exI [of _ "sys_unstored s"]) (cases s; auto)
  next
    case True
    then obtain w where w: "task_watchdog_checkin (checkin_tick env) WDOG_CLIENT_PRODUCER (b_wdog b1) = Some w"
        "b = b1\<lparr>b_wdog := w\<rparr>"
      using assms(2) 1 by (auto simp: producer_pass_def split: bind_splits)
    define t where "t = s\<lparr>sys_prod := p, sys_board := b1, sys_checkin_due := due,
        sys_stored := (if stored env (f APP_LOG_WRITE_WAIT_MS) then sys_stored s @ [p_record p] else sys_stored s),
        sys_unstored := (if stored env (f APP_LOG_WRITE_WAIT_MS) then 0 else Suc (sys_unstored s))\<rparr>"
    have "sys_step ops f hz s t"
      unfolding t_def by (rule producer_takes_sample [where f = f, OF assms(1) _ refl 1]) (use True due in simp)
    moreover have "sys_step ops f hz t (t\<lparr>sys_board := (sys_board t)\<lparr>b_wdog := w\<rparr>, sys_checkin_due := False\<rparr>)"
      by (rule producer_checks_in [where now = "checkin_tick env"]) (simp_all add: t_def True w(1))
    ultimately have "(sys_step ops f hz)\<^sup>*\<^sup>* s (t\<lparr>sys_board := (sys_board t)\<lparr>b_wdog := w\<rparr>, sys_checkin_due := False\<rparr>)"
      by (meson r_into_rtranclp rtranclp.rtrancl_into_rtrancl)
    moreover have "t\<lparr>sys_board := (sys_board t)\<lparr>b_wdog := w\<rparr>, sys_checkin_due := False\<rparr> =
        s\<lparr>sys_prod := p, sys_board := b, sys_stored := sys_stored t, sys_unstored := sys_unstored t\<rparr>"
      using assms(1) by (cases s) (simp add: t_def w(2))
    ultimately show ?thesis by metis
  qed
qed

lemma ui_pass_steps:
  assumes "\<not> sys_ui_due s"
    and "ui_pass ops bits pins polls ch now (sys_ui_dropped s, sys_board s) = Some (d, b)"
    and "\<exists>x\<in>set polls. \<not> rx_has_data x"
  shows "(sys_step ops f hz)\<^sup>*\<^sup>* s (s\<lparr>sys_ui_dropped := d, sys_board := b\<rparr>)"
proof -
  obtain b1 w where 1: "ui_poll ops bits pins polls ch (sys_ui_dropped s, sys_board s) = Some (d, b1)"
      "task_watchdog_checkin now WDOG_CLIENT_UI (b_wdog b1) = Some w" "b = b1\<lparr>b_wdog := w\<rparr>"
    using assms(2) by (auto simp: ui_pass_def split: bind_splits)
  let ?t = "s\<lparr>sys_ui_dropped := d, sys_board := b1, sys_ui_due := True\<rparr>"
  have "sys_step ops f hz s ?t" by (rule ui_polls [OF assms(1,3) 1(1)])
  moreover have "sys_step ops f hz ?t (?t\<lparr>sys_board := (sys_board ?t)\<lparr>b_wdog := w\<rparr>, sys_ui_due := False\<rparr>)"
    by (rule ui_checks_in [where now = now]) (simp_all add: 1(2))
  moreover have "?t\<lparr>sys_board := (sys_board ?t)\<lparr>b_wdog := w\<rparr>, sys_ui_due := False\<rparr> = s\<lparr>sys_ui_dropped := d, sys_board := b\<rparr>"
    using assms(1) by (cases s) (simp add: 1(3))
  ultimately show ?thesis by (metis r_into_rtranclp rtranclp.rtrancl_into_rtrancl)
qed

section \<open>Properties\<close>

text \<open>
  C12: One pass of the consumer's loop, as \<open>consumer_pass\<close> models the code, is a sequence of steps of the
  system: whenever the pass returns, from a state of the system where the consumer waits, the relation
  leads to the state it returns, with the consumer waiting again and the records it processed appended
  to those received. What the analysis of all interleavings proves thus holds for the code's passes.
\<close>

theorem consumer_pass_is_steps:
  assumes "queue_laws len contents ops" "sys_ok s" "sys_pc s = Waiting backlog"
    and "v_prod_stats (c_view env) = p_stats (sys_prod s)" "v_ui_dropped (c_view env) = sys_ui_dropped s"
    and "c_samples env = task_producer_sample_count (sys_prod s)"
    and "consumer_pass ops f env (backlog, sys_cons s, sys_board s) = Some (again, c, b)"
  shows "\<exists>new. (sys_step ops f hz)\<^sup>*\<^sup>* s
    (s\<lparr>sys_cons := c, sys_board := b, sys_pc := Waiting again, sys_received := sys_received s @ new\<rparr>)"
proof -
  let ?rs = "sys_received s"
  obtain q where q: "b_queue (sys_board s) = Some q" using sys_okD(8) [OF assms(2)] by blast
  obtain msg c1 b1 where 1: "consumer_receive ops (if backlog then 0 else f APP_CONSUMER_POLL_MS) (sys_cons s, sys_board s) =
      Some (msg, c1, b1)"
    using assms(7) by (auto simp: consumer_pass_def split: bind_splits)
  obtain c2 b2 where 2: "(case msg of None \<Rightarrow> Some (c1, b1) | Some m \<Rightarrow> consumer_handle_msg f (c_view env) m (c1, b1)) = Some (c2, b2)"
    using assms(7) unfolding consumer_pass_def by (auto simp: 1 split: bind_splits)
  obtain again' c3 b3 where 3: "consumer_drain_log f (c_drain env) (c2, b2) = Some (again', c3, b3)"
    using assms(7) unfolding consumer_pass_def by (auto simp: 1 2 split: bind_splits)
  obtain c4 b4 where 4: "consumer_check_stall f (c_now_tick env) (c_samples env) (c_now_us env) (c3, b3) = Some (c4, b4)"
    using assms(7) unfolding consumer_pass_def by (auto simp: 1 2 3 split: bind_splits)
  obtain w where 5: "task_watchdog_checkin (c_checkin_tick env) WDOG_CLIENT_CONSUMER (b_wdog b4) = Some w"
      and res: "again = again'" "c = c4" "b = b4\<lparr>b_wdog := w\<rparr>"
    using assms(7) unfolding consumer_pass_def by (auto simp: 1 2 3 4 split: bind_splits)
  have s: "moved s (sys_cons s, sys_board s) (Waiting backlog) ?rs = s" using moved_here [of s] by (simp add: assms(3))
  have "board_ok b1"
    using consumer_receive_eq [OF assms(1) q, of "if backlog then 0 else f APP_CONSUMER_POLL_MS" "sys_cons s"] 1
      sys_okD(9) [OF assms(2)] by (auto simp: board_ok_def split: if_splits)
  moreover have "view_ok (c_view env)" using sys_okD(6) [OF assms(2)] by (simp add: view_ok_def assms(4) prod_wf_def)
  ultimately have handle: "sys_step ops f hz (moved s (c1, b1) (Handling msg) ?rs) (moved s (c2, b2) (Draining 0) ?rs)"
    "log_ok (b_log b2)" using handle_steps [OF _ _ assms(4,5) 2] by blast+
  obtain new where drain: "(sys_step ops f hz)\<^sup>*\<^sup>* (moved s (c2, b2) (Draining 0) ?rs)
      (moved s (c3, b3) (Finishing again) (?rs @ new))"
    using drain_log_steps [OF handle(2) 3] unfolding res(1) by blast
  have "(sys_step ops f hz)\<^sup>*\<^sup>* s (moved s (c3, b3) (Finishing again) (?rs @ new))"
    using step_receives [where f = f and backlog = backlog, OF 1, of hz s ?rs] handle(1) drain unfolding s
    by (meson converse_rtranclp_into_rtranclp)
  moreover have "sys_step ops f hz (moved s (c3, b3) (Finishing again) (?rs @ new)) (moved s (c, b) (Waiting again) (?rs @ new))"
    unfolding res(2,3) by (rule step_ends_pass [where f = f, OF 4 [unfolded assms(6)] 5])
  ultimately have "(sys_step ops f hz)\<^sup>*\<^sup>* s (moved s (c, b) (Waiting again) (?rs @ new))" by simp
  then show ?thesis by (auto simp: moved_def)
qed

lemma consumer_pass_is_steps_witness:
  "\<exists>again c b new. consumer_pass (list_queue 16) (\<lambda>ms. ms) (demo_consumer_env\<lparr>c_samples := 0\<rparr>) (False, consumer_idle, one_waiting) =
       Some (again, c, b) \<and>
     (sys_step (list_queue 16) (\<lambda>ms. ms) 100)\<^sup>*\<^sup>* (demo_sys\<lparr>sys_board := one_waiting\<rparr>)
       (demo_sys\<lparr>sys_cons := c, sys_board := b, sys_pc := Waiting again, sys_received := new\<rparr>)"
proof -
  let ?s = "demo_sys\<lparr>sys_board := one_waiting\<rparr>" and ?env = "demo_consumer_env\<lparr>c_samples := 0\<rparr>"
  have fields: "b_queue one_waiting = Some []" "b_wdog one_waiting = wdog_boot" "log_ok (b_log one_waiting)"
    "b_gpio one_waiting = gpio_idle" "b_uart one_waiting = uart_up"
    using one_waiting_log(1) by (simp_all add: one_waiting_def)
  have ok: "sys_ok ?s"
    using fields demo_producer_wf by (simp add: sys_ok_def board_ok_def demo_sys_def)
  have pc: "sys_pc ?s = Waiting False" "v_prod_stats (c_view ?env) = p_stats (sys_prod ?s)"
    "v_ui_dropped (c_view ?env) = sys_ui_dropped ?s" "c_samples ?env = task_producer_sample_count (sys_prod ?s)"
    by (simp_all add: demo_sys_def demo_consumer_env_def demo_view_def demo_producer_def task_producer_sample_count_def
        producer_stats_start_def)
  have 1: "consumer_receive (list_queue 16) w (consumer_idle, one_waiting) = Some (None, consumer_idle, one_waiting)" for w
    using fields(1) by (cases one_waiting) (simp add: consumer_receive_def list_queue_def)
  obtain again c1 b1 where 2: "consumer_drain_log (\<lambda>ms. ms) (c_drain ?env) (consumer_idle, one_waiting) = Some (again, c1, b1)"
      "b_wdog b1 = wdog_boot"
    using drain_frame [OF fields(3), where f = "\<lambda>ms. ms" and envs = "c_drain ?env" and s = consumer_idle] fields(2) by metis
  obtain c2 b2 where 3: "consumer_check_stall (\<lambda>ms. ms) (c_now_tick ?env) (c_samples ?env) (c_now_us ?env) (c1, b1) = Some (c2, b2)"
      "b_wdog b2 = wdog_boot"
    using stall_frame [of "\<lambda>ms. ms" "c_now_tick ?env" "c_samples ?env" "c_now_us ?env" c1 b1] 2(2) by auto
  have "\<not> hangs WDOG_CLIENT_CONSUMER wdog_boot" by (simp add: wdog_boot_def)
  then obtain w where "task_watchdog_checkin (c_checkin_tick ?env) WDOG_CLIENT_CONSUMER (b_wdog b2) = Some w"
    using checkin_eq [OF wdog_boot_wf] 3(2) by auto
  then have run: "consumer_pass (list_queue 16) (\<lambda>ms. ms) ?env (False, consumer_idle, one_waiting) =
      Some (again, c2, b2\<lparr>b_wdog := w\<rparr>)"
    using 1 2 3 by (simp add: consumer_pass_def)
  have "sys_cons ?s = consumer_idle" "sys_board ?s = one_waiting" "sys_received ?s = []" by (simp_all add: demo_sys_def)
  then show ?thesis
    using consumer_pass_is_steps [where f = "\<lambda>ms. ms" and hz = 100 and again = again and c = c2 and
        b = "b2\<lparr>b_wdog := w\<rparr>", OF list_queue_laws ok pc] run
    by (auto simp: demo_sys_def)
qed

end
