(* ===== verification/Watchdog_Loop.thy ===== *)
theory Watchdog_Loop
  imports Watchdog_Task
begin

text \<open>
  \<open>tasks/task_watchdog.c\<close>, the task's endless loop in time. The kernel's tick count is 32 bits wide and
  wraps; \<open>clock\<close> is the number of ticks that really passed, and \<open>of_nat (clock s)\<close> what the code reads.
  \<open>due\<close> is the tick at which the delay of the loop ends: each turn moves it on by what the turn moved
  \<open>last_wake\<close>. \<open>checked\<close> holds the ticks at which the clients last checked in, \<open>restarted\<close> the time, in
  ticks, at which the system watchdog was last restarted: by the loop's last kick, and before the first
  one by \<open>wdt_drv_start\<close>, which \<open>main\<close> calls before the scheduler starts the tick count, so then \<open>restarted\<close>
  is not positive. These four only describe time; the code's own variables are \<open>last_wake\<close>
  and \<open>supervisor\<close>.

  What is relied on of the kernel: \<open>vTaskDelayUntil\<close> advances its argument by the period (\<open>delay_law\<close>)
  and returns no earlier than at that tick, at most \<open>late\<close> ticks after it. \<open>late\<close> is a parameter, what
  interrupts and critical sections can hold up the task with the highest priority.
\<close>

section \<open>The code\<close>

text \<open>What the task does before its loop, with the tick count it reads.\<close>

definition wdog_task_begin :: "u32 \<Rightarrow> wdog_task_state \<Rightarrow> u32 \<times> wdog_task_state" where
  "wdog_task_begin now_tick s = (now_tick, s\<lparr>kicking := True\<rparr>)"

text \<open>One turn of the loop: the delay, which leaves the wake time it waited for, and the pass.\<close>

definition wdog_task_turn ::
  "(u32 \<Rightarrow> u32 \<Rightarrow> u32) \<Rightarrow> (u32 \<Rightarrow> u32) \<Rightarrow> u32 \<Rightarrow> u32 \<Rightarrow> u32 \<times> wdog_task_state \<Rightarrow> (u32 \<times> wdog_task_state) option" where
  "wdog_task_turn vTaskDelayUntil pdMS_TO_TICKS tick_hz now_tick st = do {
     let check_period = pdMS_TO_TICKS APP_WDT_CHECK_PERIOD_MS;
     let (last_wake, s) = st;
     let last_wake = vTaskDelayUntil last_wake check_period;
     s \<leftarrow> wdog_pass tick_hz now_tick s;
     Some (last_wake, s)
   }"

section \<open>The loop in time\<close>

record watch =
  clock :: nat
  due :: nat
  checked :: "nat list"
  restarted :: int
  last_wake :: u32
  supervisor :: wdog_task_state

definition check_ticks :: "(u32 \<Rightarrow> u32) \<Rightarrow> nat" where
  "check_ticks f = unat (f APP_WDT_CHECK_PERIOD_MS)"

text \<open>
  A client's check-in is one read of the tick count and one write: the supervisor may come in between,
  so the tick \<open>t\<close> written can lie in the past, but not before the client's previous one.
\<close>

inductive watch_step ::
  "(u32 \<Rightarrow> u32 \<Rightarrow> u32) \<Rightarrow> (u32 \<Rightarrow> u32) \<Rightarrow> u32 \<Rightarrow> nat \<Rightarrow> watch \<Rightarrow> watch \<Rightarrow> bool"
  for delay :: "u32 \<Rightarrow> u32 \<Rightarrow> u32" and f :: "u32 \<Rightarrow> u32" and hz :: u32 and late :: nat where
  time_passes:
    "clock s < due s + late \<Longrightarrow> watch_step delay f hz late s (s\<lparr>clock := Suc (clock s)\<rparr>)"
| client_checks_in:
    "c \<noteq> WDOG_CLIENT_COUNT \<Longrightarrow> checked s ! wdog_client_index c \<le> t \<Longrightarrow> t \<le> clock s \<Longrightarrow>
     task_watchdog_checkin (of_nat t) c (wdog (supervisor s)) = Some w \<Longrightarrow>
     watch_step delay f hz late s
       (s\<lparr>checked := (checked s)[wdog_client_index c := t], supervisor := (supervisor s)\<lparr>wdog := w\<rparr>\<rparr>)"
| hang_injected:
    "task_watchdog_inject_hang c (wdog (supervisor s)) = Some w \<Longrightarrow>
     watch_step delay f hz late s (s\<lparr>supervisor := (supervisor s)\<lparr>wdog := w\<rparr>\<rparr>)"
| supervisor_turn:
    "due s \<le> clock s \<Longrightarrow> wdog_task_turn delay f hz (of_nat (clock s)) (last_wake s, supervisor s) = Some (lw, t) \<Longrightarrow>
     watch_step delay f hz late s
       (s\<lparr>due := due s + unat (lw - last_wake s),
          restarted := (if wdt_calls (wdog_wdt t) = wdt_calls (wdog_wdt (supervisor s)) then restarted s else int (clock s)),
          last_wake := lw, supervisor := t\<rparr>)"

inductive_cases watch_stepE: "watch_step delay f hz late s t"

text \<open>How long a client may stay silent, and how long it has been, in milliseconds.\<close>

definition client_limit :: "nat \<Rightarrow> nat" where
  "client_limit i = unat (limit_ms (s_clients wdog_boot ! i))"

definition silent_ms :: "u32 \<Rightarrow> nat \<Rightarrow> nat \<Rightarrow> nat" where
  "silent_ms hz since now = (now - since) * 1000 div unat hz"

text \<open>
  The task starts with the watchdog running, since \<open>gap\<close> ticks ago and not restarted after that, the
  table as it is built, and no client later than its limit already.
\<close>

definition watch_start :: "(u32 \<Rightarrow> u32) \<Rightarrow> u32 \<Rightarrow> nat \<Rightarrow> watch \<Rightarrow> bool" where
  "watch_start f hz gap s \<longleftrightarrow>
     (\<exists>t. (last_wake s, supervisor s) = wdog_task_begin (of_nat (clock s)) t \<and> wdog t = wdog_boot \<and> s_wdt_running (wdog_wdt t)) \<and>
     due s = clock s + check_ticks f \<and> checked s = [0, 0, 0] \<and> restarted s + int gap = int (clock s) \<and>
     list_all (\<lambda>i. silent_ms hz 0 (clock s) \<le> client_limit i) [0..<3]"

text \<open>No silence the loop has to tell apart exceeds the 32 bits it is computed in.\<close>

definition watch_fits :: "(u32 \<Rightarrow> u32) \<Rightarrow> u32 \<Rightarrow> nat \<Rightarrow> bool" where
  "watch_fits f hz late \<longleftrightarrow> 0 < hz \<and>
     list_all (\<lambda>i. (client_limit i + 1) * unat hz + 1000 * (check_ticks f + late) < 4294967296) [0..<3]"

text \<open>
  The system watchdog has run out: its timeout has passed since it was last restarted. The timeout is
  the one the driver reports, in whole milliseconds; the counter's own period is less than one more.
\<close>

definition swdt_expired :: "u32 \<Rightarrow> watch \<Rightarrow> bool" where
  "swdt_expired hz s \<longleftrightarrow>
     int (unat (s_timeout_ms (wdog_wdt (supervisor s))) * unat hz) \<le> (int (clock s) - restarted s) * 1000"

section \<open>The invariant\<close>

definition client_inv :: "(u32 \<Rightarrow> u32) \<Rightarrow> u32 \<Rightarrow> watch \<Rightarrow> nat \<Rightarrow> bool" where
  "client_inv f hz s i \<longleftrightarrow>
     last_checkin_tick (s_clients (wdog (supervisor s)) ! i) = of_nat (checked s ! i) \<and> checked s ! i \<le> clock s \<and>
     unat (limit_ms (s_clients (wdog (supervisor s)) ! i)) = client_limit i \<and>
     silent_ms hz (checked s ! i) (nat (restarted s)) \<le> client_limit i \<and>
     (kicking (supervisor s) \<longrightarrow> silent_ms hz (checked s ! i) (due s - check_ticks f) \<le> client_limit i)"

definition watch_inv :: "(u32 \<Rightarrow> u32) \<Rightarrow> u32 \<Rightarrow> nat \<Rightarrow> nat \<Rightarrow> watch \<Rightarrow> bool" where
  "watch_inv f hz late gap s \<longleftrightarrow>
     wdog_wf (wdog (supervisor s)) \<and> s_wdt_running (wdog_wdt (supervisor s)) \<and> length (checked s) = 3 \<and>
     of_nat (due s) = last_wake s + f APP_WDT_CHECK_PERIOD_MS \<and>
     check_ticks f \<le> due s \<and> due s \<le> clock s + check_ticks f \<and> clock s \<le> due s + late \<and> restarted s \<le> int (clock s) \<and>
     (kicking (supervisor s) \<longrightarrow> int (due s) \<le> restarted s + int (gap + check_ticks f)) \<and> (\<forall>i<3. client_inv f hz s i)"

lemma silent_ms_mono:
  "since \<le> since' \<Longrightarrow> now' \<le> now \<Longrightarrow> silent_ms hz since' now' \<le> silent_ms hz since now"
  by (simp add: silent_ms_def div_le_mono diff_le_mono diff_le_mono2 le_trans [OF diff_le_mono2])

lemma silent_ms_less:
  assumes "0 < hz" "silent_ms hz since now \<le> n"
  shows "(now - since) * 1000 < (n + 1) * unat hz"
proof -
  have "0 < unat hz" using assms(1) by (simp add: word_less_nat_alt)
  then show ?thesis
    using assms(2) unfolding silent_ms_def by (metis Suc_eq_plus1 div_less_iff_less_mult le_imp_less_Suc)
qed

text \<open>The code's silence is the true one, whatever the wraps of the tick count.\<close>

lemma silence_true:
  assumes "last_checkin_tick (s_clients w ! i) = of_nat since" "since \<le> now" "now - since < 4294967296"
  shows "silence hz (of_nat now) w i = silent_ms hz since now"
proof -
  have "(of_nat now :: u32) - of_nat since = of_nat (now - since)" using assms(2) by simp
  then show ?thesis using assms(1,3) by (simp add: silence_def silent_ms_def unat_of_nat_u32)
qed

lemma watch_start_inv:
  assumes "watch_start f hz gap s"
  shows "watch_inv f hz late gap s"
proof -
  obtain t where s: "last_wake s = of_nat (clock s)" "supervisor s = t\<lparr>kicking := True\<rparr>" "wdog t = wdog_boot"
      "s_wdt_running (wdog_wdt t)" "due s = clock s + check_ticks f" "checked s = [0, 0, 0]" "restarted s = int (clock s) - int gap"
      "\<forall>i<3. silent_ms hz 0 (clock s) \<le> client_limit i"
    using assms by (auto simp: watch_start_def wdog_task_begin_def list_all_iff)
  have "silent_ms hz 0 (nat (int (clock s) - int gap)) \<le> silent_ms hz 0 (clock s)"
    by (rule silent_ms_mono) simp_all
  then have early: "\<forall>i<3. silent_ms hz 0 (nat (int (clock s) - int gap)) \<le> client_limit i" using s(8) le_trans by blast
  have "last_checkin_tick (s_clients wdog_boot ! i) = 0" "[0, 0, 0 :: nat] ! i = 0" if "i < 3" for i
    using that by (auto simp: wdog_boot_def less_Suc_eq numeral_3_eq_3)
  then show ?thesis
    using s(8) early by (simp add: watch_inv_def client_inv_def s(1-7) client_limit_def) (simp add: check_ticks_def)
qed

lemma inv_time_passes:
  "watch_inv f hz late gap s \<Longrightarrow> clock s < due s + late \<Longrightarrow> watch_inv f hz late gap (s\<lparr>clock := Suc (clock s)\<rparr>)"
  by (auto simp: watch_inv_def client_inv_def)

lemma inject_some:
  assumes "wdog_wf w" "task_watchdog_inject_hang c w = Some w'"
  shows "wdog_wf w'" and "last_checkin_tick (s_clients w' ! i) = last_checkin_tick (s_clients w ! i)"
    and "limit_ms (s_clients w' ! i) = limit_ms (s_clients w ! i)"
    and "hang_requested (s_clients w ! i) \<Longrightarrow> hang_requested (s_clients w' ! i)"
proof -
  have w': "w' = w \<or> c \<noteq> WDOG_CLIENT_COUNT \<and> w' = client_update c (\<lambda>st. st\<lparr>hang_requested := True\<rparr>) w"
    using assms inject_eq [of w c] by (cases "c = WDOG_CLIENT_COUNT") (simp_all add: task_watchdog_inject_hang_def)
  then show "wdog_wf w'" using assms(1) by (auto intro: client_update_wf)
  show "last_checkin_tick (s_clients w' ! i) = last_checkin_tick (s_clients w ! i)"
    "limit_ms (s_clients w' ! i) = limit_ms (s_clients w ! i)"
    using w' by (auto simp: client_update_def Let_def update_keeps)
  have "length (s_clients w) = 3" using assms(1) by (simp add: wdog_wf_def)
  then show "hang_requested (s_clients w' ! i)" if "hang_requested (s_clients w ! i)"
    using w' that by (cases "i = wdog_client_index c") (auto simp: client_update_def Let_def client_index_less)
qed

lemma inv_checks_in:
  assumes "watch_inv f hz late gap s" "c \<noteq> WDOG_CLIENT_COUNT" "checked s ! wdog_client_index c \<le> t" "t \<le> clock s"
    and "task_watchdog_checkin (of_nat t) c (wdog (supervisor s)) = Some w"
  shows "watch_inv f hz late gap (s\<lparr>checked := (checked s)[wdog_client_index c := t], supervisor := (supervisor s)\<lparr>wdog := w\<rparr>\<rparr>)"
proof -
  let ?n = "wdog_client_index c"
  have wf: "wdog_wf (wdog (supervisor s))" "length (checked s) = 3" "\<forall>i<3. client_inv f hz s i"
    using assms(1) by (simp_all add: watch_inv_def)
  have w: "w = client_update c (\<lambda>st. st\<lparr>last_checkin_tick := of_nat t\<rparr>) (wdog (supervisor s))" "wdog_wf w"
    using assms(5) checkin_eq [OF wf(1) assms(2)] checkin_wf [OF wf(1) assms(2,5)] by (auto split: if_splits)
  have n: "?n < 3" "length (s_clients (wdog (supervisor s))) = 3"
    using assms(2) wf(1) by (simp_all add: client_index_less wdog_wf_def)
  have mono: "silent_ms hz t now \<le> silent_ms hz (checked s ! ?n) now" for now
    by (rule silent_ms_mono) (use assms(3) in simp_all)
  have "client_inv f hz (s\<lparr>checked := (checked s)[?n := t], supervisor := (supervisor s)\<lparr>wdog := w\<rparr>\<rparr>) i" if "i < 3" for i
  proof (cases "i = ?n")
    case True
    then show ?thesis
      using wf(2,3) n assms(4) mono [of "nat (restarted s)"] mono [of "due s - check_ticks f"]
      by (auto simp: client_inv_def client_update_def Let_def w(1))
  next
    case False
    then show ?thesis using that wf(2,3) n by (auto simp: client_inv_def client_update_def Let_def w(1))
  qed
  then show ?thesis using assms(1) w(2) by (simp add: watch_inv_def)
qed

lemma inv_hang_injected:
  assumes "watch_inv f hz late gap s" "task_watchdog_inject_hang c (wdog (supervisor s)) = Some w"
  shows "watch_inv f hz late gap (s\<lparr>supervisor := (supervisor s)\<lparr>wdog := w\<rparr>\<rparr>)"
  using assms inject_some [of "wdog (supervisor s)" c w] by (simp add: watch_inv_def client_inv_def)

text \<open>While the supervisor still kicks, the silence it computes is the true one.\<close>

lemma turn_sees:
  assumes "watch_inv f hz late gap s" "watch_fits f hz late" "kicking (supervisor s)" "i < 3"
  shows "in_time hz (of_nat (clock s)) (wdog (supervisor s)) i \<longleftrightarrow> silent_ms hz (checked s ! i) (clock s) \<le> client_limit i"
proof -
  have c: "last_checkin_tick (s_clients (wdog (supervisor s)) ! i) = of_nat (checked s ! i)" "checked s ! i \<le> clock s"
      "unat (limit_ms (s_clients (wdog (supervisor s)) ! i)) = client_limit i"
      "silent_ms hz (checked s ! i) (due s - check_ticks f) \<le> client_limit i"
    using assms(1,3,4) by (simp_all add: watch_inv_def client_inv_def)
  have hz: "0 < hz" and fits: "(client_limit i + 1) * unat hz + 1000 * (check_ticks f + late) < 4294967296"
    using assms(2,4) by (simp_all add: watch_fits_def list_all_iff)
  have "clock s \<le> due s + late" "check_ticks f \<le> due s" using assms(1) by (simp_all add: watch_inv_def)
  then have "(clock s - checked s ! i) * 1000 \<le> (due s - check_ticks f - checked s ! i) * 1000 + 1000 * (check_ticks f + late)"
    by simp
  then have small: "(clock s - checked s ! i) * 1000 < 4294967296"
    using silent_ms_less [OF hz c(4)] fits by linarith
  then have "silence hz (of_nat (clock s)) (wdog (supervisor s)) i = silent_ms hz (checked s ! i) (clock s)"
    by (intro silence_true [OF c(1,2)]) simp
  moreover have "silent_ms hz (checked s ! i) (clock s) < 4294967296"
    using small unfolding silent_ms_def by (meson div_le_dividend le_less_trans)
  ultimately show ?thesis using in_time_exact [of hz "of_nat (clock s)" "wdog (supervisor s)" i] c(3) by simp
qed

lemma turn_kicking:
  assumes "watch_inv f hz late gap s" "watch_fits f hz late"
  shows "kicking (pass_next hz (of_nat (clock s)) (supervisor s)) \<longleftrightarrow>
    kicking (supervisor s) \<and> list_all (\<lambda>i. silent_ms hz (checked s ! i) (clock s) \<le> client_limit i) [0..<3]"
  using turn_sees [OF assms] by (auto simp: pass_next_kicking list_all_iff)

lemma wdog_task_turn_eq:
  assumes "wdog_wf (wdog s)" "delay_law delay"
  shows "wdog_task_turn delay f hz now (lw, s) = Some (lw + f APP_WDT_CHECK_PERIOD_MS, pass_next hz now s)"
  using assms by (simp add: wdog_task_turn_def delay_law_def wdog_pass_eq Let_def)

lemma inv_turn:
  assumes "delay_law delay" "watch_fits f hz late" "watch_inv f hz late gap s" "due s \<le> clock s"
    and "wdog_task_turn delay f hz (of_nat (clock s)) (last_wake s, supervisor s) = Some (lw, t)"
  shows "watch_inv f hz late gap (s\<lparr>due := due s + unat (lw - last_wake s),
      restarted := (if wdt_calls (wdog_wdt t) = wdt_calls (wdog_wdt (supervisor s)) then restarted s else int (clock s)),
      last_wake := lw, supervisor := t\<rparr>)"
proof -
  have wf: "wdog_wf (wdog (supervisor s))" and run: "s_wdt_running (wdog_wdt (supervisor s))"
    using assms(3) by (simp_all add: watch_inv_def)
  have t: "lw = last_wake s + f APP_WDT_CHECK_PERIOD_MS" "t = pass_next hz (of_nat (clock s)) (supervisor s)"
    using wdog_task_turn_eq [OF wf assms(1)] assms(5) by simp_all
  have wait: "unat (lw - last_wake s) = check_ticks f" by (simp add: t(1) check_ticks_def)
  have calls: "wdt_calls (wdog_wdt t) = wdt_calls (wdog_wdt (supervisor s)) \<longleftrightarrow> \<not> kicking t"
    using run by (simp add: t(2) pass_next_calls)
  have fine: "silent_ms hz (checked s ! i) (clock s) \<le> client_limit i" if "kicking t" "i < 3" for i
    using that turn_kicking [OF assms(3,2)] by (simp add: t(2) list_all_iff)
  have "silent_ms hz (checked s ! i) (due s) \<le> silent_ms hz (checked s ! i) (clock s)" for i
    by (rule silent_ms_mono) (use assms(4) in simp_all)
  then have "client_inv f hz (s\<lparr>due := due s + check_ticks f,
      restarted := (if \<not> kicking t then restarted s else int (clock s)), last_wake := lw, supervisor := t\<rparr>) i" if "i < 3" for i
    using assms(3) fine [OF _ that] that by (auto simp: watch_inv_def client_inv_def t(2) intro: le_trans)
  moreover have "of_nat (check_ticks f) = f APP_WDT_CHECK_PERIOD_MS" by (simp add: check_ticks_def)
  moreover have "wdog_wf (wdog t)" "s_wdt_running (wdog_wdt t)" "kicking t \<longrightarrow> kicking (supervisor s)"
    using wf run by (simp_all add: t(2) pass_next_kicking)
  ultimately show ?thesis
    using assms(3,4) unfolding wait calls watch_inv_def t(1) check_ticks_def by (cases "kicking t") simp_all
qed

lemma watch_step_inv:
  assumes "delay_law delay" "watch_fits f hz late" "watch_inv f hz late gap s" "watch_step delay f hz late s t"
  shows "watch_inv f hz late gap t"
  using assms(4)
  by (rule watch_stepE)
    (simp_all add: inv_time_passes [OF assms(3)] inv_checks_in [OF assms(3)] inv_hang_injected [OF assms(3)]
      inv_turn [OF assms(1-3)])

interpretation watch: inductive_invariant "watch_start f hz gap" "watch_step delay f hz late"
  "\<lambda>s. delay_law delay \<longrightarrow> watch_fits f hz late \<longrightarrow> watch_inv f hz late gap s" for delay f hz late gap
  by unfold_locales (auto intro: watch_start_inv watch_step_inv)

lemma watch_reachable:
  assumes "delay_law delay" "watch_fits f hz late" "watch_start f hz gap s0" "(watch_step delay f hz late)\<^sup>*\<^sup>* s0 s"
  shows "watch_inv f hz late gap s"
  using watch.inv_reachable [OF assms(4,3)] assms(1,2) by blast

text \<open>The timeout is what the driver set up.\<close>

lemma pass_next_timeout [simp]:
  "s_timeout_ms (wdog_wdt (pass_next hz now s)) = s_timeout_ms (wdog_wdt s)"
  by (simp add: pass_next_def wdt_call_def Let_def split: option.split)

lemma watch_timeout:
  assumes "delay_law delay" "watch_fits f hz late" "watch_inv f hz late gap s" "(watch_step delay f hz late)\<^sup>*\<^sup>* s t"
  shows "s_timeout_ms (wdog_wdt (supervisor t)) = s_timeout_ms (wdog_wdt (supervisor s)) \<and> watch_inv f hz late gap t"
  using assms(4)
proof (induction rule: rtranclp_induct)
  case base
  show ?case using assms(3) by simp
next
  case (step t u)
  have "wdog_wf (wdog (supervisor t))" using step.IH by (simp add: watch_inv_def)
  then have "s_timeout_ms (wdog_wdt (supervisor u)) = s_timeout_ms (wdog_wdt (supervisor t))"
    using step.hyps(2) wdog_task_turn_eq [OF _ assms(1)] by (elim watch_stepE) auto
  then show ?case using step.IH watch_step_inv [OF assms(1,2) _ step.hyps(2)] by simp
qed

section \<open>What the invariant gives\<close>

lemma restart_recent:
  assumes "watch_inv f hz late gap s" "kicking (supervisor s)"
  shows "int (clock s) - restarted s \<le> int (gap + check_ticks f + late)"
proof -
  have "clock s \<le> due s + late" "int (due s) \<le> restarted s + int (gap + check_ticks f)"
    using assms by (simp_all add: watch_inv_def)
  then show ?thesis by linarith
qed

lemma recent_unexpired:
  assumes "watch_inv f hz late gap s" "kicking (supervisor s)"
    and "1000 * (gap + check_ticks f + late) < unat (s_timeout_ms (wdog_wdt (supervisor s))) * unat hz"
  shows "\<not> swdt_expired hz s"
proof -
  have "(int (clock s) - restarted s) * 1000 \<le> int (1000 * (gap + check_ticks f + late))"
    using restart_recent [OF assms(1,2)] by simp
  also have "\<dots> < int (unat (s_timeout_ms (wdog_wdt (supervisor s))) * unat hz)"
    using assms(3) by (simp only: of_nat_less_iff)
  finally show ?thesis unfolding swdt_expired_def by linarith
qed

text \<open>A silent client: no restart came later than its limit after its last check-in.\<close>

lemma silent_expires:
  assumes "watch_inv f hz late gap s" "0 < hz" "i < 3"
    and "(client_limit i + 1 + unat (s_timeout_ms (wdog_wdt (supervisor s)))) * unat hz \<le> (clock s - checked s ! i) * 1000"
  shows "swdt_expired hz s"
proof -
  define r where "r = nat (restarted s)"
  have now: "r \<le> clock s" "restarted s \<le> int r"
    using assms(1) by (simp_all add: watch_inv_def r_def nat_le_iff)
  have "silent_ms hz (checked s ! i) r \<le> client_limit i"
    using assms(1,3) by (simp add: watch_inv_def client_inv_def r_def)
  with silent_ms_less [OF assms(2)] have "(r - checked s ! i) * 1000 < (client_limit i + 1) * unat hz" by blast
  moreover have "clock s - checked s ! i \<le> (clock s - r) + (r - checked s ! i)" by simp
  ultimately have "unat (s_timeout_ms (wdog_wdt (supervisor s))) * unat hz \<le> (clock s - r) * 1000"
    using assms(4) by (simp add: add_mult_distrib)
  then have "int (unat (s_timeout_ms (wdog_wdt (supervisor s))) * unat hz) \<le> int ((clock s - r) * 1000)"
    by (simp only: of_nat_le_iff)
  also have "\<dots> \<le> (int (clock s) - restarted s) * 1000" using now by simp
  finally show ?thesis by (simp add: swdt_expired_def)
qed

text \<open>A client whose next check-in hangs has made its last one.\<close>

lemma hung_step:
  assumes "watch_inv f hz late gap s" "delay_law delay" "watch_step delay f hz late s t" "c \<noteq> WDOG_CLIENT_COUNT"
    and "hang_requested (s_clients (wdog (supervisor s)) ! wdog_client_index c)"
  shows "hang_requested (s_clients (wdog (supervisor t)) ! wdog_client_index c) \<and>
    checked t ! wdog_client_index c = checked s ! wdog_client_index c"
proof -
  have wf: "wdog_wf (wdog (supervisor s))" using assms(1) by (simp add: watch_inv_def)
  from assms(3) show ?thesis
  proof (rule watch_stepE)
    fix d u w
    assume d: "d \<noteq> WDOG_CLIENT_COUNT" "task_watchdog_checkin (of_nat u) d (wdog (supervisor s)) = Some w"
      and t: "t = s\<lparr>checked := (checked s)[wdog_client_index d := u], supervisor := (supervisor s)\<lparr>wdog := w\<rparr>\<rparr>"
    have "d \<noteq> c" "w = client_update d (\<lambda>st. st\<lparr>last_checkin_tick := of_nat u\<rparr>) (wdog (supervisor s))"
      using d checkin_eq [OF wf d(1)] assms(5) by (auto split: if_splits)
    then show ?thesis
      using assms(5) by (simp add: t client_update_def Let_def client_index_inj)
  next
    fix d w
    assume "task_watchdog_inject_hang d (wdog (supervisor s)) = Some w"
      and "t = s\<lparr>supervisor := (supervisor s)\<lparr>wdog := w\<rparr>\<rparr>"
    then show ?thesis using inject_some(4) [OF wf] assms(5) by simp
  qed (use assms(5) wdog_task_turn_eq [OF wf assms(2)] in auto)
qed

lemma hung_run:
  assumes "delay_law delay" "watch_fits f hz late" "watch_inv f hz late gap s" "(watch_step delay f hz late)\<^sup>*\<^sup>* s t"
    and "c \<noteq> WDOG_CLIENT_COUNT" "hang_requested (s_clients (wdog (supervisor s)) ! wdog_client_index c)"
  shows "watch_inv f hz late gap t \<and> hang_requested (s_clients (wdog (supervisor t)) ! wdog_client_index c) \<and>
    checked t ! wdog_client_index c = checked s ! wdog_client_index c"
  using assms(4)
proof (induction rule: rtranclp_induct)
  case base
  then show ?case using assms(3,6) by simp
next
  case (step t u)
  then show ?case
    using watch_step_inv [OF assms(1,2)] hung_step [OF _ assms(1) _ assms(5)] by metis
qed

section \<open>Properties\<close>

text \<open>An example: 1000 ticks a second, the watchdog started 20 ticks before the first, and a supervisor at most 10 late.\<close>

definition watch0 :: watch where
  "watch0 = \<lparr>clock = 0, due = 250, checked = [0, 0, 0], restarted = - 20, last_wake = 0, supervisor = wdog_started\<rparr>"

lemma watch0_laws:
  "delay_law (+)" "watch_fits (\<lambda>ms. ms) 1000 10" "watch_start (\<lambda>ms. ms) 1000 20 watch0"
proof -
  show "delay_law (+)" by (simp add: delay_law_def)
  show "watch_fits (\<lambda>ms. ms) 1000 10"
    by (simp add: watch_fits_def upt_3 client_limit_def wdog_boot_def check_ticks_def app_config)
  have "(last_wake watch0, supervisor watch0) = wdog_task_begin (of_nat (clock watch0)) wdog_started"
    by (simp add: watch0_def wdog_task_begin_def wdog_started_def)
  then show "watch_start (\<lambda>ms. ms) 1000 20 watch0"
    unfolding watch_start_def
    by (intro conjI exI [of _ wdog_started])
      (simp_all add: watch0_def check_ticks_def app_config upt_3 silent_ms_def, simp add: wdog_started_def)
qed

lemma ticks_pass:
  "n \<le> due s + late - clock s \<Longrightarrow> (watch_step delay f hz late)\<^sup>*\<^sup>* s (s\<lparr>clock := clock s + n\<rparr>)"
proof (induction n)
  case (Suc n)
  let ?s = "s\<lparr>clock := clock s + n\<rparr>"
  from Suc have "(watch_step delay f hz late)\<^sup>*\<^sup>* s ?s" and "clock ?s < due ?s + late" by simp_all
  from rtranclp.rtrancl_into_rtrancl [OF this(1) time_passes [OF this(2)]] show ?case by simp
qed simp

text \<open>A turn of the loop that is due, and turns each as soon as it is.\<close>

lemma turn_at:
  assumes "wdog_wf (wdog (supervisor s))" "due s \<le> clock s"
  shows "\<exists>t. watch_step (+) (\<lambda>ms. ms) 1000 10 s t \<and> clock t = clock s \<and> due t = due s + 250 \<and>
    wdog_wf (wdog (supervisor t)) \<and> s_timeout_ms (wdog_wdt (supervisor t)) = s_timeout_ms (wdog_wdt (supervisor s))"
proof (intro exI conjI)
  show "watch_step (+) (\<lambda>ms. ms) 1000 10 s (s\<lparr>due := due s + unat (last_wake s + APP_WDT_CHECK_PERIOD_MS - last_wake s),
      restarted := (if wdt_calls (wdog_wdt (pass_next 1000 (of_nat (clock s)) (supervisor s))) = wdt_calls (wdog_wdt (supervisor s))
        then restarted s else int (clock s)),
      last_wake := last_wake s + APP_WDT_CHECK_PERIOD_MS, supervisor := pass_next 1000 (of_nat (clock s)) (supervisor s)\<rparr>)"
    by (rule supervisor_turn [OF assms(2) wdog_task_turn_eq [OF assms(1) watch0_laws(1)]])
qed (use assms(1) in \<open>simp_all add: app_config\<close>)

lemma turns_pass:
  assumes "wdog_wf (wdog (supervisor s))" "due s = clock s + 250"
  shows "\<exists>t. (watch_step (+) (\<lambda>ms. ms) 1000 10)\<^sup>*\<^sup>* s t \<and> clock t = clock s + n * 250 \<and> due t = clock t + 250 \<and>
    wdog_wf (wdog (supervisor t)) \<and> s_timeout_ms (wdog_wdt (supervisor t)) = s_timeout_ms (wdog_wdt (supervisor s))"
proof (induction n)
  case 0
  show ?case by (rule exI [of _ s]) (use assms in simp)
next
  case (Suc n)
  then obtain t where t: "(watch_step (+) (\<lambda>ms. ms) 1000 10)\<^sup>*\<^sup>* s t" "clock t = clock s + n * 250"
      "due t = clock t + 250" "wdog_wf (wdog (supervisor t))"
      "s_timeout_ms (wdog_wdt (supervisor t)) = s_timeout_ms (wdog_wdt (supervisor s))"
    by (elim exE conjE) (rule that)
  let ?u = "t\<lparr>clock := clock t + 250\<rparr>"
  have tick: "(watch_step (+) (\<lambda>ms. ms) 1000 10)\<^sup>*\<^sup>* t ?u" by (rule ticks_pass) (simp add: t(3))
  have "wdog_wf (wdog (supervisor ?u))" "due ?u \<le> clock ?u" using t(3,4) by simp_all
  from turn_at [OF this] obtain v where v: "watch_step (+) (\<lambda>ms. ms) 1000 10 ?u v" "clock v = clock ?u"
      "due v = due ?u + 250" "wdog_wf (wdog (supervisor v))"
      "s_timeout_ms (wdog_wdt (supervisor v)) = s_timeout_ms (wdog_wdt (supervisor ?u))"
    by (elim exE conjE) (rule that)
  have "(watch_step (+) (\<lambda>ms. ms) 1000 10)\<^sup>*\<^sup>* s v"
    using t(1) tick v(1) by (meson rtranclp.rtrancl_into_rtrancl rtranclp_trans)
  then show ?case by (rule exI [of _ v, OF conjI]) (use t(2,3,5) v in simp)
qed

text \<open>
  C7: The supervisor's loop never lets the watchdog reset a healthy system. In every state the tasks and
  the passing time can lead to, across any number of wraps of the tick count, as long as the supervisor
  has not found a task late, the time since the watchdog was last restarted, by a kick or, before the
  first kick, by its start \<open>gap\<close> ticks before the task's, is below the watchdog's timeout, provided that
  this gap, one check period and the supervisor's own lateness together are; and a turn finds a task late
  only if the task really has not checked in for longer than its limit.
\<close>

theorem watchdog_spares_healthy:
  assumes "delay_law delay" "watch_fits f hz late" "watch_start f hz gap s0" "(watch_step delay f hz late)\<^sup>*\<^sup>* s0 s"
    and "kicking (supervisor s)"
    and "1000 * (gap + check_ticks f + late) < unat (s_timeout_ms (wdog_wdt (supervisor s))) * unat hz"
  shows "\<not> swdt_expired hz s \<and>
    (\<forall>t. watch_step delay f hz late s t \<and> (\<forall>i<3. silent_ms hz (checked s ! i) (clock s) \<le> client_limit i) \<longrightarrow>
       kicking (supervisor t))"
proof -
  note inv = watch_reachable [OF assms(1-4)]
  have "\<not> swdt_expired hz s" using inv assms(5,6) by (rule recent_unexpired)
  moreover have "kicking (supervisor t)"
    if "watch_step delay f hz late s t" "\<forall>i<3. silent_ms hz (checked s ! i) (clock s) \<le> client_limit i" for t
    using that(1)
  proof (rule watch_stepE)
    fix lw u
    assume "wdog_task_turn delay f hz (of_nat (clock s)) (last_wake s, supervisor s) = Some (lw, u)"
      and "t = s\<lparr>due := due s + unat (lw - last_wake s),
         restarted := (if wdt_calls (wdog_wdt u) = wdt_calls (wdog_wdt (supervisor s)) then restarted s else int (clock s)),
         last_wake := lw, supervisor := u\<rparr>"
    then show ?thesis
      using wdog_task_turn_eq [OF _ assms(1)] inv turn_kicking [OF inv assms(2)] assms(5) that(2)
      by (auto simp: watch_inv_def list_all_iff)
  qed (use assms(5) in simp_all)
  ultimately show ?thesis by blast
qed

lemma watchdog_spares_healthy_witness:
  "\<exists>t. (watch_step (+) (\<lambda>ms. ms) 1000 10)\<^sup>*\<^sup>* watch0 (watch0\<lparr>clock := 255\<rparr>) \<and>
     \<not> swdt_expired 1000 (watch0\<lparr>clock := 255\<rparr>) \<and>
     watch_step (+) (\<lambda>ms. ms) 1000 10 (watch0\<lparr>clock := 255\<rparr>) t \<and> due t = 500 \<and> kicking (supervisor t)"
proof -
  let ?s = "watch0\<lparr>clock := 255\<rparr>"
  have reach: "(watch_step (+) (\<lambda>ms. ms) 1000 10)\<^sup>*\<^sup>* watch0 ?s"
    using ticks_pass [of 255 watch0 10] by (simp add: watch0_def)
  have "wdog_wf (wdog (supervisor ?s))" "due ?s \<le> clock ?s" by (simp_all add: watch0_def)
  from turn_at [OF this] obtain t where t: "watch_step (+) (\<lambda>ms. ms) 1000 10 ?s t" "due t = due ?s + 250" by blast
  have "\<forall>i<3. silent_ms 1000 (checked ?s ! i) (clock ?s) \<le> client_limit i"
    by (auto simp: watch0_def less_Suc_eq numeral_3_eq_3 silent_ms_def client_limit_def wdog_boot_def app_config)
  then have "\<not> swdt_expired 1000 ?s \<and> kicking (supervisor t)"
    using watchdog_spares_healthy [OF watch0_laws reach] t(1)
    by (simp add: watch0_def wdog_started_def check_ticks_def app_config)
  then show ?thesis using reach t by (intro exI [of _ t]) (simp add: watch0_def)
qed

text \<open>
  C6: A hung task gets the system reset in bounded time. Once a task's hang has been requested, then from
  whatever reachable state, whatever the other tasks do and however often the tick count wraps, the
  watchdog has run out by the time the task's limit plus the watchdog's timeout have passed since the
  task's last check-in (the limit counted in whole milliseconds, hence the one more).
\<close>

theorem watchdog_resets_hung:
  assumes "delay_law delay" "watch_fits f hz late" "watch_start f hz gap s0" "(watch_step delay f hz late)\<^sup>*\<^sup>* s0 s"
    and "c \<noteq> WDOG_CLIENT_COUNT" "hang_requested (s_clients (wdog (supervisor s)) ! wdog_client_index c)"
    and "(watch_step delay f hz late)\<^sup>*\<^sup>* s t"
    and "(client_limit (wdog_client_index c) + 1 + unat (s_timeout_ms (wdog_wdt (supervisor t)))) * unat hz
           \<le> (clock t - checked s ! wdog_client_index c) * 1000"
  shows "swdt_expired hz t"
proof -
  have "0 < hz" using assms(2) by (simp add: watch_fits_def)
  then show ?thesis
    using hung_run [OF assms(1,2) watch_reachable [OF assms(1-4)] assms(7,5,6)] assms(5,8)
    by (intro silent_expires [of f hz late gap t "wdog_client_index c"]) (simp_all add: client_index_less)
qed

lemma watchdog_resets_hung_witness:
  "\<exists>t. (watch_step (+) (\<lambda>ms. ms) 1000 10)\<^sup>*\<^sup>* watch0 t \<and> clock t = 2750 \<and> swdt_expired 1000 t"
proof -
  obtain w where w1: "task_watchdog_inject_hang WDOG_CLIENT_UI wdog_boot = Some w"
    by (simp add: task_watchdog_inject_hang_def wdog_boot_def)
  then have "hang_requested (s_clients w ! Suc 0)" by (auto simp: task_watchdog_inject_hang_def wdog_boot_def)
  note w = w1 this
  let ?s = "watch0\<lparr>supervisor := (supervisor watch0)\<lparr>wdog := w\<rparr>\<rparr>"
  have s: "(watch_step (+) (\<lambda>ms. ms) 1000 10)\<^sup>*\<^sup>* watch0 ?s"
    by (intro r_into_rtranclp hang_injected [where c = WDOG_CLIENT_UI]) (simp add: watch0_def wdog_started_def w(1))
  have "wdog_wf (wdog (supervisor ?s))" using inject_some(1) [OF wdog_boot_wf w(1)] by simp
  from turns_pass [OF this, of 11] obtain t where t: "(watch_step (+) (\<lambda>ms. ms) 1000 10)\<^sup>*\<^sup>* ?s t" "clock t = 2750"
      "s_timeout_ms (wdog_wdt (supervisor t)) = 2000"
    by (auto simp: watch0_def wdog_started_def)
  have "swdt_expired 1000 t"
    by (rule watchdog_resets_hung [OF watch0_laws s _ _ t(1), where c = WDOG_CLIENT_UI])
      (simp_all add: w(2) t(2,3) watch0_def client_limit_def wdog_boot_def app_config)
  then show ?thesis using rtranclp_trans [OF s t(1)] t(2) by blast
qed

end
