(* ===== verification/Spec2Isabelle.thy ===== *)
theory Spec2Isabelle
  imports Boot Pass_Steps Watchdog_Loop
begin

text \<open>
  Verification of the Zybo sensor aggregator, stage 4 (\<open>src/sw/stage4_watchdog/src\<close>): a FreeRTOS
  firmware on a Zynq-7010 that samples the XADC at 10 Hz into a ring buffer in DDR, prints telemetry on a
  UART, debounces two buttons, and is supervised by the system watchdog.

  Parts and theories, bottom up. \<open>Prelude\<close>: checked arrays, words, polling and counted loops, and the
  locale \<open>inductive_invariant\<close>. \<open>Fifo\<close>: the locale of a bounded queue that overwrites its oldest element
  and its reference runs. \<open>Sensor_Record\<close>: the sample record, the sensor and button enumerations, the
  settings of \<open>config/app_config.h\<close> and \<open>config/board_zybo.h\<close>. \<open>Ring_Buffer\<close>, \<open>Sensor_Log\<close>:
  \<open>datalog/ring_buffer.c\<close> and \<open>datalog/sensor_log.c\<close>. \<open>Xadc\<close>, \<open>Uart\<close>, \<open>Slcr\<close>, \<open>Gpio\<close>, \<open>Wdt\<close>, \<open>Sample_Timer\<close>:
  the drivers of \<open>drivers/\<close>. \<open>Uptime\<close>, \<open>Console\<close>, \<open>Reset_Cause\<close>, \<open>Fault\<close>: \<open>system/uptime.c\<close>,
  \<open>system/console.c\<close>, \<open>system/reset_cause.c\<close>, \<open>system/fault.c\<close> with \<open>system/rtos_hooks.c\<close>. \<open>Messages\<close>: the
  consumer's queue and the record \<open>board\<close> of all modules' states. \<open>Watchdog_Task\<close>, \<open>Producer\<close>, \<open>Ui\<close>,
  \<open>Consumer\<close> and \<open>Consumer_Loop\<close>: the four tasks of \<open>tasks/\<close> (\<open>Consumer\<close> what prints, \<open>Consumer_Loop\<close> the
  rest). \<open>Watchdog_Loop\<close>: the supervisor's endless loop in real time, against the system watchdog's
  timeout. \<open>System\<close>: their interleaving. \<open>Pass_Steps\<close>: each task's pass is a sequence of the steps of
  \<open>System\<close>. \<open>Boot\<close>: \<open>main.c\<close>. This theory: the properties from power-up on.

  How the model corresponds to the code. A module's static variables are a record, a function is a
  definition of the same name over it, with a suffix where the name is taken; \<open>uint32_t\<close> and its
  like are words, \<open>int32_t\<close> values are integers whose range the theorems state. A pointer that may be
  NULL is an option. A result \<open>None\<close> is undefined behaviour (an access outside an array, a format and
  arguments that do not fit) or a call that has not come back (a poll whose readings have run out, an
  injected hang); totality theorems exclude it or say exactly when it happens. What is not in the
  repository is a parameter: vendor drivers, the kernel and the hardware answer through arguments or
  records named \<open>env\<close>, and the calls the code makes to them are recorded in order in the states. The
  laws relied on are named hypotheses: \<open>queue_laws\<close> for the FreeRTOS queue, \<open>delay_law\<close> for
  \<open>vTaskDelayUntil\<close>, \<open>slcr_registers\<close> for the SLCR, each with an instance. The conversion from milliseconds to ticks and the tick rate are
  parameters too. The build settings are those of the repository; code that they compile out is
  modelled only where \<open>main.c\<close> chooses by them, and for the busy wait under the mutex for tests
  (\<open>sensor_log_test_hold\<close>, by itself: with the hold time 0 of this build no caller contains it).

  What the lemmas show. Ring buffer and log: the invariant, every operation against the bounded queue,
  every run against a reference, accounting of pushed, popped, overwritten and held records over counter
  wrap-around. Drivers: the sequence of register and driver calls, the arithmetic without overflow, the
  debouncing against a reference on the whole history of scans. Console: what is on the wire for every
  value. Supervisor: it kicks while every task checks in, and never again after one hangs; in time,
  counted from \<open>main\<close>'s start of it on, the
  system watchdog never runs out on a healthy system and always does within a hung task's limit plus the
  timeout (the comment in \<open>config/app_config.h\<close> allows one check period more). Consumer: a
  pass returns unless the user asked for a hang or the task to be hung is itself, and what it takes from
  the log. System: an inductive invariant over all interleavings gives the accounting of samples, their
  order, that no wake-up is lost, that no step is undefined and that the log's mutex is always given
  back. UI task: the messages of a pass, and scans that keep their pace over any number of turns. Boot: the first failing step is the one
  reported, and success leads to the start state of that invariant and of the supervisor's.

  Bounds. Loops over lists and counters are structural, so they need no fuel: the drain loop runs over
  the answers for its four batches, a poll over the list of readings it gets, the endless loop after a
  fault up to a turn \<open>n\<close> that is arbitrary in every theorem. The task loops are endless; a pass is one
  turn of them, and \<open>sys_step\<close> iterates them.

  Granularity of the interleaving. A step is what one task does between two points where another task
  could change what it sees: a critical part under the mutex, one queue operation, one record. Handling
  a message is one step, as is printing a line; the supervisor, which can interrupt them, only reads and
  writes the check-in table and prints, so its text may in reality land inside a line.

  Not modelled, and why: the task handles and stack sizes, which only the kernel reads; the queue and
  mutex names given to the debugger; the
  FreeRTOS scheduler, the vendor's drivers and the board support package, which are not in the
  repository, and so the execution times of the tasks (how late the kernel lets the supervisor run is a
  parameter, and the check-ins come whenever they come); the Tcl scripts that build the hardware, the
  documentation.

  A comment that the model refutes: \<open>consumer_process_record\<close> says that the lost samples are the
  overwritten plus the dropped ones once the backlog is drained; \<open>System.lost_lags_behind_drops\<close> shows a
  reachable state where they are not, because a sample dropped after the last stored one is not yet
  among the lost.
\<close>

section \<open>From power-up to the running system\<close>

lemma running_schedules:
  "main env fenv n s0 = Some (Running s) \<Longrightarrow> main_start env s0 = Some (Schedules s)"
  by (auto simp: main_def main_fault_def split: bind_splits boot_end.splits if_splits)

lemma schedules_started:
  assumes "main_start env (power_up h) = Some (Schedules s)"
  shows "launched_ok env s"
proof -
  have gpio: "XGpioPs_LookupConfig_ok (m_gpio env) \<and> XGpioPs_CfgInitialize_ok (m_gpio env)"
    using assms by (auto simp: main_start_def gpio_drv_init_def Let_def split: bind_splits prod.splits if_splits)
  have uart: "uart_drains (m_bits env) (m_uart env)"
  proof (rule ccontr)
    assume "\<not> uart_drains (m_bits env) (m_uart env)"
    then have "poll_until (\<lambda>sr. sr AND XUARTPS_SR_TXEMPTY (m_bits env) \<noteq> 0) (sr_answers (m_uart env)) = None"
      by (simp add: poll_until_None uart_drains_def)
    then have "uart_drv_init (m_bits env) (m_uart env) baud u \<noteq> Some (UART_DRV_OK, u')" for baud u u'
      by (cases "XUartPs_LookupConfig (m_uart env)") (simp_all add: uart_drv_init_def)
    moreover obtain u u' where "uart_drv_init (m_bits env) (m_uart env) BOARD_CONSOLE_BAUD u = Some (UART_DRV_OK, u')"
      using assms by (auto simp: main_start_def or_fault_def Let_def split: bind_splits prod.splits if_splits)
    ultimately show False by blast
  qed
  from start_ends [of env, OF _ _ uart, of h] gpio assms show ?thesis
    by (auto simp: ends_as_def split: option.splits)
qed

text \<open>
  C1: Whenever \<open>main\<close> reaches the scheduler from power-up, whatever the hardware and the kernel answered
  on the way, and the tasks enter their loops, then in every state any interleaving of them leads to,
  every sample ever taken has been processed, or is still to be processed, or was overwritten, or was
  counted as dropped; the samples processed and to be processed are in the order they were stored;
  and a waiting consumer with samples in the log is paused, has a message coming, or the producer
  remembers to ring.
\<close>

theorem power_up_accounts:
  assumes "main env fenv n (power_up h) = Some (Running s)" "queue_laws len contents ops"
    and "producer_begin tenv cb t (bt_prod s) = Some (Inr (p, t'))"
    and "consumer_begin (p_stats p) tick (bt_cons s, bt_board s) = Some (c, b)"
    and "(sys_step ops f hz)\<^sup>*\<^sup>* (tasks_begun p c b s) x"
  shows "seq (p_record (sys_prod x)) = received_count (sys_cons x) + of_nat (length (pending (sys_pc x))) +
      of_nat (length (log_contents (b_log (sys_board x)))) + overwritten (s_ring (b_log (sys_board x))) +
      log_write_drops (p_stats (sys_prod x)) \<and>
    subseq (sys_received x @ pending (sys_pc x) @ log_contents (b_log (sys_board x))) (sys_stored x) \<and>
    (sys_pc x = Waiting False \<and> log_contents (b_log (sys_board x)) \<noteq> [] \<longrightarrow>
       drain_paused (sys_cons x) \<or> p_doorbell_pending (sys_prod x) \<or>
       (\<exists>q. b_queue (sys_board x) = Some q \<and> data_ready \<in> set (contents q)))"
proof -
  have "sys_start (boot_sys s)"
    using schedules_started [OF running_schedules [OF assms(1)]] by (simp add: launched_ok_def)
  then have "sys_start (tasks_begun p c b s)" using assms(3,4) by (rule tasks_begun_start)
  with sys.inv_reachable [OF assms(5)] assms(2) have "sys_inv contents x" by blast
  then show ?thesis
    by (auto simp: sys_inv_def sys_accounts_def sys_fifo_def sys_rung_def outstanding_def sys_log_def sys_seq_def
        sys_drops_def sys_overwritten_def ac_simps)
qed

lemma zybo_begins:
  "\<exists>s p t' c b. main zybo_boot demo_fault_env 0 (power_up (True, \<lambda>_. 0)) = Some (Running s) \<and>
     producer_begin zybo_timer_env (Some 7) timer_unused (bt_prod s) = Some (Inr (p, t')) \<and>
     consumer_begin (p_stats p) 0 (bt_cons s, bt_board s) = Some (c, b) \<and> sys_start (tasks_begun p c b s)"
proof -
  obtain s where s: "main_start zybo_boot (power_up (True, \<lambda>_. 0)) = Some (Schedules s)" "launched_ok zybo_boot s"
    using start_ends [OF zybo_boot_fields, of "(True, \<lambda>_. 0)"] zybo_checks(1) by (auto simp: ends_as_def)
  have run: "main zybo_boot demo_fault_env 0 (power_up (True, \<lambda>_. 0)) = Some (Running s)"
    by (simp add: main_def s(1)) (simp add: zybo_boot_def)
  obtain p t' where p: "producer_begin zybo_timer_env (Some 7) timer_unused (bt_prod s) = Some (Inr (p, t'))"
    by (auto simp: producer_begin_def zybo_timer_env_def timer_unused_def sample_timer_init_def APP_SAMPLE_RATE_HZ_def
        TTC_PRESCALER_INVALID_def ttc_call_def Let_def)
  obtain x where c: "consumer_begin (p_stats p) 0 (bt_cons s, bt_board s) =
      Some ((bt_cons s)\<lparr>last_progress_tick := 0\<rparr>, (bt_board s)\<lparr>b_uart := console_text x (b_uart (bt_board s))\<rparr>)"
    by (rule consumer_begin_state)
  have "sys_start (boot_sys s)" using s(2) by (simp add: launched_ok_def)
  from run p c tasks_begun_start [OF this p c] show ?thesis by blast
qed

lemma power_up_accounts_witness:
  "\<exists>s p c b x. main zybo_boot demo_fault_env 0 (power_up (True, \<lambda>_. 0)) = Some (Running s) \<and>
     sys_step (list_queue 16) (\<lambda>ms. ms) 100 (tasks_begun p c b s) x \<and> seq (p_record (sys_prod x)) = 1 \<and>
     1 = received_count (sys_cons x) + of_nat (length (pending (sys_pc x))) +
       of_nat (length (log_contents (b_log (sys_board x)))) + overwritten (s_ring (b_log (sys_board x))) +
       log_write_drops (p_stats (sys_prod x))"
proof -
  obtain s p t' c b where z: "main zybo_boot demo_fault_env 0 (power_up (True, \<lambda>_. 0)) = Some (Running s)"
      "producer_begin zybo_timer_env (Some 7) timer_unused (bt_prod s) = Some (Inr (p, t'))"
      "consumer_begin (p_stats p) 0 (bt_cons s, bt_board s) = Some (c, b)" "sys_start (tasks_begun p c b s)"
    using zybo_begins by blast
  let ?y = "tasks_begun p c b s"
  have ok: "board_ok b" "prod_wf p" "seq (p_record p) = 0"
    using z(4) by (simp_all add: sys_start_def sys_ok_def tasks_begun_def boot_sys_def sys_seq_def)
  have y: "sys_board ?y = b" "sys_prod ?y = p" "\<not> sys_checkin_due ?y" by (simp_all add: tasks_begun_def boot_sys_def)
  have tick: "ulTaskNotifyTake (demo_env True) \<noteq> 0" by (simp add: demo_env_def)
  obtain due p' b' where sample: "producer_sample (list_queue 16) APP_LOG_WRITE_WAIT_MS (demo_env True) (p, b) = Some (due, p', b')"
    using sample_returns [OF ok(1,2)] by blast
  have "seq (p_record p') = 1"
    using sample_effect [OF list_queue_laws ok(1,2) tick sample] ok(3) by simp
  moreover obtain x where "sys_step (list_queue 16) (\<lambda>ms. ms) 100 ?y x" "sys_prod x = p'"
    using producer_takes_sample [where f = "\<lambda>ms. ms" and s = ?y, OF y(3) tick refl] sample y by fastforce
  ultimately show ?thesis
    using power_up_accounts [OF z(1) list_queue_laws z(2,3), where x = x] z(1) by fastforce
qed

section \<open>From power-up to the watchdog\<close>

text \<open>
  The supervisor's task as the scheduler first runs it, at the tick \<open>t0\<close>: its loop starts from the
  state \<open>main\<close> left. \<open>wdt_drv_start\<close> is where \<open>main\<close> restarted the watchdog, \<open>lead\<close> ticks before the
  scheduler started the tick count (rounded up: the printing of two lines and the scheduler's own start
  lie in between), and nothing restarts it again before the loop's first kick.
\<close>

definition supervisor_at :: "(u32 \<Rightarrow> u32) \<Rightarrow> nat \<Rightarrow> nat \<Rightarrow> ('h, 'q) boot_state \<Rightarrow> watch" where
  "supervisor_at f lead t0 s =
     (let (lw, st) = wdog_task_begin (of_nat t0)
            \<lparr>kicking = False, wdog = b_wdog (bt_board s), wdog_wdt = b_wdt (bt_board s), wdog_uart = b_uart (bt_board s)\<rparr>
      in \<lparr>clock = t0, due = t0 + check_ticks f, checked = [0, 0, 0], restarted = - int lead, last_wake = lw, supervisor = st\<rparr>)"

lemma supervisor_at_start:
  assumes "launched_ok env s" "list_all (\<lambda>i. silent_ms hz 0 t0 \<le> client_limit i) [0..<3]"
  shows "watch_start f hz (lead + t0) (supervisor_at f lead t0 s)"
proof -
  let ?t = "\<lparr>kicking = False, wdog = b_wdog (bt_board s), wdog_wdt = b_wdt (bt_board s), wdog_uart = b_uart (bt_board s)\<rparr>"
  have "(last_wake (supervisor_at f lead t0 s), supervisor (supervisor_at f lead t0 s)) = wdog_task_begin (of_nat t0) ?t"
    by (simp add: supervisor_at_def wdog_task_begin_def)
  moreover have "wdog ?t = wdog_boot" "s_wdt_running (wdog_wdt ?t)"
    using assms(1) by (simp_all add: launched_ok_def wdt_drv_is_running_def)
  ultimately show ?thesis
    using assms(2) unfolding watch_start_def
    by (intro conjI exI [of _ ?t]) (simp_all add: supervisor_at_def wdog_task_begin_def)
qed

lemma launched_timeout:
  assumes "launched_ok env s" "16000 < unat (wdt_clock_hz (m_wdt env))"
  shows "2000 \<le> unat (s_timeout_ms (wdog_wdt (supervisor (supervisor_at f lead t0 s))))"
proof -
  obtain w where w: "wdt_came_up env w" "b_wdt (bt_board s) = wdt_drv_start w"
    using assms(1) by (auto simp: launched_ok_def)
  have "APP_WDT_TIMEOUT_MS \<le> s_timeout_ms w"
    using w(1) wdt_init_timeout [OF _ assms(2)] by (simp add: wdt_came_up_def)
  moreover have "s_timeout_ms (b_wdt (bt_board s)) = s_timeout_ms w"
    by (simp add: w(2) wdt_drv_start_def wdt_call_def)
  ultimately show ?thesis
    by (simp add: supervisor_at_def wdog_task_begin_def APP_WDT_TIMEOUT_MS_def word_le_nat_alt)
qed

text \<open>
  C2: Once \<open>main\<close> has reached the scheduler from power-up, the system watchdog guards the system as it is
  configured. Whatever the tasks do and however long they run, it does not run out while the
  supervisor has found every task in time, not even before the first kick, provided that the time from
  \<open>main\<close>'s start of the watchdog to the supervisor's first run, \<open>lead\<close> and \<open>t0\<close>, and the supervisor's own
  lateness are together less than 1750 ms (the delays are converted by rounding down); and it has run
  out whenever some task has not checked in for its limit plus the watchdog's timeout as the driver
  reports it, which is at least the 2000 ms asked for.
\<close>

theorem power_up_guards:
  assumes "main env fenv n (power_up h) = Some (Running s)" "delay_law delay" "watch_fits f hz late"
    and "16000 < unat (wdt_clock_hz (m_wdt env))" "list_all (\<lambda>i. silent_ms hz 0 t0 \<le> client_limit i) [0..<3]"
    and "1000 * check_ticks f \<le> 250 * unat hz" "1000 * (lead + t0 + late) < 1750 * unat hz"
    and "(watch_step delay f hz late)\<^sup>*\<^sup>* (supervisor_at f lead t0 s) w"
    and "timeout = unat (s_timeout_ms (wdog_wdt (supervisor w)))"
  shows "2000 \<le> timeout \<and> (kicking (supervisor w) \<longrightarrow> \<not> swdt_expired hz w) \<and>
    (\<forall>i<3. (client_limit i + 1 + timeout) * unat hz \<le> (clock w - checked w ! i) * 1000 \<longrightarrow> swdt_expired hz w)"
proof -
  note up = schedules_started [OF running_schedules [OF assms(1)]]
  note inv = watch_start_inv [OF supervisor_at_start [OF up assms(5)]]
  note w = watch_timeout [OF assms(2,3) inv assms(8)]
  have timeout: "2000 \<le> timeout" using launched_timeout [OF up assms(4), of f lead t0] w assms(9) by simp
  have "1000 * (lead + t0 + check_ticks f + late) < 2000 * unat hz"
    using add_le_less_mono [OF assms(6,7)] by (simp add: algebra_simps)
  also have "\<dots> \<le> timeout * unat hz" using timeout by simp
  finally have early: "1000 * (lead + t0 + check_ticks f + late) < timeout * unat hz" .
  have "\<not> swdt_expired hz w" if "kicking (supervisor w)"
    using recent_unexpired [OF conjunct2 [OF w] that] early unfolding assms(9) .
  moreover have "0 < hz" using assms(3) by (simp add: watch_fits_def)
  ultimately show ?thesis
    using timeout silent_expires [OF conjunct2 [OF w]] unfolding assms(9) by blast
qed

lemma power_up_guards_witness:
  "\<exists>s w. main zybo_boot demo_fault_env 0 (power_up (True, \<lambda>_. 0)) = Some (Running s) \<and>
     (watch_step (+) (\<lambda>ms. ms) 1000 10)\<^sup>*\<^sup>* (supervisor_at (\<lambda>ms. ms) 20 0 s) w \<and> clock w = 260 \<and> \<not> swdt_expired 1000 w"
proof -
  obtain s where s: "main zybo_boot demo_fault_env 0 (power_up (True, \<lambda>_. 0)) = Some (Running s)"
    using zybo_begins by blast
  let ?s0 = "supervisor_at (\<lambda>ms. ms) 20 0 s"
  have s0: "clock ?s0 = 0" "due ?s0 = 250" "kicking (supervisor ?s0)"
    by (simp_all add: supervisor_at_def wdog_task_begin_def check_ticks_def app_config)
  have reach: "(watch_step (+) (\<lambda>ms. ms) 1000 10)\<^sup>*\<^sup>* ?s0 (?s0\<lparr>clock := clock ?s0 + 260\<rparr>)"
    by (rule ticks_pass) (simp add: s0)
  have "\<not> swdt_expired 1000 (?s0\<lparr>clock := clock ?s0 + 260\<rparr>)"
    using power_up_guards [OF s watch0_laws(1,2) _ _ _ _ reach refl] s0
    by (simp add: zybo_boot_def check_ticks_def app_config silent_ms_def upt_3)
  with s reach s0(1) show ?thesis by (intro exI [of _ s] exI conjI) auto
qed

end
